(* ===== verification/Gfap_Prelude.thy ===== *)
theory Gfap_Prelude
  imports Main "HOL-Library.Sublist" "HOL-Library.Char_ord" "HOL-Library.List_Lexorder"
    "HOL-Library.Product_Lexorder" "HOL-Library.Code_Target_Nat"
begin

text \<open>
  What every component shares: the type names of the model, the fragment of the Go and Lua
  standard libraries the program uses on strings and integers (decimal numerals, splitting at a
  separator, substring search, 64-bit wrap-around, unix seconds of a time value), and the
  generic facts on lists and maps behind the component proofs.

  Go strings are byte strings: a string of the model is a list of bytes. A time value is its
  distance from the unix epoch in nanoseconds, an integer; Go's zero time is a particular
  (very negative) such value. A duration is an integer number of nanoseconds.
\<close>

named_theorems frontier_keys "the pairwise distinctness of the Redis keys"
named_theorems script_defs "the definitions of the Lua scripts"

type_synonym url = string
type_synonym key = string
type_synonym member = string
type_synonym go_time = int
type_synonym duration = int

section \<open>Decimal numerals\<close>

definition digit_char :: "nat \<Rightarrow> char" where
  "digit_char n = ''0123456789'' ! n"

definition digit_val :: "char \<Rightarrow> nat option" where
  "digit_val c = (let k = of_char c :: nat in if 48 \<le> k \<and> k \<le> 57 then Some (k - 48) else None)"

text \<open>The decimal numeral of a number: \<open>strconv.Itoa\<close>, \<open>strconv.FormatInt(n, 10)\<close>.\<close>

fun show_nat :: "nat \<Rightarrow> string" where
  "show_nat n = (if n < 10 then [digit_char n] else show_nat (n div 10) @ [digit_char (n mod 10)])"

declare show_nat.simps [simp del]

definition show_int :: "int \<Rightarrow> string" where
  "show_int i = (if i < 0 then CHR ''-'' # show_nat (nat (- i)) else show_nat (nat i))"

fun digits_val :: "nat \<Rightarrow> string \<Rightarrow> nat option" where
  "digits_val acc [] = Some acc"
| "digits_val acc (c # cs) =
     (case digit_val c of None \<Rightarrow> None | Some v \<Rightarrow> digits_val (10 * acc + v) cs)"

definition parse_nat :: "string \<Rightarrow> nat option" where
  "parse_nat s = (if s = [] then None else digits_val 0 s)"

text \<open>A decimal integer with an optional sign, of any magnitude.\<close>

fun parse_int :: "string \<Rightarrow> int option" where
  "parse_int [] = None"
| "parse_int (c # cs) =
     (if c = CHR ''-'' then map_option (\<lambda>n. - int n) (parse_nat cs)
      else if c = CHR ''+'' then map_option int (parse_nat cs)
      else map_option int (parse_nat (c # cs)))"

text \<open>\<open>strconv.Atoi\<close> and \<open>strconv.ParseInt(s, 10, 64)\<close>: a value outside 64 bits is an error.\<close>

definition in_int64 :: "int \<Rightarrow> bool" where
  "in_int64 i \<longleftrightarrow> - (2 ^ 63) \<le> i \<and> i < 2 ^ 63"

definition atoi :: "string \<Rightarrow> int option" where
  "atoi s = (case parse_int s of None \<Rightarrow> None | Some i \<Rightarrow> if in_int64 i then Some i else None)"

text \<open>Signed 64-bit wrap-around, the result of an overflowing Go multiplication.\<close>

definition wrap64 :: "int \<Rightarrow> int" where
  "wrap64 i = (i + 2 ^ 63) mod 2 ^ 64 - 2 ^ 63"

section \<open>Time\<close>

definition second :: duration where
  "second = 1000000000"

definition hour :: duration where
  "hour = 3600 * second"

text \<open>\<open>Time.Unix\<close> rounds down; a duration divided by \<open>time.Second\<close> truncates toward zero.\<close>

definition unix :: "go_time \<Rightarrow> int" where
  "unix t = t div second"

definition whole_seconds :: "duration \<Rightarrow> int" where
  "whole_seconds x = sgn x * (\<bar>x\<bar> div second)"

definition zero_time :: go_time where
  "zero_time = - 62135596800 * second"

section \<open>Substrings\<close>

text \<open>\<open>strings.Cut\<close>, \<open>strings.IndexByte\<close> and Lua's plain \<open>string.find\<close>: split at the first
  occurrence of a byte.\<close>

fun cut :: "char \<Rightarrow> string \<Rightarrow> (string \<times> string) option" where
  "cut c [] = None"
| "cut c (x # xs) =
     (if x = c then Some ([], xs) else map_option (\<lambda>(a, b). (x # a, b)) (cut c xs))"

text \<open>\<open>strings.Contains(s, p)\<close>.\<close>

fun str_contains :: "string \<Rightarrow> string \<Rightarrow> bool" where
  "str_contains [] p \<longleftrightarrow> p = []"
| "str_contains (x # xs) p \<longleftrightarrow> prefix p (x # xs) \<or> str_contains xs p"

text \<open>\<open>strings.Split(s, sep)\<close> for a one-byte separator: never the empty list.\<close>

fun split_on :: "char \<Rightarrow> string \<Rightarrow> string list" where
  "split_on c [] = [[]]"
| "split_on c (x # xs) =
     (if x = c then [] # split_on c xs
      else (case split_on c xs of [] \<Rightarrow> [[x]] | w # ws \<Rightarrow> (x # w) # ws))"

section \<open>Facts on numerals\<close>

lemma digit_val_digit_char [simp]:
  assumes "n < 10"
  shows "digit_val (digit_char n) = Some n"
proof -
  from assms have "n \<in> {0, 1, 2, 3, 4, 5, 6, 7, 8, 9}" by auto
  then show ?thesis by (auto simp: digit_char_def digit_val_def)
qed

lemma digit_char_neq:
  assumes "n < 10" "digit_val c = None"
  shows "digit_char n \<noteq> c"
  using assms by (metis digit_val_digit_char option.distinct(1))

lemma show_nat_nonempty [simp]: "show_nat n \<noteq> []"
  by (subst show_nat.simps) simp

lemma show_nat_numeral [simp]:
  "show_nat (numeral k) =
     (if (numeral k :: nat) < 10 then [digit_char (numeral k)]
      else show_nat (numeral k div 10) @ [digit_char (numeral k mod 10)])"
  by (subst show_nat.simps) simp

lemma show_nat_small [simp]: "show_nat 0 = ''0''" "show_nat (Suc 0) = ''1''" "show_nat 1 = ''1''"
  by (simp_all add: show_nat.simps digit_char_def)

lemma digits_val_append:
  "digits_val acc (a @ b) = (case digits_val acc a of None \<Rightarrow> None | Some v \<Rightarrow> digits_val v b)"
  by (induction a arbitrary: acc) (auto split: option.splits)

lemma digits_val_show_nat: "digits_val 0 (show_nat n) = Some n"
proof (induction n rule: show_nat.induct)
  case (1 n)
  then show ?case
    by (cases "n < 10") (auto simp: show_nat.simps [of n] digits_val_append)
qed

lemma parse_nat_show_nat [simp]: "parse_nat (show_nat n) = Some n"
  by (simp add: parse_nat_def digits_val_show_nat)

lemma show_nat_digits: "c \<in> set (show_nat n) \<Longrightarrow> digit_val c \<noteq> None"
proof (induction n rule: show_nat.induct)
  case (1 n)
  show ?case
  proof (cases "n < 10")
    case True
    with 1 show ?thesis by (auto simp: show_nat.simps [of n])
  next
    case False
    have "n mod 10 < 10" by simp
    with 1 False show ?thesis by (auto simp: show_nat.simps [of n])
  qed
qed

lemma show_nat_no [simp]: "digit_val c = None \<Longrightarrow> c \<notin> set (show_nat n)"
  using show_nat_digits by blast

lemma digit_val_none [simp]:
  "digit_val CHR ''|'' = None" "digit_val CHR ''-'' = None" "digit_val CHR ''+'' = None"
  by (simp_all add: digit_val_def)

lemma show_nat_inj [simp]: "show_nat m = show_nat n \<longleftrightarrow> m = n"
  by (metis option.inject parse_nat_show_nat)

lemma parse_int_show_int [simp]: "parse_int (show_int i) = Some i"
proof (cases "i < 0")
  case True
  then show ?thesis by (simp add: show_int_def)
next
  case False
  obtain c cs where s: "show_nat (nat i) = c # cs"
    by (cases "show_nat (nat i)") auto
  have "digit_val c \<noteq> None"
    using show_nat_digits [of c "nat i"] s by simp
  then have "c \<noteq> CHR ''-''" "c \<noteq> CHR ''+''"
    using digit_val_none by metis+
  moreover have "parse_nat (c # cs) = Some (nat i)"
    using s parse_nat_show_nat by metis
  ultimately show ?thesis
    using False s by (simp add: show_int_def)
qed

lemma show_int_inj [simp]: "show_int i = show_int j \<longleftrightarrow> i = j"
  by (metis option.inject parse_int_show_int)

lemma show_int_nonempty [simp]: "show_int i \<noteq> []"
  by (simp add: show_int_def)

lemma show_int_no_bar [simp]: "CHR ''|'' \<notin> set (show_int i)"
  by (auto simp: show_int_def)

lemma atoi_show_int [simp]: "in_int64 i \<Longrightarrow> atoi (show_int i) = Some i"
  by (simp add: atoi_def)

lemma wrap64_id [simp]: "in_int64 i \<Longrightarrow> wrap64 i = i"
  by (simp add: wrap64_def in_int64_def)

lemma wrap64_range: "in_int64 (wrap64 i)"
proof -
  have "0 \<le> (i + 2 ^ 63) mod (2 ^ 64 :: int)" "(i + 2 ^ 63) mod (2 ^ 64 :: int) < 2 ^ 64"
    by simp_all
  then show ?thesis by (simp add: wrap64_def in_int64_def)
qed

section \<open>Facts on substrings\<close>

lemma cut_append [simp]: "c \<notin> set a \<Longrightarrow> cut c (a @ c # b) = Some (a, b)"
  by (induction a) auto

lemma cut_none_iff [simp]: "cut c s = None \<longleftrightarrow> c \<notin> set s"
  by (induction s) auto

lemma cut_SomeD: "cut c s = Some (a, b) \<Longrightarrow> s = a @ c # b \<and> c \<notin> set a"
  by (induction s arbitrary: a) (auto split: if_splits)

lemma str_contains_iff: "str_contains s p \<longleftrightarrow> sublist p s"
  by (induction s) (auto simp: sublist_Cons_right)

lemma split_on_nonempty [simp]: "split_on c s \<noteq> []"
  by (induction s) (auto split: list.splits)

section \<open>Facts on lists\<close>

lemma set_remove1_distinct [simp]: "distinct xs \<Longrightarrow> set (remove1 x xs) = set xs - {x}"
  by (rule set_remove1_eq)

lemma distinct_butlast_last:
  assumes "xs \<noteq> []" "distinct xs"
  shows "last xs \<notin> set (butlast xs)"
  using assms by (induction xs) auto

lemma set_butlast_last: "xs \<noteq> [] \<Longrightarrow> set xs = insert (last xs) (set (butlast xs))"
  by (induction xs) auto

end
