(* ===== verification/Redis_Interface.thy ===== *)
theory Redis_Interface
  imports Gfap_Prelude
begin

text \<open>
  Redis is a service the program talks to, not code of this repository. Here it is a parameter:
  a function \<open>call\<close> that executes one command on an opaque server state and answers with a reply
  or an error. What the program relies on is stated as the laws of the locale \<open>redis_server\<close>:
  a command that answers has the effect Redis documents for it on the observable contents
  (\<open>redis_doc\<close>), a command that fails has none. \<open>redis_reliable\<close> adds that a command whose
  documented preconditions hold does not fail.

  A Lua script is a program over such commands (\<open>'a script\<close>): it ends with a value, raises an
  error, or issues a command and continues with the reply, as \<open>redis.call\<close> does. A command that
  fails inside a script ends the script, and the effects of the commands before it stay: Redis
  does not roll a script back. \<open>wp\<close> is the weakest precondition of a script over the documented
  behaviour, and \<open>run_wp\<close> its soundness for every server that obeys the laws.
\<close>

section \<open>Commands, replies and the observable contents\<close>

datatype reply = RNil | RInt int | RStr string | RArr "string list"

datatype side = LEFT | RIGHT

datatype cmd =
    LMOVE key key side side
  | LPUSH key string
  | LREM key nat string
  | LRANGE key int int
  | LLEN key
  | ZADD key int member
  | ZADDNX key int member
  | ZREM key member
  | ZSCORE key member
  | ZRANGEBYSCORE key int int
  | ZCARD key
  | ZCOUNT key "int option" int
  | HGET key string
  | HSET key string string
  | HDEL key string
  | HINCRBY key string int
  | HLEN key
  | INCR key
  | GET key
  | SET key string
  | SETNX key string
  | BFADD key string

text \<open>
  What a client can observe: the elements of a list, the scores of a sorted set, the fields of a
  hash, the value of a string, and the items a Bloom filter answers yes for (an item that was
  added, or a false positive). A missing key is an empty container. Scores are integers: every
  score the program writes is a whole number of seconds far below \<open>2 ^ 53\<close>, where doubles are exact.
\<close>

record keyspace =
  lists :: "key \<Rightarrow> string list"
  zsets :: "key \<Rightarrow> (member \<rightharpoonup> int)"
  hashes :: "key \<Rightarrow> (string \<rightharpoonup> string)"
  strs :: "key \<rightharpoonup> string"
  filters :: "key \<Rightarrow> string set"

abbreviation put_list :: "key \<Rightarrow> string list \<Rightarrow> keyspace \<Rightarrow> keyspace" where
  "put_list k xs d \<equiv> d\<lparr>lists := (lists d)(k := xs)\<rparr>"

abbreviation put_score :: "key \<Rightarrow> member \<Rightarrow> int option \<Rightarrow> keyspace \<Rightarrow> keyspace" where
  "put_score k m v d \<equiv> d\<lparr>zsets := (zsets d)(k := (zsets d k)(m := v))\<rparr>"

abbreviation put_field :: "key \<Rightarrow> string \<Rightarrow> string option \<Rightarrow> keyspace \<Rightarrow> keyspace" where
  "put_field k f v d \<equiv> d\<lparr>hashes := (hashes d)(k := (hashes d k)(f := v))\<rparr>"

abbreviation put_str :: "key \<Rightarrow> string \<Rightarrow> keyspace \<Rightarrow> keyspace" where
  "put_str k v d \<equiv> d\<lparr>strs := (strs d)(k \<mapsto> v)\<rparr>"

section \<open>The documented behaviour of the commands\<close>

text \<open>A stored value read as an integer: the canonical decimal numeral of a 64-bit number.\<close>

definition redis_int :: "string \<Rightarrow> int option" where
  "redis_int v = (case parse_int v of
     None \<Rightarrow> None
   | Some i \<Rightarrow> if show_int i = v \<and> in_int64 i then Some i else None)"

definition counter :: "string option \<Rightarrow> int option" where
  "counter v = (case v of None \<Rightarrow> Some 0 | Some w \<Rightarrow> redis_int w)"

text \<open>Negative indices of LRANGE count from the end; out-of-range indices are clamped.\<close>

definition list_range :: "string list \<Rightarrow> int \<Rightarrow> int \<Rightarrow> string list" where
  "list_range xs a b = (let n = int (length xs);
      lo = (if a < 0 then max 0 (n + a) else a);
      hi = (if b < 0 then n + b else b)
    in take (nat (hi - lo + 1)) (drop (nat lo) xs))"

text \<open>A sorted set is ordered by score, then by member; LIMIT with a negative count means all.\<close>

definition ranked :: "(member \<rightharpoonup> int) \<Rightarrow> (int \<times> member) list" where
  "ranked z = sorted_list_of_set {(sc, m). z m = Some sc}"

definition due_members :: "(member \<rightharpoonup> int) \<Rightarrow> int \<Rightarrow> int \<Rightarrow> member list" where
  "due_members z mx lim =
     (let xs = map snd (filter (\<lambda>(sc, m). sc \<le> mx) (ranked z))
      in if lim < 0 then xs else take (nat lim) xs)"

definition score_count :: "(member \<rightharpoonup> int) \<Rightarrow> int option \<Rightarrow> int \<Rightarrow> nat" where
  "score_count z lo hi =
     length (filter (\<lambda>(sc, m). sc \<le> hi \<and> (case lo of None \<Rightarrow> True | Some l \<Rightarrow> l \<le> sc)) (ranked z))"

fun pop_side :: "side \<Rightarrow> string list \<Rightarrow> string \<times> string list" where
  "pop_side LEFT xs = (hd xs, tl xs)"
| "pop_side RIGHT xs = (last xs, butlast xs)"

fun push_side :: "side \<Rightarrow> string \<Rightarrow> string list \<Rightarrow> string list" where
  "push_side LEFT x xs = x # xs"
| "push_side RIGHT x xs = xs @ [x]"

text \<open>
  \<open>redis_doc c d v d'\<close>: on contents \<open>d\<close> the command \<open>c\<close> may answer \<open>v\<close> and leave \<open>d'\<close>. All commands
  but BF.ADD are functions of the contents; adding to a Bloom filter answers 1 exactly when the
  filter did not answer yes for the item before, and may turn further items into false positives.
\<close>

fun redis_doc :: "cmd \<Rightarrow> keyspace \<Rightarrow> reply \<Rightarrow> keyspace \<Rightarrow> bool" where
  "redis_doc (LMOVE a b x y) d v d' \<longleftrightarrow>
     (if lists d a = [] then v = RNil \<and> d' = d
      else (let (e, rest) = pop_side x (lists d a); d1 = put_list a rest d
            in v = RStr e \<and> d' = put_list b (push_side y e (lists d1 b)) d1))"
| "redis_doc (LPUSH k e) d v d' \<longleftrightarrow>
     v = RInt (int (length (lists d k)) + 1) \<and> d' = put_list k (e # lists d k) d"
| "redis_doc (LREM k n e) d v d' \<longleftrightarrow>
     v = RInt (int (length (lists d k)) - int (length ((remove1 e ^^ n) (lists d k)))) \<and>
     d' = put_list k ((remove1 e ^^ n) (lists d k)) d"
| "redis_doc (LRANGE k a b) d v d' \<longleftrightarrow> v = RArr (list_range (lists d k) a b) \<and> d' = d"
| "redis_doc (LLEN k) d v d' \<longleftrightarrow> v = RInt (int (length (lists d k))) \<and> d' = d"
| "redis_doc (ZADD k sc m) d v d' \<longleftrightarrow>
     v = RInt (if zsets d k m = None then 1 else 0) \<and> d' = put_score k m (Some sc) d"
| "redis_doc (ZADDNX k sc m) d v d' \<longleftrightarrow>
     (if zsets d k m = None then v = RInt 1 \<and> d' = put_score k m (Some sc) d
      else v = RInt 0 \<and> d' = d)"
| "redis_doc (ZREM k m) d v d' \<longleftrightarrow>
     v = RInt (if zsets d k m = None then 0 else 1) \<and> d' = put_score k m None d"
| "redis_doc (ZSCORE k m) d v d' \<longleftrightarrow>
     v = (case zsets d k m of None \<Rightarrow> RNil | Some sc \<Rightarrow> RStr (show_int sc)) \<and> d' = d"
| "redis_doc (ZRANGEBYSCORE k mx lim) d v d' \<longleftrightarrow> v = RArr (due_members (zsets d k) mx lim) \<and> d' = d"
| "redis_doc (ZCARD k) d v d' \<longleftrightarrow> v = RInt (int (card (dom (zsets d k)))) \<and> d' = d"
| "redis_doc (ZCOUNT k lo hi) d v d' \<longleftrightarrow> v = RInt (int (score_count (zsets d k) lo hi)) \<and> d' = d"
| "redis_doc (HGET k f) d v d' \<longleftrightarrow>
     v = (case hashes d k f of None \<Rightarrow> RNil | Some w \<Rightarrow> RStr w) \<and> d' = d"
| "redis_doc (HSET k f w) d v d' \<longleftrightarrow>
     v = RInt (if hashes d k f = None then 1 else 0) \<and> d' = put_field k f (Some w) d"
| "redis_doc (HDEL k f) d v d' \<longleftrightarrow>
     v = RInt (if hashes d k f = None then 0 else 1) \<and> d' = put_field k f None d"
| "redis_doc (HINCRBY k f n) d v d' \<longleftrightarrow>
     (\<exists>i. counter (hashes d k f) = Some i \<and> in_int64 (i + n) \<and>
          v = RInt (i + n) \<and> d' = put_field k f (Some (show_int (i + n))) d)"
| "redis_doc (HLEN k) d v d' \<longleftrightarrow> v = RInt (int (card (dom (hashes d k)))) \<and> d' = d"
| "redis_doc (INCR k) d v d' \<longleftrightarrow>
     (\<exists>i. counter (strs d k) = Some i \<and> in_int64 (i + 1) \<and>
          v = RInt (i + 1) \<and> d' = put_str k (show_int (i + 1)) d)"
| "redis_doc (GET k) d v d' \<longleftrightarrow> v = (case strs d k of None \<Rightarrow> RNil | Some w \<Rightarrow> RStr w) \<and> d' = d"
| "redis_doc (SET k w) d v d' \<longleftrightarrow> v = RStr ''OK'' \<and> d' = put_str k w d"
| "redis_doc (SETNX k w) d v d' \<longleftrightarrow>
     (if strs d k = None then v = RInt 1 \<and> d' = put_str k w d else v = RInt 0 \<and> d' = d)"
| "redis_doc (BFADD k x) d v d' \<longleftrightarrow>
     (if x \<in> filters d k then v = RInt 0 \<and> d' = d
      else v = RInt 1 \<and> (\<exists>P. insert x (filters d k) \<subseteq> P \<and>
                            d' = d\<lparr>filters := (filters d)(k := P)\<rparr>))"

text \<open>When a command's documented preconditions hold: counters are integers and stay in range.\<close>

fun redis_applicable :: "cmd \<Rightarrow> keyspace \<Rightarrow> bool" where
  "redis_applicable (HINCRBY k f n) d \<longleftrightarrow>
     (case counter (hashes d k f) of None \<Rightarrow> False | Some i \<Rightarrow> in_int64 (i + n))"
| "redis_applicable (INCR k) d \<longleftrightarrow>
     (case counter (strs d k) of None \<Rightarrow> False | Some i \<Rightarrow> in_int64 (i + 1))"
| "redis_applicable _ d \<longleftrightarrow> True"

section \<open>Scripts\<close>

datatype 'a script = Done 'a | Raise string | Call cmd "reply \<Rightarrow> 'a script"

primrec run :: "(cmd \<Rightarrow> 's \<Rightarrow> (string + reply) \<times> 's) \<Rightarrow> 'a script \<Rightarrow> 's \<Rightarrow> (string + 'a) \<times> 's" where
  "run call (Done a) s = (Inr a, s)"
| "run call (Raise e) s = (Inl e, s)"
| "run call (Call c k) s =
     (case call c s of (r, s') \<Rightarrow> (case r of Inl e \<Rightarrow> (Inl e, s') | Inr v \<Rightarrow> run call (k v) s'))"

text \<open>
  The weakest precondition over the documented behaviour. With faults (\<open>F\<close>) every command may
  fail and end the script there; without, each command must be applicable where it is issued.
\<close>

primrec wp :: "bool \<Rightarrow> 'a script \<Rightarrow> keyspace \<Rightarrow> (string + 'a \<Rightarrow> keyspace \<Rightarrow> bool) \<Rightarrow> bool" where
  "wp F (Done a) d Q \<longleftrightarrow> Q (Inr a) d"
| "wp F (Raise e) d Q \<longleftrightarrow> Q (Inl e) d"
| "wp F (Call c k) d Q \<longleftrightarrow>
     (if F then \<forall>e. Q (Inl e) d else redis_applicable c d) \<and>
     (\<forall>v d'. redis_doc c d v d' \<longrightarrow> wp F (k v) d' Q)"

lemma wp_mono:
  assumes "wp F sc d Q" and "\<And>r d'. Q r d' \<Longrightarrow> Q' r d'"
  shows "wp F sc d Q'"
  using assms(1) by (induction sc arbitrary: d) (auto simp: assms(2))

lemma wp_conj: "wp F sc d (\<lambda>r d'. P r d' \<and> Q r d') \<longleftrightarrow> wp F sc d P \<and> wp F sc d Q"
  by (induction sc arbitrary: d) auto

lemma wp_conjI:
  assumes "wp F sc d P" "wp F sc d Q"
  shows "wp F sc d (\<lambda>r d'. P r d' \<and> Q r d')"
  using assms by (simp add: wp_conj)

locale redis_server =
  fixes call :: "cmd \<Rightarrow> 's \<Rightarrow> (string + reply) \<times> 's"
    and data :: "'s \<Rightarrow> keyspace"
  assumes call_reply: "call c s = (Inr v, s') \<Longrightarrow> redis_doc c (data s) v (data s')"
    and call_error: "call c s = (Inl e, s') \<Longrightarrow> data s' = data s"
    and finite_zset: "finite (dom (zsets (data s) k))"
    and finite_hash: "finite (dom (hashes (data s) k))"
begin

lemma run_wp:
  assumes "wp True sc (data s) Q" and "run call sc s = (r, s')"
  shows "Q r (data s')"
  using assms
proof (induction sc arbitrary: s)
  case (Call c k)
  obtain x s1 where c: "call c s = (x, s1)" by fastforce
  show ?case
  proof (cases x)
    case (Inl e)
    with Call.prems c call_error [of c s e s1] show ?thesis by auto
  next
    case (Inr v)
    with c have "redis_doc c (data s) v (data s1)" by (simp add: call_reply)
    with Call.prems(1) have "wp True (k v) (data s1) Q" by simp
    with Call.prems(2) c Inr Call.IH [of "k v" s1] show ?thesis by auto
  qed
qed auto

end

locale redis_reliable = redis_server +
  assumes call_ok: "redis_applicable c (data s) \<Longrightarrow> \<exists>v s'. call c s = (Inr v, s')"
begin

lemma run_wp_total:
  assumes "wp False sc (data s) Q"
  shows "Q (fst (run call sc s)) (data (snd (run call sc s)))"
  using assms
proof (induction sc arbitrary: s)
  case (Call c k)
  then obtain v s1 where c: "call c s = (Inr v, s1)"
    using call_ok [of c s] by auto
  then have "redis_doc c (data s) v (data s1)" by (rule call_reply)
  with Call.prems have "wp False (k v) (data s1) Q" by simp
  with c Call.IH [of "k v" s1] show ?case by auto
qed auto

end

section \<open>The commands as script steps\<close>

text \<open>
  Each command with the reply read at the type the scripts expect; the rest of the script is its
  continuation. A reply of another shape raises, as a Lua type error would.
\<close>

fun int_reply :: "(int \<Rightarrow> 'a script) \<Rightarrow> reply \<Rightarrow> 'a script" where
  "int_reply f (RInt n) = f n"
| "int_reply f _ = Raise ''ERR unexpected reply''"

fun opt_reply :: "(string option \<Rightarrow> 'a script) \<Rightarrow> reply \<Rightarrow> 'a script" where
  "opt_reply f RNil = f None"
| "opt_reply f (RStr v) = f (Some v)"
| "opt_reply f _ = Raise ''ERR unexpected reply''"

fun arr_reply :: "(string list \<Rightarrow> 'a script) \<Rightarrow> reply \<Rightarrow> 'a script" where
  "arr_reply f (RArr xs) = f xs"
| "arr_reply f _ = Raise ''ERR unexpected reply''"

fun score_reply :: "(int option \<Rightarrow> 'a script) \<Rightarrow> reply \<Rightarrow> 'a script" where
  "score_reply f RNil = f None"
| "score_reply f (RStr v) =
     (case parse_int v of None \<Rightarrow> Raise ''ERR unexpected reply'' | Some n \<Rightarrow> f (Some n))"
| "score_reply f _ = Raise ''ERR unexpected reply''"

definition lmove_rl :: "key \<Rightarrow> key \<Rightarrow> (string option \<Rightarrow> 'a script) \<Rightarrow> 'a script" where
  "lmove_rl a b f = Call (LMOVE a b RIGHT LEFT) (opt_reply f)"

definition lpush :: "key \<Rightarrow> string \<Rightarrow> 'a script \<Rightarrow> 'a script" where
  "lpush k e f = Call (LPUSH k e) (\<lambda>_. f)"

definition lrem1 :: "key \<Rightarrow> string \<Rightarrow> 'a script \<Rightarrow> 'a script" where
  "lrem1 k e f = Call (LREM k 1 e) (\<lambda>_. f)"

definition lrange :: "key \<Rightarrow> int \<Rightarrow> int \<Rightarrow> (string list \<Rightarrow> 'a script) \<Rightarrow> 'a script" where
  "lrange k a b f = Call (LRANGE k a b) (arr_reply f)"

definition zadd :: "key \<Rightarrow> int \<Rightarrow> member \<Rightarrow> 'a script \<Rightarrow> 'a script" where
  "zadd k sc m f = Call (ZADD k sc m) (\<lambda>_. f)"

definition zrem :: "key \<Rightarrow> member \<Rightarrow> (int \<Rightarrow> 'a script) \<Rightarrow> 'a script" where
  "zrem k m f = Call (ZREM k m) (int_reply f)"

definition zscore :: "key \<Rightarrow> member \<Rightarrow> (int option \<Rightarrow> 'a script) \<Rightarrow> 'a script" where
  "zscore k m f = Call (ZSCORE k m) (score_reply f)"

definition zrangebyscore :: "key \<Rightarrow> int \<Rightarrow> int \<Rightarrow> (string list \<Rightarrow> 'a script) \<Rightarrow> 'a script" where
  "zrangebyscore k mx lim f = Call (ZRANGEBYSCORE k mx lim) (arr_reply f)"

definition hget :: "key \<Rightarrow> string \<Rightarrow> (string option \<Rightarrow> 'a script) \<Rightarrow> 'a script" where
  "hget k f g = Call (HGET k f) (opt_reply g)"

definition hset :: "key \<Rightarrow> string \<Rightarrow> string \<Rightarrow> 'a script \<Rightarrow> 'a script" where
  "hset k f w g = Call (HSET k f w) (\<lambda>_. g)"

definition hdel :: "key \<Rightarrow> string \<Rightarrow> 'a script \<Rightarrow> 'a script" where
  "hdel k f g = Call (HDEL k f) (\<lambda>_. g)"

definition hincrby :: "key \<Rightarrow> string \<Rightarrow> int \<Rightarrow> (int \<Rightarrow> 'a script) \<Rightarrow> 'a script" where
  "hincrby k f n g = Call (HINCRBY k f n) (int_reply g)"

definition incr :: "key \<Rightarrow> (int \<Rightarrow> 'a script) \<Rightarrow> 'a script" where
  "incr k f = Call (INCR k) (int_reply f)"

definition bfadd :: "key \<Rightarrow> string \<Rightarrow> (int \<Rightarrow> 'a script) \<Rightarrow> 'a script" where
  "bfadd k x f = Call (BFADD k x) (int_reply f)"

section \<open>Weakest preconditions of the steps\<close>

abbreviation fault :: "bool \<Rightarrow> keyspace \<Rightarrow> (string + 'a \<Rightarrow> keyspace \<Rightarrow> bool) \<Rightarrow> bool" where
  "fault F d Q \<equiv> F \<longrightarrow> (\<forall>e. Q (Inl e) d)"

lemma wp_lmove_rl [simp]:
  "wp F (lmove_rl a b f) d Q \<longleftrightarrow> fault F d Q \<and>
     (if lists d a = [] then wp F (f None) d Q
      else wp F (f (Some (last (lists d a))))
             (put_list b (last (lists d a) # (if b = a then butlast (lists d a) else lists d b))
               (put_list a (butlast (lists d a)) d)) Q)"
  by (simp add: lmove_rl_def Let_def)

lemma wp_lpush [simp]:
  "wp F (lpush k e f) d Q \<longleftrightarrow> fault F d Q \<and> wp F f (put_list k (e # lists d k) d) Q"
  by (simp add: lpush_def)

lemma wp_lrem1 [simp]:
  "wp F (lrem1 k e f) d Q \<longleftrightarrow> fault F d Q \<and> wp F f (put_list k (remove1 e (lists d k)) d) Q"
  by (simp add: lrem1_def)

lemma wp_lrange [simp]:
  "wp F (lrange k a b f) d Q \<longleftrightarrow> fault F d Q \<and> wp F (f (list_range (lists d k) a b)) d Q"
  by (simp add: lrange_def)

lemma wp_zadd [simp]:
  "wp F (zadd k sc m f) d Q \<longleftrightarrow> fault F d Q \<and> wp F f (put_score k m (Some sc) d) Q"
  by (simp add: zadd_def)

lemma wp_zrem [simp]:
  "wp F (zrem k m f) d Q \<longleftrightarrow> fault F d Q \<and>
     wp F (f (if zsets d k m = None then 0 else 1)) (put_score k m None d) Q"
  by (simp add: zrem_def)

lemma wp_zscore [simp]:
  "wp F (zscore k m f) d Q \<longleftrightarrow> fault F d Q \<and> wp F (f (zsets d k m)) d Q"
  by (cases "zsets d k m") (simp_all add: zscore_def)

lemma wp_zrangebyscore [simp]:
  "wp F (zrangebyscore k mx lim f) d Q \<longleftrightarrow>
     fault F d Q \<and> wp F (f (due_members (zsets d k) mx lim)) d Q"
  by (simp add: zrangebyscore_def)

lemma wp_hget [simp]:
  "wp F (hget k x f) d Q \<longleftrightarrow> fault F d Q \<and> wp F (f (hashes d k x)) d Q"
  by (cases "hashes d k x") (simp_all add: hget_def)

lemma wp_hset [simp]:
  "wp F (hset k x w f) d Q \<longleftrightarrow> fault F d Q \<and> wp F f (put_field k x (Some w) d) Q"
  by (simp add: hset_def)

lemma wp_hdel [simp]:
  "wp F (hdel k x f) d Q \<longleftrightarrow> fault F d Q \<and> wp F f (put_field k x None d) Q"
  by (simp add: hdel_def)

lemma wp_hincrby [simp]:
  "wp F (hincrby k x n f) d Q \<longleftrightarrow> fault F d Q \<and>
     (F \<or> redis_applicable (HINCRBY k x n) d) \<and>
     (\<forall>i. counter (hashes d k x) = Some i \<longrightarrow> in_int64 (i + n) \<longrightarrow>
        wp F (f (i + n)) (put_field k x (Some (show_int (i + n))) d) Q)"
  by (auto simp: hincrby_def)

lemma wp_incr [simp]:
  "wp F (incr k f) d Q \<longleftrightarrow> fault F d Q \<and> (F \<or> redis_applicable (INCR k) d) \<and>
     (\<forall>i. counter (strs d k) = Some i \<longrightarrow> in_int64 (i + 1) \<longrightarrow>
        wp F (f (i + 1)) (put_str k (show_int (i + 1)) d) Q)"
  by (auto simp: incr_def)

lemma wp_bfadd [simp]:
  "wp F (bfadd k x f) d Q \<longleftrightarrow> fault F d Q \<and>
     (if x \<in> filters d k then wp F (f 0) d Q
      else \<forall>P. insert x (filters d k) \<subseteq> P \<longrightarrow>
             wp F (f 1) (d\<lparr>filters := (filters d)(k := P)\<rparr>) Q)"
  by (auto simp: bfadd_def)

section \<open>Facts on counters and ranked sets\<close>

lemma redis_int_show_int [simp]: "in_int64 i \<Longrightarrow> redis_int (show_int i) = Some i"
  by (simp add: redis_int_def)

lemma redis_int_Some: "redis_int v = Some i \<longleftrightarrow> v = show_int i \<and> in_int64 i"
  by (auto simp: redis_int_def split: option.splits if_splits)

lemma counter_None [simp]: "counter None = Some 0"
  by (simp add: counter_def)

lemma counter_show_int [simp]: "in_int64 i \<Longrightarrow> counter (Some (show_int i)) = Some i"
  by (simp add: counter_def)

lemma counter_Some_int64: "counter v = Some i \<Longrightarrow> in_int64 i"
  by (auto simp: counter_def redis_int_Some in_int64_def split: option.splits)

lemma finite_scored:
  assumes "finite (dom z)"
  shows "finite {(sc, m). z m = Some sc}"
proof -
  have "{(sc, m). z m = Some sc} \<subseteq> (\<lambda>m. (the (z m), m)) ` dom z" by force
  then show ?thesis using assms by (meson finite_imageI finite_subset)
qed

lemma set_ranked [simp]: "finite (dom z) \<Longrightarrow> set (ranked z) = {(sc, m). z m = Some sc}"
  by (simp add: ranked_def finite_scored)

lemma distinct_ranked: "distinct (map snd (filter P (ranked z)))"
proof -
  have d: "distinct (ranked z)" by (simp add: ranked_def)
  show ?thesis
  proof (cases "finite {(sc, m). z m = Some sc}")
    case True
    then have "inj_on snd (set (filter P (ranked z)))"
      by (auto simp: ranked_def inj_on_def)
    with d show ?thesis by (simp add: distinct_map)
  qed (simp add: ranked_def)
qed

lemma distinct_due_members [simp]: "distinct (due_members z mx lim)"
  by (simp add: due_members_def Let_def distinct_ranked)

lemma set_due_members:
  assumes "finite (dom z)"
  shows "set (due_members z mx lim) \<subseteq> {m. \<exists>sc. z m = Some sc \<and> sc \<le> mx}"
proof -
  let ?xs = "map snd (filter (\<lambda>(sc, m). sc \<le> mx) (ranked z))"
  have "set (due_members z mx lim) \<subseteq> set ?xs"
    unfolding due_members_def Let_def by (simp only: set_take_subset subset_refl split: if_split) simp
  also have "set ?xs \<subseteq> {m. \<exists>sc. z m = Some sc \<and> sc \<le> mx}"
    using assms by auto
  finally show ?thesis .
qed

lemma set_due_members_all:
  assumes "finite (dom z)" and "lim < 0 \<or> card {m. \<exists>sc. z m = Some sc \<and> sc \<le> mx} \<le> nat lim"
  shows "set (due_members z mx lim) = {m. \<exists>sc. z m = Some sc \<and> sc \<le> mx}"
proof -
  let ?xs = "map snd (filter (\<lambda>(sc, m). sc \<le> mx) (ranked z))"
  have s: "set ?xs = {m. \<exists>sc. z m = Some sc \<and> sc \<le> mx}"
    using assms(1) by force
  have "length ?xs = card (set ?xs)"
    by (rule distinct_card [symmetric, OF distinct_ranked])
  with assms(2) s have "lim < 0 \<or> length ?xs \<le> nat lim" by simp
  then have "due_members z mx lim = ?xs"
    by (auto simp: due_members_def Let_def)
  with s show ?thesis by simp
qed

end
