(* ===== verification/Frontier_Scripts.thy ===== *)
theory Frontier_Scripts
  imports Redis_Interface
begin

text \<open>
  The keyspace, the types and the twelve Lua scripts of \<open>src/internal/storage/frontier.go\<close>, each
  script a program over Redis commands in the order the Lua text issues them. \<open>KEYS[i]\<close> are the keys
  the Go methods pass; numeric \<open>ARGV[i]\<close> are integers. Lua numbers are integers here: all values
  the scripts compute are whole and far below \<open>2 ^ 53\<close>, where doubles are exact, but for the TTL of
  \<open>luaCompleteListing\<close> (see \<open>listing_ttl\<close>).
\<close>

section \<open>Keyspace\<close>

definition keyJobSeq :: key where "keyJobSeq = ''crawler:job:seq''"
definition keyReady :: key where "keyReady = ''crawler:ready''"
definition keyProcessing :: key where "keyProcessing = ''crawler:processing''"
definition keyLease :: key where "keyLease = ''crawler:lease''"
definition keyDelayed :: key where "keyDelayed = ''crawler:delayed''"
definition keyDead :: key where "keyDead = ''crawler:dead''"
definition keyAttempts :: key where "keyAttempts = ''crawler:attempts''"
definition keyStrikes :: key where "keyStrikes = ''crawler:strikes''"
definition keyListingNext :: key where "keyListingNext = ''crawler:listing:next''"
definition keyListingBarren :: key where "keyListingBarren = ''crawler:listing:barren''"
definition bloomKey :: key where "bloomKey = ''crawler:bloom''"

lemma keys_distinct [simp, frontier_keys]:
  "keyReady \<noteq> keyProcessing" "keyProcessing \<noteq> keyReady"
  "keyLease \<noteq> keyDelayed" "keyDelayed \<noteq> keyLease"
  "keyLease \<noteq> keyListingNext" "keyListingNext \<noteq> keyLease"
  "keyDelayed \<noteq> keyListingNext" "keyListingNext \<noteq> keyDelayed"
  "keyDead \<noteq> keyAttempts" "keyAttempts \<noteq> keyDead"
  "keyDead \<noteq> keyStrikes" "keyStrikes \<noteq> keyDead"
  "keyDead \<noteq> keyListingBarren" "keyListingBarren \<noteq> keyDead"
  "keyAttempts \<noteq> keyStrikes" "keyStrikes \<noteq> keyAttempts"
  "keyAttempts \<noteq> keyListingBarren" "keyListingBarren \<noteq> keyAttempts"
  "keyStrikes \<noteq> keyListingBarren" "keyListingBarren \<noteq> keyStrikes"
  by (simp_all add: keyReady_def keyProcessing_def keyLease_def keyDelayed_def keyListingNext_def
      keyDead_def keyAttempts_def keyStrikes_def keyListingBarren_def)

definition PendingScore :: int where
  "PendingScore = 253402300799"

abbreviation ready :: "keyspace \<Rightarrow> member list" where "ready d \<equiv> lists d keyReady"
abbreviation processing :: "keyspace \<Rightarrow> member list" where "processing d \<equiv> lists d keyProcessing"
abbreviation lease :: "keyspace \<Rightarrow> (member \<rightharpoonup> int)" where "lease d \<equiv> zsets d keyLease"
abbreviation delayed :: "keyspace \<Rightarrow> (member \<rightharpoonup> int)" where "delayed d \<equiv> zsets d keyDelayed"
abbreviation listing_next :: "keyspace \<Rightarrow> (url \<rightharpoonup> int)" where "listing_next d \<equiv> zsets d keyListingNext"
abbreviation dead :: "keyspace \<Rightarrow> (url \<rightharpoonup> string)" where "dead d \<equiv> hashes d keyDead"
abbreviation attempts :: "keyspace \<Rightarrow> (url \<rightharpoonup> string)" where "attempts d \<equiv> hashes d keyAttempts"
abbreviation strikes :: "keyspace \<Rightarrow> (url \<rightharpoonup> string)" where "strikes d \<equiv> hashes d keyStrikes"
abbreviation barren :: "keyspace \<Rightarrow> (url \<rightharpoonup> string)" where "barren d \<equiv> hashes d keyListingBarren"
abbreviation bloom :: "keyspace \<Rightarrow> url set" where "bloom d \<equiv> filters d bloomKey"

section \<open>Lua\<close>

text \<open>
  A number concatenated to a string is printed with the format \<open>%.14g\<close>: exact up to 14 digits, in
  scientific notation with 14 significant digits beyond. Job identifiers are minted this way.
\<close>

definition id_limit :: int where
  "id_limit = 10 ^ 14"

definition strip_zeros :: "string \<Rightarrow> string" where
  "strip_zeros s = rev (dropWhile (\<lambda>c. c = CHR ''0'') (rev s))"

fun with_point :: "string \<Rightarrow> string" where
  "with_point [] = []"
| "with_point [c] = [c]"
| "with_point (c # cs) = c # CHR ''.'' # cs"

definition scientific14 :: "nat \<Rightarrow> string" where
  "scientific14 n = (let e = length (show_nat n) - 1; p = 10 ^ (e - 13);
      q = n div p; r = n mod p;
      q' = (if 2 * r > p \<or> 2 * r = p \<and> odd q then q + 1 else q);
      (m, x) = (if q' = 10 ^ 14 then (10 ^ 13, e + 1) else (q', e));
      ds = strip_zeros (show_nat m)
    in with_point ds @ ''e+'' @ show_nat x)"

definition lua_tostring :: "int \<Rightarrow> string" where
  "lua_tostring n = (if \<bar>n\<bar> < id_limit then show_int n
     else if n < 0 then CHR ''-'' # scientific14 (nat (- n)) else scientific14 (nat n))"

text \<open>\<open>tonumber\<close> on the decimal numerals the program stores; nil for anything else.\<close>

definition tonumber :: "string \<Rightarrow> int option" where
  "tonumber s = parse_int s"

text \<open>\<open>string.sub(d, string.find(d, '|', 1, true) + 1)\<close>: fails when there is no bar.\<close>

definition after_bar :: "string \<Rightarrow> string option" where
  "after_bar s = map_option snd (cut CHR ''|'' s)"

definition until_of :: "string \<Rightarrow> int option" where
  "until_of s = Option.bind (after_bar s) tonumber"

definition lua_type_error :: string where
  "lua_type_error = ''ERR user_script: attempt to operate on a nil value''"

text \<open>\<open>redis.call('INCR', job:seq) .. '|' .. url\<close>\<close>

definition mint :: "url \<Rightarrow> (member \<Rightarrow> 'a script) \<Rightarrow> 'a script" where
  "mint u f = incr keyJobSeq (\<lambda>n. f (lua_tostring n @ ''|'' @ u))"

section \<open>The scripts\<close>

definition luaLease :: "int \<Rightarrow> int \<Rightarrow> member option script" where
  "luaLease now leaseTimeout =
     lmove_rl keyReady keyProcessing (\<lambda>item.
     case item of
       None \<Rightarrow> Done None
     | Some item \<Rightarrow> zadd keyLease (now + leaseTimeout) item (Done (Some item)))"

definition luaAdmitVideo :: "url \<Rightarrow> int \<Rightarrow> int script" where
  "luaAdmitVideo url now =
     (let admit =
        mint url (\<lambda>item.
        lpush keyReady item (
        bfadd bloomKey url (\<lambda>added.
        if added = 0 then lrem1 keyReady item (Done 0)
        else Done 1)))
      in hget keyDead url (\<lambda>d.
         case d of
           None \<Rightarrow> admit
         | Some d \<Rightarrow> (case until_of d of
             None \<Rightarrow> Raise lua_type_error
           | Some until_ts \<Rightarrow>
               if until_ts = 0 \<or> until_ts > now then Done 0
               else hdel keyDead url admit)))"

definition luaAdmitListing :: "url \<Rightarrow> int \<Rightarrow> int \<Rightarrow> int script" where
  "luaAdmitListing url now pending =
     (let admit =
        zscore keyListingNext url (\<lambda>prev.
        if (case prev of None \<Rightarrow> False | Some p \<Rightarrow> p > now) then Done 0
        else mint url (\<lambda>item.
          lpush keyReady item (
          zadd keyListingNext pending url (
          if prev \<noteq> None then Done 2 else Done 1))))
      in hget keyDead url (\<lambda>d.
         case d of
           None \<Rightarrow> admit
         | Some d \<Rightarrow> (case until_of d of
             None \<Rightarrow> Raise lua_type_error
           | Some until_ts \<Rightarrow>
               if until_ts = 0 \<or> until_ts > now then Done 0
               else hdel keyDead url admit)))"

primrec schedule_due :: "int \<Rightarrow> int \<Rightarrow> url list \<Rightarrow> int \<Rightarrow> int script" where
  "schedule_due now pending [] n = Done n"
| "schedule_due now pending (url # due) n =
     (let push =
        mint url (\<lambda>item.
        lpush keyReady item (
        zadd keyListingNext pending url (
        schedule_due now pending due (n + 1))))
      in hget keyDead url (\<lambda>d.
         case d of
           None \<Rightarrow> push
         | Some d \<Rightarrow> (case until_of d of
             None \<Rightarrow> Raise lua_type_error
           | Some until_ts \<Rightarrow>
               if until_ts = 0 then zrem keyListingNext url (\<lambda>_. schedule_due now pending due n)
               else if until_ts > now
                 then zadd keyListingNext until_ts url (schedule_due now pending due n)
               else hdel keyDead url push)))"

definition luaListingScheduler :: "int \<Rightarrow> int \<Rightarrow> int \<Rightarrow> int script" where
  "luaListingScheduler now limit pending =
     zrangebyscore keyListingNext now limit (\<lambda>due. schedule_due now pending due 0)"

definition luaAck :: "member \<Rightarrow> url \<Rightarrow> string script" where
  "luaAck item url =
     zrem keyLease item (\<lambda>n.
     if n = 0 then Done ''STALE''
     else
       lrem1 keyProcessing item (
       hdel keyAttempts url (
       hdel keyStrikes url (
       Done ''OK''))))"

text \<open>
  The TTL that \<open>luaCompleteListing\<close> computes in doubles. The barren counter is never negative (\<open>values_inv\<close>
  below), so \<open>2 ^ barren\<close> is whole, and its product with the base is exact until it overflows. For a
  positive base the overflow is an infinity, which the cap replaces as it does the integer. For the base
  0 it is \<open>0 * inf\<close> from \<open>barren = 1024\<close> on, not a number: it passes the cap, and \<open>ZADD\<close> refuses the score (None).
  For a negative base, a configuration error that makes every listing due at once, the integer stands for
  the double it rounds to, minus infinity in the end.
\<close>

definition lua_pow2_overflow :: int where
  "lua_pow2_overflow = 1024"

definition listing_ttl :: "int \<Rightarrow> int \<Rightarrow> int \<Rightarrow> int option" where
  "listing_ttl baseTTL maxTTL b =
     (if baseTTL = 0 \<and> b \<ge> lua_pow2_overflow then None
      else let ttl = baseTTL * 2 ^ nat b in Some (if ttl > maxTTL then maxTTL else ttl))"

definition zadd_float_error :: string where
  "zadd_float_error = ''ERR value is not a valid float''"

definition luaCompleteListing :: "member \<Rightarrow> url \<Rightarrow> int \<Rightarrow> int \<Rightarrow> int \<Rightarrow> int \<Rightarrow> string script" where
  "luaCompleteListing item url newChildren now baseTTL maxTTL =
     (let finish = (\<lambda>b.
        case listing_ttl baseTTL maxTTL b of
          None \<Rightarrow> Raise zadd_float_error
        | Some ttl \<Rightarrow>
            zadd keyListingNext (now + ttl) url (
            hdel keyDead url (
            lrem1 keyProcessing item (
            hdel keyAttempts url (
            hdel keyStrikes url (
            Done ''OK''))))))
      in zrem keyLease item (\<lambda>n.
         if n = 0 then Done ''STALE''
         else if newChildren > 0 then hset keyListingBarren url ''0'' (finish 0)
         else hincrby keyListingBarren url 1 finish))"

definition luaNack :: "member \<Rightarrow> url \<Rightarrow> string script" where
  "luaNack item url =
     zrem keyLease item (\<lambda>n.
     if n = 0 then Done ''STALE''
     else mint url (\<lambda>next.
       lpush keyReady next (
       lrem1 keyProcessing item (
       Done ''OK''))))"

text \<open>\<open>ARGV\<close> is indexed from 1; an index outside it is nil.\<close>

definition argv_at :: "string list \<Rightarrow> int \<Rightarrow> string option" where
  "argv_at argv i = (if 1 \<le> i \<and> i \<le> int (length argv) then Some (argv ! nat (i - 1)) else None)"

text \<open>The delay \<open>tonumber(ARGV[7 + i])\<close>, where \<open>i\<close> is the attempt clamped to the length of the ladder.\<close>

definition backoff_arg :: "string list \<Rightarrow> int \<Rightarrow> int option" where
  "backoff_arg argv atts =
     (let n = int (length argv) - 7; i = (if atts > n then n else atts)
      in Option.bind (argv_at argv (7 + i)) tonumber)"

definition luaFail :: "string list \<Rightarrow> member \<Rightarrow> url \<Rightarrow> string \<Rightarrow> int \<Rightarrow> int \<Rightarrow> string \<Rightarrow> int \<Rightarrow> string script" where
  "luaFail argv item url incStrike maxStrikes now reason deadUntil =
     (let kill =
        hset keyDead url (reason @ ''|'' @ show_int deadUntil) (
        lrem1 keyProcessing item (
        hdel keyAttempts url (
        hdel keyStrikes url (
        Done ''DEAD''))));
      delay = (\<lambda>atts.
           mint url (\<lambda>nextItem.
           case backoff_arg argv atts of
             None \<Rightarrow> Raise lua_type_error
           | Some secs \<Rightarrow>
               zadd keyDelayed (now + secs) nextItem (
               lrem1 keyProcessing item (
               Done ''DELAYED''))))
      in zrem keyLease item (\<lambda>n.
         if n = 0 then Done ''STALE''
         else hincrby keyAttempts url 1 (\<lambda>atts.
           hget keyStrikes url (\<lambda>_.
           if incStrike = ''1'' then
             hincrby keyStrikes url 1 (\<lambda>st.
             if st \<ge> maxStrikes then
               (if deadUntil > 0 then zadd keyListingNext deadUntil url kill else kill)
             else delay atts)
           else delay atts))))"

definition luaTerminal :: "member \<Rightarrow> url \<Rightarrow> string \<Rightarrow> int \<Rightarrow> string script" where
  "luaTerminal item url reason until =
     (let finish =
        hset keyDead url (reason @ ''|'' @ show_int until) (
        lrem1 keyProcessing item (
        hdel keyAttempts url (
        hdel keyStrikes url (
        Done ''OK''))))
      in zrem keyLease item (\<lambda>n.
         if n = 0 then Done ''STALE''
         else if until > 0 then zadd keyListingNext until url finish
         else finish))"

primrec promote_due :: "member list \<Rightarrow> int \<Rightarrow> int script" where
  "promote_due [] n = Done n"
| "promote_due (item # due) n =
     (case after_bar item of
        None \<Rightarrow> Raise lua_type_error
      | Some url \<Rightarrow>
          mint url (\<lambda>next.
          lpush keyReady next (
          zrem keyDelayed item (\<lambda>_.
          promote_due due n))))"

definition luaPromote :: "int \<Rightarrow> int \<Rightarrow> int script" where
  "luaPromote now limit =
     zrangebyscore keyDelayed now limit (\<lambda>due. promote_due due (int (length due)))"

primrec reap_expired :: "member list \<Rightarrow> int \<Rightarrow> int script" where
  "reap_expired [] n = Done n"
| "reap_expired (item # items) n =
     zrem keyLease item (\<lambda>removed.
     if removed = 1 then
       (case after_bar item of
          None \<Rightarrow> Raise lua_type_error
        | Some url \<Rightarrow>
            mint url (\<lambda>next.
            lpush keyReady next (
            lrem1 keyProcessing item (
            reap_expired items (n + 1)))))
     else reap_expired items n)"

definition luaReap :: "int \<Rightarrow> int \<Rightarrow> int script" where
  "luaReap now limit = zrangebyscore keyLease now limit (\<lambda>expired. reap_expired expired 0)"

primrec sweep_items :: "member list \<Rightarrow> int \<Rightarrow> int script" where
  "sweep_items [] n = Done n"
| "sweep_items (item # items) n =
     zscore keyLease item (\<lambda>sc.
     if sc = None then
       (case after_bar item of
          None \<Rightarrow> Raise lua_type_error
        | Some url \<Rightarrow>
            mint url (\<lambda>next.
            lpush keyReady next (
            lrem1 keyProcessing item (
            sweep_items items (n + 1)))))
     else sweep_items items n)"

definition luaSweep :: "int \<Rightarrow> int script" where
  "luaSweep limit = lrange keyProcessing (- limit) (- 1) (\<lambda>items. sweep_items items 0)"

lemmas frontier_script_defs [script_defs] =
  luaLease_def luaAdmitVideo_def luaAdmitListing_def luaListingScheduler_def luaAck_def
  luaCompleteListing_def luaNack_def luaFail_def luaTerminal_def luaPromote_def luaReap_def
  luaSweep_def

section \<open>Minting\<close>

lemma lua_tostring_small [simp]: "0 \<le> n \<Longrightarrow> n < id_limit \<Longrightarrow> lua_tostring n = show_int n"
  by (simp add: lua_tostring_def)

lemma set_strip_zeros: "set (strip_zeros s) \<subseteq> set s"
  by (metis set_dropWhileD set_rev strip_zeros_def subsetI)

lemma set_with_point: "set (with_point s) \<subseteq> insert CHR ''.'' (set s)"
  by (cases s rule: with_point.cases) auto

lemma scientific14_no_bar: "CHR ''|'' \<notin> set (scientific14 n)"
proof -
  have "CHR ''|'' \<notin> set (with_point (strip_zeros (show_nat m)))" for m
    using set_strip_zeros [of "show_nat m"] set_with_point [of "strip_zeros (show_nat m)"] by auto
  then show ?thesis
    unfolding scientific14_def Let_def by (simp split: prod.split)
qed

lemma lua_tostring_no_bar [simp]: "CHR ''|'' \<notin> set (lua_tostring n)"
  by (simp add: lua_tostring_def scientific14_no_bar)

lemma after_bar_minted [simp]: "after_bar (lua_tostring n @ CHR ''|'' # u) = Some u"
  by (simp add: after_bar_def)

lemma wp_mint [simp]:
  "wp F (mint u f) d Q \<longleftrightarrow> fault F d Q \<and> (F \<or> redis_applicable (INCR keyJobSeq) d) \<and>
     (\<forall>i. counter (strs d keyJobSeq) = Some i \<longrightarrow> in_int64 (i + 1) \<longrightarrow>
        wp F (f (lua_tostring (i + 1) @ ''|'' @ u)) (put_str keyJobSeq (show_int (i + 1)) d) Q)"
  by (auto simp: mint_def)

lemma after_bar_member [simp]: "after_bar (show_int n @ CHR ''|'' # u) = Some u"
  by (simp add: after_bar_def)

lemma until_of_entry [simp]:
  "CHR ''|'' \<notin> set r \<Longrightarrow> until_of (r @ CHR ''|'' # show_int t) = Some t"
  by (simp add: until_of_def after_bar_def tonumber_def)

lemma member_inj [simp]:
  "show_int n @ CHR ''|'' # u = show_int n' @ CHR ''|'' # u' \<longleftrightarrow> n = n' \<and> u = u'"
proof
  assume "show_int n @ CHR ''|'' # u = show_int n' @ CHR ''|'' # u'"
  then have "cut CHR ''|'' (show_int n @ CHR ''|'' # u) = cut CHR ''|'' (show_int n' @ CHR ''|'' # u')"
    by (rule arg_cong)
  then show "n = n' \<and> u = u'" by simp
qed simp

end
