(* ===== verification/Frontier_Invariant.thy ===== *)
theory Frontier_Invariant
  imports Frontier_Scripts
begin

text \<open>
  What every script keeps true of the frontier, also when a command fails in the middle:
  \<open>jobs_inv\<close> says that every queued member carries an identifier that was minted, that no member
  is queued twice, and that only a member in processing is leased; \<open>values_inv\<close> that the values the
  scripts read back can be read. \<open>requeues\<close> and its kin say that no URL is lost on the way.
\<close>

section \<open>The job lists\<close>

definition minted :: "int \<Rightarrow> member \<Rightarrow> bool" where
  "minted N m \<longleftrightarrow> (\<exists>n u. 1 \<le> n \<and> n \<le> N \<and> m = show_int n @ ''|'' @ u)"

text \<open>Identifiers are exact numerals up to \<open>id_limit\<close>; nothing is claimed beyond it.\<close>

definition jobs_inv :: "int \<Rightarrow> member list \<Rightarrow> member list \<Rightarrow> (member \<rightharpoonup> int) \<Rightarrow> (member \<rightharpoonup> int) \<Rightarrow> bool" where
  "jobs_inv N rdy prc le de \<longleftrightarrow> 0 \<le> N \<and> (N < id_limit \<longrightarrow>
     (\<forall>m \<in> set rdy \<union> set prc \<union> dom de. minted N m) \<and> distinct (rdy @ prc) \<and>
     (set rdy \<union> set prc) \<inter> dom de = {} \<and> dom le \<subseteq> set prc)"

definition frontier_inv :: "keyspace \<Rightarrow> bool" where
  "frontier_inv d \<longleftrightarrow> (\<exists>N. counter (strs d keyJobSeq) = Some N \<and>
     jobs_inv N (ready d) (processing d) (lease d) (delayed d))"

lemma minted_mono: "minted N m \<Longrightarrow> N \<le> N' \<Longrightarrow> minted N' m"
  by (force simp: minted_def)

lemma minted_later [intro]: "minted N m \<Longrightarrow> minted (N + 1) m"
  by (erule minted_mono) simp

lemma minted_fresh: "minted N m \<Longrightarrow> 0 \<le> N \<Longrightarrow> m \<noteq> show_int (N + 1) @ CHR ''|'' # u"
  by (auto simp: minted_def)

lemma minted_next: "0 \<le> N \<Longrightarrow> minted (N + 1) (show_int (N + 1) @ CHR ''|'' # u)"
  by (force simp: minted_def)

lemma jobs_inv_seq: "jobs_inv N rdy prc le de \<Longrightarrow> jobs_inv (N + 1) rdy prc le de"
  by (auto simp: jobs_inv_def ball_Un intro!: minted_later intro: domI)

lemma jobs_inv_push:
  assumes "jobs_inv N rdy prc le de"
  shows "jobs_inv (N + 1) ((lua_tostring (N + 1) @ CHR ''|'' # u) # rdy) prc le de"
proof (cases "N + 1 < id_limit")
  case True
  with assms show ?thesis
    by (auto simp: jobs_inv_def ball_Un minted_next dest: minted_fresh intro!: minted_later intro: domI)
qed (use assms in \<open>simp add: jobs_inv_def\<close>)

lemma jobs_inv_delay:
  assumes "jobs_inv N rdy prc le de"
  shows "jobs_inv (N + 1) rdy prc le (de(lua_tostring (N + 1) @ CHR ''|'' # u \<mapsto> t))"
proof (cases "N + 1 < id_limit")
  case True
  with assms show ?thesis
    by (auto simp: jobs_inv_def ball_Un minted_next dest: minted_fresh intro!: minted_later intro: domI)
qed (use assms in \<open>simp add: jobs_inv_def\<close>)

lemma jobs_inv_unlease: "jobs_inv N rdy prc le de \<Longrightarrow> jobs_inv N rdy prc (le(m := None)) de"
  by (auto simp: jobs_inv_def)

lemma jobs_inv_undelay: "jobs_inv N rdy prc le de \<Longrightarrow> jobs_inv N rdy prc le (de(m := None))"
  by (auto simp: jobs_inv_def)

lemma jobs_inv_drop:
  "jobs_inv N rdy prc le de \<Longrightarrow> le m = None \<Longrightarrow> jobs_inv N rdy (remove1 m prc) le de"
  by (auto simp: jobs_inv_def dest: notin_set_remove1)

lemma jobs_inv_drop_leased:
  "jobs_inv N rdy prc le de \<Longrightarrow> jobs_inv N rdy (remove1 m prc) (le(m := None)) de"
  by (rule jobs_inv_drop) (simp_all add: jobs_inv_unlease)

lemma jobs_inv_unready: "jobs_inv N (m # rdy) prc le de \<Longrightarrow> jobs_inv N rdy prc le de"
  by (auto simp: jobs_inv_def)

lemma jobs_inv_move:
  assumes "jobs_inv N rdy prc le de" "rdy \<noteq> []"
  shows "jobs_inv N (butlast rdy) (last rdy # prc) le de"
proof -
  have "rdy = butlast rdy @ [last rdy]" using assms(2) by simp
  then obtain xs x where "rdy = xs @ [x]" by blast
  with assms show ?thesis by (auto simp: jobs_inv_def)
qed

lemma jobs_inv_lease:
  "jobs_inv N rdy prc le de \<Longrightarrow> m \<in> set prc \<Longrightarrow> jobs_inv N rdy prc (le(m \<mapsto> t)) de"
  by (auto simp: jobs_inv_def)

lemma jobs_inv_lease_move:
  "jobs_inv N rdy prc le de \<Longrightarrow> rdy \<noteq> [] \<Longrightarrow>
     jobs_inv N (butlast rdy) (last rdy # prc) (le(last rdy \<mapsto> t)) de"
  by (rule jobs_inv_lease) (simp_all add: jobs_inv_move)

lemmas jobs_inv_intros =
  jobs_inv_push jobs_inv_delay jobs_inv_unlease jobs_inv_undelay jobs_inv_drop
  jobs_inv_drop_leased jobs_inv_move jobs_inv_lease_move jobs_inv_seq

text \<open>Counting one further than a counter keeps it a counter.\<close>

lemma frontier_inv_put_str:
  assumes "jobs_inv (i + 1) (ready d) (processing d) (lease d) (delayed d)" "in_int64 (i + 1)"
    "strs d keyJobSeq = Some (show_int (i + 1))"
  shows "frontier_inv d"
  using assms by (auto simp: frontier_inv_def)

lemma frontier_inv_counter:
  assumes "frontier_inv d" "counter (strs d keyJobSeq) = Some i"
  shows "jobs_inv i (ready d) (processing d) (lease d) (delayed d)"
  using assms by (auto simp: frontier_inv_def)

section \<open>Straight-line scripts\<close>

abbreviation keeps_inv :: "'a script \<Rightarrow> keyspace \<Rightarrow> bool" where
  "keeps_inv sc d \<equiv> wp True sc d (\<lambda>r d'. frontier_inv d')"

lemma luaLease_inv: "frontier_inv d \<Longrightarrow> keeps_inv (luaLease now t) d"
  by (auto simp: luaLease_def frontier_inv_def intro: jobs_inv_intros)

lemma luaAdmitVideo_inv: "frontier_inv d \<Longrightarrow> keeps_inv (luaAdmitVideo u now) d"
  by (auto simp: luaAdmitVideo_def frontier_inv_def Let_def intro: jobs_inv_intros
      split: option.splits)

lemma luaAdmitListing_inv: "frontier_inv d \<Longrightarrow> keeps_inv (luaAdmitListing u now p) d"
  by (auto simp: luaAdmitListing_def frontier_inv_def Let_def intro: jobs_inv_intros
      split: option.splits)

lemma luaAck_inv: "frontier_inv d \<Longrightarrow> keeps_inv (luaAck m u) d"
  by (auto simp: luaAck_def frontier_inv_def intro: jobs_inv_intros)

lemma luaCompleteListing_inv: "frontier_inv d \<Longrightarrow> keeps_inv (luaCompleteListing m u n now b mx) d"
  by (auto simp: luaCompleteListing_def frontier_inv_def Let_def intro: jobs_inv_intros split: option.splits)

lemma luaNack_inv: "frontier_inv d \<Longrightarrow> keeps_inv (luaNack m u) d"
  by (auto simp: luaNack_def frontier_inv_def) (blast intro: jobs_inv_intros)+

lemma luaFail_inv: "frontier_inv d \<Longrightarrow> keeps_inv (luaFail argv m u inc mx now r t) d"
  by (auto simp: luaFail_def frontier_inv_def Let_def split: option.splits)
    (blast intro: jobs_inv_intros)+

lemma luaTerminal_inv: "frontier_inv d \<Longrightarrow> keeps_inv (luaTerminal m u r t) d"
  by (auto simp: luaTerminal_def frontier_inv_def Let_def intro: jobs_inv_intros)

section \<open>Loops\<close>

lemma schedule_due_inv: "frontier_inv d \<Longrightarrow> keeps_inv (schedule_due now p us n) d"
proof (induction us arbitrary: d n)
  case (Cons u us)
  from Cons.prems show ?case
    by (auto simp: Let_def intro!: Cons.IH split: option.splits)
      (auto simp: frontier_inv_def intro: jobs_inv_intros)
qed simp

lemma luaListingScheduler_inv: "frontier_inv d \<Longrightarrow> keeps_inv (luaListingScheduler now lim p) d"
  by (simp add: luaListingScheduler_def schedule_due_inv)

lemma promote_due_inv: "frontier_inv d \<Longrightarrow> keeps_inv (promote_due ms n) d"
proof (induction ms arbitrary: d n)
  case (Cons m ms)
  from Cons.prems show ?case
    by (auto intro!: Cons.IH split: option.splits)
      (auto simp: frontier_inv_def intro: jobs_inv_intros)
qed simp

lemma luaPromote_inv: "frontier_inv d \<Longrightarrow> keeps_inv (luaPromote now lim) d"
  by (simp add: luaPromote_def promote_due_inv)

lemma reap_expired_inv: "frontier_inv d \<Longrightarrow> keeps_inv (reap_expired ms n) d"
proof (induction ms arbitrary: d n)
  case (Cons m ms)
  from Cons.prems show ?case
    by (auto intro!: Cons.IH split: option.splits)
      (auto simp: frontier_inv_def intro: jobs_inv_intros)
qed simp

lemma luaReap_inv: "frontier_inv d \<Longrightarrow> keeps_inv (luaReap now lim) d"
  by (simp add: luaReap_def reap_expired_inv)

lemma sweep_items_inv: "frontier_inv d \<Longrightarrow> keeps_inv (sweep_items ms n) d"
proof (induction ms arbitrary: d n)
  case (Cons m ms)
  from Cons.prems show ?case
    by (auto intro!: Cons.IH split: option.splits)
      (auto simp: frontier_inv_def intro: jobs_inv_intros)
qed simp

lemma luaSweep_inv: "frontier_inv d \<Longrightarrow> keeps_inv (luaSweep lim) d"
  by (simp add: luaSweep_def sweep_items_inv)

section \<open>Fencing\<close>

text \<open>
  A member that was handed out never becomes ready again, since every requeue mints a new
  identifier; if it also has no lease (\<open>f\<close>) it never gets one. No script undoes either.
\<close>

definition fence_inv :: "bool \<Rightarrow> member \<Rightarrow> int \<Rightarrow> member list \<Rightarrow> (member \<rightharpoonup> int) \<Rightarrow> bool" where
  "fence_inv f m N rdy le \<longleftrightarrow> 0 \<le> N \<and> (N < id_limit \<longrightarrow>
     minted N m \<and> m \<notin> set rdy \<and> (f \<longrightarrow> le m = None))"

definition fenced :: "bool \<Rightarrow> member \<Rightarrow> keyspace \<Rightarrow> bool" where
  "fenced f m d \<longleftrightarrow> (\<exists>N. counter (strs d keyJobSeq) = Some N \<and> fence_inv f m N (ready d) (lease d))"

abbreviation keeps_fence :: "bool \<Rightarrow> member \<Rightarrow> 'a script \<Rightarrow> keyspace \<Rightarrow> bool" where
  "keeps_fence f m sc d \<equiv> wp True sc d (\<lambda>r d'. fenced f m d')"

lemma fence_seq: "fence_inv f m N rdy le \<Longrightarrow> fence_inv f m (N + 1) rdy le"
  by (auto simp: fence_inv_def)

lemma fence_push:
  "fence_inv f m N rdy le \<Longrightarrow> fence_inv f m (N + 1) ((lua_tostring (N + 1) @ CHR ''|'' # u) # rdy) le"
  using minted_fresh [of N m u] by (auto simp: fence_inv_def)

lemma fence_unlease: "fence_inv f m N rdy le \<Longrightarrow> fence_inv f m N rdy (le(x := None))"
  by (auto simp: fence_inv_def)

lemma fence_move: "fence_inv f m N rdy le \<Longrightarrow> fence_inv f m N (butlast rdy) le"
  by (auto simp: fence_inv_def dest: in_set_butlastD)

lemma fence_lease_move:
  "fence_inv f m N rdy le \<Longrightarrow> rdy \<noteq> [] \<Longrightarrow> fence_inv f m N (butlast rdy) (le(last rdy \<mapsto> t))"
  using last_in_set [of rdy] by (auto simp: fence_inv_def dest: in_set_butlastD)

lemmas fence_intros = fence_push fence_unlease fence_move fence_lease_move fence_seq

lemma luaLease_fence: "fenced f m d \<Longrightarrow> keeps_fence f m (luaLease now t) d"
  by (auto simp: luaLease_def fenced_def intro: fence_intros)

lemma luaAdmitVideo_fence: "fenced f m d \<Longrightarrow> keeps_fence f m (luaAdmitVideo u now) d"
  by (auto simp: luaAdmitVideo_def fenced_def Let_def intro: fence_intros split: option.splits)

lemma luaAdmitListing_fence: "fenced f m d \<Longrightarrow> keeps_fence f m (luaAdmitListing u now p) d"
  by (auto simp: luaAdmitListing_def fenced_def Let_def intro: fence_intros split: option.splits)

lemma luaAck_fence: "fenced f m d \<Longrightarrow> keeps_fence f m (luaAck x u) d"
  by (auto simp: luaAck_def fenced_def intro: fence_intros)

lemma luaCompleteListing_fence:
  "fenced f m d \<Longrightarrow> keeps_fence f m (luaCompleteListing x u n now b mx) d"
  by (auto simp: luaCompleteListing_def fenced_def Let_def intro: fence_intros split: option.splits)

lemma luaNack_fence: "fenced f m d \<Longrightarrow> keeps_fence f m (luaNack x u) d"
  by (auto simp: luaNack_def fenced_def) (blast intro: fence_intros)+

lemma luaFail_fence: "fenced f m d \<Longrightarrow> keeps_fence f m (luaFail argv x u inc mx now r t) d"
  by (auto simp: luaFail_def fenced_def Let_def split: option.splits) (blast intro: fence_intros)+

lemma luaTerminal_fence: "fenced f m d \<Longrightarrow> keeps_fence f m (luaTerminal x u r t) d"
  by (auto simp: luaTerminal_def fenced_def Let_def intro: fence_intros)

lemma schedule_due_fence: "fenced f m d \<Longrightarrow> keeps_fence f m (schedule_due now p us n) d"
proof (induction us arbitrary: d n)
  case (Cons u us)
  from Cons.prems show ?case
    by (auto simp: Let_def intro!: Cons.IH split: option.splits)
      (auto simp: fenced_def intro: fence_intros)
qed simp

lemma promote_due_fence: "fenced f m d \<Longrightarrow> keeps_fence f m (promote_due ms n) d"
proof (induction ms arbitrary: d n)
  case (Cons x ms)
  from Cons.prems show ?case
    by (auto intro!: Cons.IH split: option.splits) (auto simp: fenced_def intro: fence_intros)
qed simp

lemma reap_expired_fence: "fenced f m d \<Longrightarrow> keeps_fence f m (reap_expired ms n) d"
proof (induction ms arbitrary: d n)
  case (Cons x ms)
  from Cons.prems show ?case
    by (auto intro!: Cons.IH split: option.splits) (auto simp: fenced_def intro: fence_intros)
qed simp

lemma sweep_items_fence: "fenced f m d \<Longrightarrow> keeps_fence f m (sweep_items ms n) d"
proof (induction ms arbitrary: d n)
  case (Cons x ms)
  from Cons.prems show ?case
    by (auto intro!: Cons.IH split: option.splits) (auto simp: fenced_def intro: fence_intros)
qed simp

lemma reconciler_fence:
  assumes "fenced f m d"
  shows "keeps_fence f m (luaListingScheduler now lim p) d" "keeps_fence f m (luaPromote now lim) d"
    "keeps_fence f m (luaReap now lim) d" "keeps_fence f m (luaSweep lim) d"
  using assms
  by (simp_all add: luaListingScheduler_def luaPromote_def luaReap_def luaSweep_def
      schedule_due_fence promote_due_fence reap_expired_fence sweep_items_fence)

section \<open>No URL is lost\<close>

text \<open>
  A URL is live while some queued member carries it. Each script writes the destination of a job
  before it removes the source, so a script that stops at any of its commands leaves the URL live
  (possibly twice), dead-listed or rescheduled, never forgotten.
\<close>

definition carries :: "url \<Rightarrow> member list \<Rightarrow> member list \<Rightarrow> (member \<rightharpoonup> int) \<Rightarrow> bool" where
  "carries u rdy prc de \<longleftrightarrow> (\<exists>m. (m \<in> set rdy \<or> m \<in> set prc \<or> de m \<noteq> None) \<and> after_bar m = Some u)"

definition live :: "keyspace \<Rightarrow> url \<Rightarrow> bool" where
  "live d u \<longleftrightarrow> carries u (ready d) (processing d) (delayed d)"

lemma carries_push: "carries u rdy prc de \<Longrightarrow> carries u (x # rdy) prc de"
  by (auto simp: carries_def)

lemma carries_move: "carries u rdy prc de \<Longrightarrow> rdy \<noteq> [] \<Longrightarrow> carries u (butlast rdy) (last rdy # prc) de"
  unfolding carries_def by (metis set_butlast_last insert_iff list.set_intros set_ConsD)

lemma carries_delay: "carries u rdy prc de \<Longrightarrow> carries u rdy prc (de(x \<mapsto> t))"
  by (auto simp: carries_def)

lemma carries_requeue:
  "carries u rdy prc de \<Longrightarrow> after_bar m = after_bar x \<Longrightarrow> carries u (x # rdy) (remove1 m prc) de"
  unfolding carries_def by (metis in_set_remove1 list.set_intros)

lemma carries_backoff:
  "carries u rdy prc de \<Longrightarrow> after_bar m = after_bar x \<Longrightarrow> carries u rdy (remove1 m prc) (de(x \<mapsto> t))"
  unfolding carries_def by (metis fun_upd_apply in_set_remove1 option.distinct(1))

lemma carries_promote:
  "carries u rdy prc de \<Longrightarrow> after_bar m = after_bar x \<Longrightarrow> carries u (x # rdy) prc (de(m := None))"
  unfolding carries_def by (metis fun_upd_apply list.set_intros)

lemma carries_drop:
  "carries u rdy prc de \<Longrightarrow> after_bar m = Some v \<Longrightarrow> u \<noteq> v \<Longrightarrow> carries u rdy (remove1 m prc) de"
  unfolding carries_def by (metis in_set_remove1 option.inject)

lemmas carries_intros =
  carries_push carries_move carries_delay carries_requeue carries_backoff carries_promote

abbreviation keeps_live :: "url \<Rightarrow> 'a script \<Rightarrow> keyspace \<Rightarrow> bool" where
  "keeps_live u sc d \<equiv> wp True sc d (\<lambda>r d'. live d' u)"

lemma luaLease_live: "live d u \<Longrightarrow> keeps_live u (luaLease now t) d"
  by (auto simp: luaLease_def live_def intro: carries_intros)

lemma luaAdmitVideo_live: "live d u \<Longrightarrow> keeps_live u (luaAdmitVideo v now) d"
  by (auto simp: luaAdmitVideo_def live_def Let_def intro: carries_intros split: option.splits)

lemma luaAdmitListing_live: "live d u \<Longrightarrow> keeps_live u (luaAdmitListing v now p) d"
  by (auto simp: luaAdmitListing_def live_def Let_def intro: carries_intros split: option.splits)

lemma luaNack_live:
  "live d u \<Longrightarrow> after_bar m = Some v \<Longrightarrow> keeps_live u (luaNack m v) d"
  by (auto simp: luaNack_def live_def intro: carries_intros)

lemma schedule_due_live: "live d u \<Longrightarrow> keeps_live u (schedule_due now p us n) d"
proof (induction us arbitrary: d n)
  case (Cons v us)
  from Cons.prems show ?case
    by (auto simp: Let_def intro!: Cons.IH split: option.splits)
      (auto simp: live_def intro: carries_intros)
qed simp

lemma promote_due_live: "live d u \<Longrightarrow> keeps_live u (promote_due ms n) d"
proof (induction ms arbitrary: d n)
  case (Cons x ms)
  from Cons.prems show ?case
    by (auto intro!: Cons.IH split: option.splits) (auto simp: live_def intro: carries_intros)
qed simp

lemma reap_expired_live: "live d u \<Longrightarrow> keeps_live u (reap_expired ms n) d"
proof (induction ms arbitrary: d n)
  case (Cons x ms)
  from Cons.prems show ?case
    by (auto intro!: Cons.IH split: option.splits) (auto simp: live_def intro: carries_intros)
qed simp

lemma sweep_items_live: "live d u \<Longrightarrow> keeps_live u (sweep_items ms n) d"
proof (induction ms arbitrary: d n)
  case (Cons x ms)
  from Cons.prems show ?case
    by (auto intro!: Cons.IH split: option.splits) (auto simp: live_def intro: carries_intros)
qed simp

lemma reconciler_live:
  assumes "live d u"
  shows "keeps_live u (luaListingScheduler now lim p) d" "keeps_live u (luaPromote now lim) d"
    "keeps_live u (luaReap now lim) d" "keeps_live u (luaSweep lim) d"
  using assms
  by (simp_all add: luaListingScheduler_def luaPromote_def luaReap_def luaSweep_def
      schedule_due_live promote_due_live reap_expired_live sweep_items_live)

lemma luaFail_live:
  assumes "live d u" "after_bar m = Some v"
  shows "wp True (luaFail argv m v inc mx now r t) d (\<lambda>_ d'. live d' u \<or> u = v \<and> dead d' v \<noteq> None)"
  using assms
  by (auto simp: luaFail_def live_def Let_def intro: carries_intros split: option.splits)
    (auto dest: carries_drop)

lemma luaTerminal_live:
  assumes "live d u" "after_bar m = Some v"
  shows "wp True (luaTerminal m v r t) d (\<lambda>_ d'. live d' u \<or> u = v \<and> dead d' v \<noteq> None)"
  using assms by (auto simp: luaTerminal_def live_def Let_def dest: carries_drop)

lemma luaCompleteListing_live:
  assumes "live d u" "after_bar m = Some v"
  shows "wp True (luaCompleteListing m v n now b mx) d
    (\<lambda>_ d'. live d' u \<or> u = v \<and> listing_next d' v \<noteq> None)"
  using assms by (auto simp: luaCompleteListing_def live_def Let_def dest: carries_drop split: option.splits)

lemma luaAck_live:
  assumes "live d u" "after_bar m = Some v"
  shows "wp True (luaAck m v) d (\<lambda>_ d'. live d' u \<or> u = v)"
  using assms by (auto simp: luaAck_def live_def dest: carries_drop)

section \<open>Stored values can be read back\<close>

definition dead_entry :: "string \<Rightarrow> bool" where
  "dead_entry v \<longleftrightarrow>
     (\<exists>r t. v = r @ ''|'' @ show_int t \<and> CHR ''|'' \<notin> set r \<and> 0 \<le> t \<and> t < PendingScore)"

definition count_entry :: "int \<Rightarrow> string \<Rightarrow> bool" where
  "count_entry lo v \<longleftrightarrow> (\<exists>n. v = show_int n \<and> lo \<le> n \<and> in_int64 n)"

definition values_inv :: "keyspace \<Rightarrow> bool" where
  "values_inv d \<longleftrightarrow> (\<forall>u v. dead d u = Some v \<longrightarrow> dead_entry v) \<and>
     (\<forall>u v. attempts d u = Some v \<longrightarrow> count_entry 1 v) \<and>
     (\<forall>u v. strikes d u = Some v \<longrightarrow> count_entry 1 v) \<and>
     (\<forall>u v. barren d u = Some v \<longrightarrow> count_entry 0 v)"

text \<open>What a caller passes as the reason and expiry of a dead entry.\<close>

definition dead_args :: "string \<Rightarrow> int \<Rightarrow> bool" where
  "dead_args r t \<longleftrightarrow> CHR ''|'' \<notin> set r \<and> 0 \<le> t \<and> t < PendingScore"

lemma dead_entryI: "dead_args r t \<Longrightarrow> dead_entry (r @ CHR ''|'' # show_int t)"
  by (auto simp: dead_entry_def dead_args_def)

lemma dead_entryD: "dead_entry v \<Longrightarrow> \<exists>t. until_of v = Some t \<and> 0 \<le> t \<and> t < PendingScore"
  by (auto simp: dead_entry_def)

lemma count_entry_next:
  assumes "\<forall>v. h u = Some v \<longrightarrow> count_entry lo v" "counter (h u) = Some i" "in_int64 (i + 1)" "lo \<le> 1"
  shows "count_entry lo (show_int (i + 1))"
  using assms by (cases "h u") (auto simp: count_entry_def)

lemma count_entry_zero: "count_entry 0 ''0''"
  by (simp add: count_entry_def in_int64_def) (rule exI [of _ 0], simp add: show_int_def)

abbreviation keeps_values :: "'a script \<Rightarrow> keyspace \<Rightarrow> bool" where
  "keeps_values sc d \<equiv> wp True sc d (\<lambda>r d'. values_inv d')"

lemma luaLease_values: "values_inv d \<Longrightarrow> keeps_values (luaLease now t) d"
  by (auto simp: luaLease_def values_inv_def)

lemma luaAdmitVideo_values: "values_inv d \<Longrightarrow> keeps_values (luaAdmitVideo u now) d"
  by (auto simp: luaAdmitVideo_def values_inv_def Let_def split: option.splits)

lemma luaAdmitListing_values: "values_inv d \<Longrightarrow> keeps_values (luaAdmitListing u now p) d"
  by (auto simp: luaAdmitListing_def values_inv_def Let_def split: option.splits)

lemma luaAck_values: "values_inv d \<Longrightarrow> keeps_values (luaAck m u) d"
  by (auto simp: luaAck_def values_inv_def)

lemma luaCompleteListing_values:
  "values_inv d \<Longrightarrow> keeps_values (luaCompleteListing m u n now b mx) d"
  by (auto simp: luaCompleteListing_def values_inv_def Let_def count_entry_zero
      intro: count_entry_next [of "barren d" u] split: option.splits)

lemma luaNack_values: "values_inv d \<Longrightarrow> keeps_values (luaNack m u) d"
  by (auto simp: luaNack_def values_inv_def)

lemma luaFail_values:
  "values_inv d \<Longrightarrow> dead_args r t \<Longrightarrow> keeps_values (luaFail argv m u inc mx now r t) d"
  by (auto simp: luaFail_def values_inv_def Let_def dead_entryI split: option.splits
      intro: count_entry_next [of "attempts d" u] count_entry_next [of "strikes d" u])

lemma luaTerminal_values:
  "values_inv d \<Longrightarrow> dead_args r t \<Longrightarrow> keeps_values (luaTerminal m u r t) d"
  by (auto simp: luaTerminal_def values_inv_def Let_def dead_entryI)

lemma schedule_due_values: "values_inv d \<Longrightarrow> keeps_values (schedule_due now p us n) d"
proof (induction us arbitrary: d n)
  case (Cons v us)
  from Cons.prems show ?case
    by (auto simp: Let_def intro!: Cons.IH split: option.splits) (auto simp: values_inv_def)
qed simp

lemma promote_due_values: "values_inv d \<Longrightarrow> keeps_values (promote_due ms n) d"
proof (induction ms arbitrary: d n)
  case (Cons x ms)
  from Cons.prems show ?case
    by (auto intro!: Cons.IH split: option.splits) (auto simp: values_inv_def)
qed simp

lemma reap_expired_values: "values_inv d \<Longrightarrow> keeps_values (reap_expired ms n) d"
proof (induction ms arbitrary: d n)
  case (Cons x ms)
  from Cons.prems show ?case
    by (auto intro!: Cons.IH split: option.splits) (auto simp: values_inv_def)
qed simp

lemma sweep_items_values: "values_inv d \<Longrightarrow> keeps_values (sweep_items ms n) d"
proof (induction ms arbitrary: d n)
  case (Cons x ms)
  from Cons.prems show ?case
    by (auto intro!: Cons.IH split: option.splits) (auto simp: values_inv_def)
qed simp

lemma reconciler_values:
  assumes "values_inv d"
  shows "keeps_values (luaListingScheduler now lim p) d" "keeps_values (luaPromote now lim) d"
    "keeps_values (luaReap now lim) d" "keeps_values (luaSweep lim) d"
  using assms
  by (simp_all add: luaListingScheduler_def luaPromote_def luaReap_def luaSweep_def
      schedule_due_values promote_due_values reap_expired_values sweep_items_values)

section \<open>A pending listing has a job\<close>

text \<open>
  A listing marked with \<open>PendingScore\<close> is skipped by the scheduler and by admission, so it must
  have a queued job that will release it. Acknowledging a job, or ending it without an expiry,
  removes the job and leaves the mark: those two are for URLs that carry no mark.
\<close>

definition pending_ok :: "keyspace \<Rightarrow> url \<Rightarrow> bool" where
  "pending_ok d u \<longleftrightarrow> (listing_next d u = Some PendingScore \<longrightarrow> live d u)"

abbreviation keeps_pending :: "url \<Rightarrow> 'a script \<Rightarrow> keyspace \<Rightarrow> bool" where
  "keeps_pending u sc d \<equiv> wp True sc d (\<lambda>r d'. pending_ok d' u)"

lemma carries_new: "carries u ((lua_tostring n @ CHR ''|'' # u) # rdy) prc de"
  unfolding carries_def by (rule exI [of _ "lua_tostring n @ CHR ''|'' # u"]) simp

lemma luaLease_pending: "pending_ok d u \<Longrightarrow> keeps_pending u (luaLease now t) d"
  by (auto simp: luaLease_def pending_ok_def live_def intro: carries_intros)

lemma luaAdmitVideo_pending: "pending_ok d u \<Longrightarrow> keeps_pending u (luaAdmitVideo v now) d"
  by (auto simp: luaAdmitVideo_def pending_ok_def live_def Let_def intro: carries_intros
      split: option.splits)

lemma luaAdmitListing_pending: "pending_ok d u \<Longrightarrow> keeps_pending u (luaAdmitListing v now p) d"
  by (auto simp: luaAdmitListing_def pending_ok_def live_def Let_def intro: carries_intros carries_new
      split: option.splits)

lemma luaNack_pending:
  "pending_ok d u \<Longrightarrow> after_bar m = Some v \<Longrightarrow> keeps_pending u (luaNack m v) d"
  by (auto simp: luaNack_def pending_ok_def live_def intro: carries_intros)

lemma luaAck_pending:
  "pending_ok d u \<Longrightarrow> after_bar m = Some v \<Longrightarrow> listing_next d v \<noteq> Some PendingScore \<Longrightarrow>
     keeps_pending u (luaAck m v) d"
  by (auto simp: luaAck_def pending_ok_def live_def dest: carries_drop)

lemma luaCompleteListing_pending:
  assumes "pending_ok d u" "after_bar m = Some v"
    and "\<And>k ttl. listing_ttl b mx k = Some ttl \<Longrightarrow> now + ttl \<noteq> PendingScore"
  shows "keeps_pending u (luaCompleteListing m v n now b mx) d"
  using assms
  by (auto simp: luaCompleteListing_def pending_ok_def live_def Let_def dest: carries_drop split: option.splits)

lemma luaTerminal_pending:
  assumes "pending_ok d u" "after_bar m = Some v" "t < PendingScore"
    and "t > 0 \<or> listing_next d v \<noteq> Some PendingScore"
  shows "keeps_pending u (luaTerminal m v r t) d"
  using assms by (auto simp: luaTerminal_def pending_ok_def live_def Let_def dest: carries_drop)

lemma luaFail_pending:
  assumes "pending_ok d u" "after_bar m = Some v" "t < PendingScore"
    and "t > 0 \<or> listing_next d v \<noteq> Some PendingScore"
  shows "keeps_pending u (luaFail argv m v inc mx now r t) d"
  using assms
  by (auto simp: luaFail_def pending_ok_def live_def Let_def intro: carries_intros
      split: option.splits dest: carries_drop)

lemma schedule_due_pending:
  "values_inv d \<Longrightarrow> pending_ok d u \<Longrightarrow> keeps_pending u (schedule_due now p us n) d"
proof (induction us arbitrary: d n)
  case (Cons v us)
  have dead: "until_of w = Some t \<Longrightarrow> dead d v = Some w \<Longrightarrow> t < PendingScore" for w t
    using Cons.prems(1) dead_entryD [of w] by (auto simp: values_inv_def)
  from Cons.prems show ?case
    by (auto simp: Let_def intro!: Cons.IH split: option.splits)
      (auto simp: pending_ok_def live_def values_inv_def intro: carries_intros carries_new dest: dead)
qed simp

lemma promote_due_pending: "pending_ok d u \<Longrightarrow> keeps_pending u (promote_due ms n) d"
proof (induction ms arbitrary: d n)
  case (Cons x ms)
  from Cons.prems show ?case
    by (auto intro!: Cons.IH split: option.splits)
      (auto simp: pending_ok_def live_def intro: carries_intros)
qed simp

lemma reap_expired_pending: "pending_ok d u \<Longrightarrow> keeps_pending u (reap_expired ms n) d"
proof (induction ms arbitrary: d n)
  case (Cons x ms)
  from Cons.prems show ?case
    by (auto intro!: Cons.IH split: option.splits)
      (auto simp: pending_ok_def live_def intro: carries_intros)
qed simp

lemma sweep_items_pending: "pending_ok d u \<Longrightarrow> keeps_pending u (sweep_items ms n) d"
proof (induction ms arbitrary: d n)
  case (Cons x ms)
  from Cons.prems show ?case
    by (auto intro!: Cons.IH split: option.splits)
      (auto simp: pending_ok_def live_def intro: carries_intros)
qed simp

lemma reconciler_pending:
  assumes "pending_ok d u"
  shows "values_inv d \<Longrightarrow> keeps_pending u (luaListingScheduler now lim p) d"
    "keeps_pending u (luaPromote now lim) d"
    "keeps_pending u (luaReap now lim) d" "keeps_pending u (luaSweep lim) d"
  using assms
  by (simp_all add: luaListingScheduler_def luaPromote_def luaReap_def luaSweep_def
      schedule_due_pending promote_due_pending reap_expired_pending sweep_items_pending)

end
