(* ===== verification/Redis_Reference.thy ===== *)
theory Redis_Reference
  imports Redis_Interface "HOL-Library.AList"
begin

text \<open>
  A concrete server that satisfies the laws of \<open>Redis_Interface\<close>: association lists for sorted
  sets and hashes, lists for lists and filters. \<open>store_call\<close> never fails on an applicable command
  (it instantiates \<open>redis_reliable\<close>); \<open>flaky_call\<close> consults a schedule of injected failures before
  each command (it instantiates \<open>redis_server\<close>). The witnesses of the properties run on these two.
\<close>

record rstore =
  r_lists :: "key \<Rightarrow> string list"
  r_zsets :: "key \<Rightarrow> (member \<times> int) list"
  r_hashes :: "key \<Rightarrow> (string \<times> string) list"
  r_strs :: "key \<rightharpoonup> string"
  r_filters :: "key \<Rightarrow> string list"

definition empty_store :: rstore where
  "empty_store = \<lparr>r_lists = (\<lambda>_. []), r_zsets = (\<lambda>_. []), r_hashes = (\<lambda>_. []),
     r_strs = Map.empty, r_filters = (\<lambda>_. [])\<rparr>"

definition store_data :: "rstore \<Rightarrow> keyspace" where
  "store_data s = \<lparr>lists = r_lists s, zsets = (\<lambda>k. map_of (r_zsets s k)),
     hashes = (\<lambda>k. map_of (r_hashes s k)), strs = r_strs s, filters = (\<lambda>k. set (r_filters s k))\<rparr>"

definition zsort :: "(member \<times> int) list \<Rightarrow> (int \<times> member) list" where
  "zsort al = sort (map (\<lambda>m. (the (map_of al m), m)) (remdups (map fst al)))"

lemma zsort_ranked: "zsort al = ranked (map_of al)"
proof -
  let ?xs = "map (\<lambda>m. (the (map_of al m), m)) (remdups (map fst al))"
  have "set ?xs = {(sc, m). map_of al m = Some sc}"
  proof -
    have "m \<in> fst ` set al \<longleftrightarrow> (\<exists>sc. map_of al m = Some sc)" for m
      by (metis domIff dom_map_of_conv_image_fst not_None_eq)
    then show ?thesis by force
  qed
  moreover have "distinct ?xs"
    by (auto simp: distinct_map inj_on_def)
  ultimately show ?thesis
    unfolding ranked_def zsort_def
    using sorted_list_of_set_sort_remdups [of ?xs] distinct_remdups_id [of ?xs] by simp
qed

definition put_l :: "key \<Rightarrow> string list \<Rightarrow> rstore \<Rightarrow> rstore" where
  "put_l k xs s = s\<lparr>r_lists := (r_lists s)(k := xs)\<rparr>"

definition put_z :: "key \<Rightarrow> (member \<times> int) list \<Rightarrow> rstore \<Rightarrow> rstore" where
  "put_z k xs s = s\<lparr>r_zsets := (r_zsets s)(k := xs)\<rparr>"

definition put_h :: "key \<Rightarrow> (string \<times> string) list \<Rightarrow> rstore \<Rightarrow> rstore" where
  "put_h k xs s = s\<lparr>r_hashes := (r_hashes s)(k := xs)\<rparr>"

fun store_call :: "cmd \<Rightarrow> rstore \<Rightarrow> (string + reply) \<times> rstore" where
  "store_call (LMOVE a b x y) s =
     (if r_lists s a = [] then (Inr RNil, s)
      else (let (e, rest) = pop_side x (r_lists s a); s1 = put_l a rest s
            in (Inr (RStr e), put_l b (push_side y e (r_lists s1 b)) s1)))"
| "store_call (LPUSH k e) s =
     (Inr (RInt (int (length (r_lists s k)) + 1)), put_l k (e # r_lists s k) s)"
| "store_call (LREM k n e) s =
     (let xs = (remove1 e ^^ n) (r_lists s k)
      in (Inr (RInt (int (length (r_lists s k)) - int (length xs))), put_l k xs s))"
| "store_call (LRANGE k a b) s = (Inr (RArr (list_range (r_lists s k) a b)), s)"
| "store_call (LLEN k) s = (Inr (RInt (int (length (r_lists s k)))), s)"
| "store_call (ZADD k sc m) s =
     (Inr (RInt (if map_of (r_zsets s k) m = None then 1 else 0)),
      put_z k (AList.update m sc (r_zsets s k)) s)"
| "store_call (ZADDNX k sc m) s =
     (if map_of (r_zsets s k) m = None
      then (Inr (RInt 1), put_z k (AList.update m sc (r_zsets s k)) s) else (Inr (RInt 0), s))"
| "store_call (ZREM k m) s =
     (Inr (RInt (if map_of (r_zsets s k) m = None then 0 else 1)),
      put_z k (AList.delete m (r_zsets s k)) s)"
| "store_call (ZSCORE k m) s =
     (Inr (case map_of (r_zsets s k) m of None \<Rightarrow> RNil | Some sc \<Rightarrow> RStr (show_int sc)), s)"
| "store_call (ZRANGEBYSCORE k mx lim) s =
     (let xs = map snd (filter (\<lambda>(sc, m). sc \<le> mx) (zsort (r_zsets s k)))
      in (Inr (RArr (if lim < 0 then xs else take (nat lim) xs)), s))"
| "store_call (ZCARD k) s = (Inr (RInt (int (length (remdups (map fst (r_zsets s k)))))), s)"
| "store_call (ZCOUNT k lo hi) s =
     (Inr (RInt (int (length (filter (\<lambda>(sc, m). sc \<le> hi \<and>
        (case lo of None \<Rightarrow> True | Some l \<Rightarrow> l \<le> sc)) (zsort (r_zsets s k)))))), s)"
| "store_call (HGET k f) s =
     (Inr (case map_of (r_hashes s k) f of None \<Rightarrow> RNil | Some w \<Rightarrow> RStr w), s)"
| "store_call (HSET k f w) s =
     (Inr (RInt (if map_of (r_hashes s k) f = None then 1 else 0)),
      put_h k (AList.update f w (r_hashes s k)) s)"
| "store_call (HDEL k f) s =
     (Inr (RInt (if map_of (r_hashes s k) f = None then 0 else 1)),
      put_h k (AList.delete f (r_hashes s k)) s)"
| "store_call (HINCRBY k f n) s =
     (case counter (map_of (r_hashes s k) f) of
        None \<Rightarrow> (Inl ''ERR hash value is not an integer'', s)
      | Some i \<Rightarrow> if in_int64 (i + n)
          then (Inr (RInt (i + n)), put_h k (AList.update f (show_int (i + n)) (r_hashes s k)) s)
          else (Inl ''ERR increment or decrement would overflow'', s))"
| "store_call (HLEN k) s = (Inr (RInt (int (length (remdups (map fst (r_hashes s k)))))), s)"
| "store_call (INCR k) s =
     (case counter (r_strs s k) of
        None \<Rightarrow> (Inl ''ERR value is not an integer or out of range'', s)
      | Some i \<Rightarrow> if in_int64 (i + 1)
          then (Inr (RInt (i + 1)), s\<lparr>r_strs := (r_strs s)(k \<mapsto> show_int (i + 1))\<rparr>)
          else (Inl ''ERR increment or decrement would overflow'', s))"
| "store_call (GET k) s = (Inr (case r_strs s k of None \<Rightarrow> RNil | Some w \<Rightarrow> RStr w), s)"
| "store_call (SET k w) s = (Inr (RStr ''OK''), s\<lparr>r_strs := (r_strs s)(k \<mapsto> w)\<rparr>)"
| "store_call (SETNX k w) s =
     (if r_strs s k = None then (Inr (RInt 1), s\<lparr>r_strs := (r_strs s)(k \<mapsto> w)\<rparr>)
      else (Inr (RInt 0), s))"
| "store_call (BFADD k x) s =
     (if x \<in> set (r_filters s k) then (Inr (RInt 0), s)
      else (Inr (RInt 1), s\<lparr>r_filters := (r_filters s)(k := x # r_filters s k)\<rparr>))"

fun flaky_call :: "cmd \<Rightarrow> bool list \<times> rstore \<Rightarrow> (string + reply) \<times> bool list \<times> rstore" where
  "flaky_call c (True # fs, s) = (Inl ''ERR injected'', fs, s)"
| "flaky_call c (fs, s) = (case store_call c s of (r, s') \<Rightarrow> (r, tl fs, s'))"

definition flaky_data :: "bool list \<times> rstore \<Rightarrow> keyspace" where
  "flaky_data p = store_data (snd p)"

lemma store_data_put [simp]:
  "store_data (put_l k xs s) = put_list k xs (store_data s)"
  "store_data (put_z k al s) = (store_data s)\<lparr>zsets := (zsets (store_data s))(k := map_of al)\<rparr>"
  "store_data (put_h k hl s) = (store_data s)\<lparr>hashes := (hashes (store_data s))(k := map_of hl)\<rparr>"
  "store_data (s\<lparr>r_strs := m\<rparr>) = (store_data s)\<lparr>strs := m\<rparr>"
  "store_data (s\<lparr>r_filters := (r_filters s)(k := ys)\<rparr>) =
     (store_data s)\<lparr>filters := (filters (store_data s))(k := set ys)\<rparr>"
  by (auto simp: store_data_def put_l_def put_z_def put_h_def fun_eq_iff)

lemma store_data_get [simp]:
  "lists (store_data s) = r_lists s"
  "zsets (store_data s) k = map_of (r_zsets s k)"
  "hashes (store_data s) k = map_of (r_hashes s k)"
  "strs (store_data s) = r_strs s"
  "filters (store_data s) k = set (r_filters s k)"
  by (simp_all add: store_data_def)

lemma put_l_get [simp]: "r_lists (put_l k xs s) = (r_lists s)(k := xs)"
  by (simp add: put_l_def)

lemmas alist_simps = update_conv' delete_conv'

lemma card_dom_map_of: "card (dom (map_of al)) = length (remdups (map fst al))"
  by (metis dom_map_of_conv_image_fst length_remdups_card_conv list.set_map)

lemma store_call_reply:
  assumes "store_call c s = (Inr v, s')"
  shows "redis_doc c (store_data s) v (store_data s')"
proof (cases c)
  case (BFADD k x)
  then show ?thesis
    using assms
    by (auto split: if_splits intro!: exI [of _ "insert x (set (r_filters s k))"])
next
  case (LMOVE a b x y)
  then show ?thesis
    using assms by (auto simp: Let_def split: if_splits prod.splits)
qed (use assms in \<open>auto simp: alist_simps Let_def zsort_ranked due_members_def score_count_def
      card_dom_map_of split: if_splits option.splits\<close>)

lemma store_call_error: "store_call c s = (Inl e, s') \<Longrightarrow> s' = s"
  by (cases c) (auto simp: Let_def split: if_splits option.splits prod.splits)

lemma store_call_ok: "redis_applicable c (store_data s) \<Longrightarrow> \<exists>v s'. store_call c s = (Inr v, s')"
  by (cases c) (auto simp: Let_def split: option.splits prod.splits)

interpretation store: redis_reliable store_call store_data
proof unfold_locales
  show "redis_doc c (store_data s) v (store_data s')" if "store_call c s = (Inr v, s')" for c s v s'
    using that by (rule store_call_reply)
  show "store_data s' = store_data s" if "store_call c s = (Inl e, s')" for c s e s'
    using that store_call_error by metis
  show "finite (dom (zsets (store_data s) k))" for s k
    by (simp add: store_data_def finite_dom_map_of)
  show "finite (dom (hashes (store_data s) k))" for s k
    by (simp add: store_data_def finite_dom_map_of)
  show "\<exists>v s'. store_call c s = (Inr v, s')" if "redis_applicable c (store_data s)" for c s
    using that by (rule store_call_ok)
qed

interpretation flaky: redis_server flaky_call flaky_data
proof unfold_locales
  show "redis_doc c (flaky_data s) v (flaky_data s')" if "flaky_call c s = (Inr v, s')" for c s v s'
    using that by (cases "(c, s)" rule: flaky_call.cases)
      (auto simp: flaky_data_def dest: store_call_reply split: prod.splits)
  show "flaky_data s' = flaky_data s" if "flaky_call c s = (Inl e, s')" for c s e s'
    using that by (cases "(c, s)" rule: flaky_call.cases)
      (auto simp: flaky_data_def dest: store_call_error split: prod.splits)
  show "finite (dom (zsets (flaky_data s) k))" for s k
    by (simp add: flaky_data_def store_data_def finite_dom_map_of)
  show "finite (dom (hashes (flaky_data s) k))" for s k
    by (simp add: flaky_data_def store_data_def finite_dom_map_of)
qed

end
