(* ===== verification/Frontier_Run.thy ===== *)
theory Frontier_Run
  imports Frontier_Invariant Redis_Reference
begin

text \<open>
  Redis executes one script at a time, so whatever the workers, the reconcilers and several
  processes do to the frontier is one sequence of script executions. \<open>server_trace\<close> is that
  sequence: operations with arbitrary arguments, each with the answer or the error the server
  produced, mid-script failures included. This theory proves what holds along every such trace:
  the structural invariant, that a job is handed out and completed at most once, that a video is
  new at most once, and that no URL is lost.
\<close>

section \<open>Operations\<close>

datatype frontier_op =
    OLease int int
  | OAdmitVideo url int
  | OAdmitListing url int
  | OSeedListing url
  | OSchedule int int
  | OAck member url
  | OComplete member url int int int int
  | ONack member url
  | OFail "string list" member url string int int string int
  | OTerminal member url string int
  | OPromote int int
  | OReap int int
  | OSweep int

datatype op_reply = Item "member option" | Num int | Text string

text \<open>\<open>ZADD listing:next NX 0 url\<close>, the one operation that is a plain command.\<close>

definition seedListing :: "url \<Rightarrow> int script" where
  "seedListing url = Call (ZADDNX keyListingNext 0 url) (int_reply Done)"

fun op_script :: "frontier_op \<Rightarrow> op_reply script" where
  "op_script (OLease now t) = map_script Item (luaLease now t)"
| "op_script (OAdmitVideo u now) = map_script Num (luaAdmitVideo u now)"
| "op_script (OAdmitListing u now) = map_script Num (luaAdmitListing u now PendingScore)"
| "op_script (OSeedListing u) = map_script Num (seedListing u)"
| "op_script (OSchedule now lim) = map_script Num (luaListingScheduler now lim PendingScore)"
| "op_script (OAck m u) = map_script Text (luaAck m u)"
| "op_script (OComplete m u n now b mx) = map_script Text (luaCompleteListing m u n now b mx)"
| "op_script (ONack m u) = map_script Text (luaNack m u)"
| "op_script (OFail argv m u inc mx now r t) = map_script Text (luaFail argv m u inc mx now r t)"
| "op_script (OTerminal m u r t) = map_script Text (luaTerminal m u r t)"
| "op_script (OPromote now lim) = map_script Num (luaPromote now lim)"
| "op_script (OReap now lim) = map_script Num (luaReap now lim)"
| "op_script (OSweep lim) = map_script Num (luaSweep lim)"

type_synonym event = "frontier_op \<times> (string + op_reply)"

inductive server_trace ::
  "(cmd \<Rightarrow> 's \<Rightarrow> (string + reply) \<times> 's) \<Rightarrow> 's \<Rightarrow> event list \<Rightarrow> 's \<Rightarrow> bool"
  for call :: "cmd \<Rightarrow> 's \<Rightarrow> (string + reply) \<times> 's" and s :: 's
where
  trace_empty: "server_trace call s [] s"
| trace_step: "server_trace call s tr s1 \<Longrightarrow> run call (op_script op) s1 = (r, s2) \<Longrightarrow>
     server_trace call s (tr @ [(op, r)]) s2"

inductive_cases server_trace_snocE: "server_trace call s (tr @ [e]) s'"

inductive_simps server_trace_Nil [simp]: "server_trace call s [] s'"

lemma server_trace_append:
  assumes "server_trace call s1 tr2 s2" "server_trace call s tr1 s1"
  shows "server_trace call s (tr1 @ tr2) s2"
  using assms
proof (induction rule: server_trace.induct)
  case (trace_step tr s1 op r s2)
  then show ?case
    using server_trace.trace_step [of call s "tr1 @ tr" s1 op r s2] by simp
qed simp

text \<open>The members handed out by the successful leases of a trace, in order.\<close>

definition handed_event :: "event \<Rightarrow> member list" where
  "handed_event e = (case e of
     (OLease _ _, Inr (Item (Some m))) \<Rightarrow> [m]
   | _ \<Rightarrow> [])"

definition handed :: "event list \<Rightarrow> member list" where
  "handed tr = concat (map handed_event tr)"

lemma handed_simps [simp]:
  "handed [] = []" "handed (a @ b) = handed a @ handed b" "handed [e] = handed_event e"
  by (simp_all add: handed_def)

text \<open>An operation that ends the work of a leased member and was not answered STALE.\<close>

definition target :: "frontier_op \<Rightarrow> (member \<times> url) option" where
  "target op = (case op of
     OAck m u \<Rightarrow> Some (m, u)
   | OComplete m u _ _ _ _ \<Rightarrow> Some (m, u)
   | ONack m u \<Rightarrow> Some (m, u)
   | OFail _ m u _ _ _ _ _ \<Rightarrow> Some (m, u)
   | OTerminal m u _ _ \<Rightarrow> Some (m, u)
   | _ \<Rightarrow> None)"

definition completes :: "member \<Rightarrow> event \<Rightarrow> bool" where
  "completes m e \<longleftrightarrow> map_option fst (target (fst e)) = Some m \<and>
     (\<exists>t. snd e = Inr (Text t) \<and> t \<noteq> ''STALE'')"

definition admits_new :: "url \<Rightarrow> event \<Rightarrow> bool" where
  "admits_new u e \<longleftrightarrow> (\<exists>now. e = (OAdmitVideo u now, Inr (Num 1)))"

section \<open>Scripts under a renaming of their result\<close>

lemma wp_map_script [simp]:
  "wp F (map_script f sc) d Q \<longleftrightarrow> wp F sc d (\<lambda>r. Q (map_sum id f r))"
  by (induction sc arbitrary: d) auto

lemma map_sum_Inr_iff [simp]:
  "map_sum id Text r = Inr (Text t) \<longleftrightarrow> r = Inr t"
  "map_sum id Num r' = Inr (Num n) \<longleftrightarrow> r' = Inr n"
  "map_sum id Item r'' = Inr (Item x) \<longleftrightarrow> r'' = Inr x"
  by (cases r; cases r'; cases r''; simp)+

lemma wp_True_intro: "(\<And>r d'. Q r d') \<Longrightarrow> wp True sc d Q"
  by (induction sc arbitrary: d) auto

lemma wp_seedListing [simp]:
  "wp F (seedListing u) d Q \<longleftrightarrow> fault F d Q \<and>
     (if listing_next d u = None then Q (Inr 1) (put_score keyListingNext u (Some 0) d)
      else Q (Inr 0) d)"
  by (auto simp: seedListing_def)

text \<open>A property every command of a script keeps is kept by the script.\<close>

primrec all_cmds :: "(cmd \<Rightarrow> bool) \<Rightarrow> 'a script \<Rightarrow> bool" where
  "all_cmds P (Done a) \<longleftrightarrow> True"
| "all_cmds P (Raise e) \<longleftrightarrow> True"
| "all_cmds P (Call c k) \<longleftrightarrow> P c \<and> (\<forall>v. all_cmds P (k v))"

lemma wp_all_cmds:
  assumes "all_cmds P sc" "I d" and "\<And>c d v d'. P c \<Longrightarrow> I d \<Longrightarrow> redis_doc c d v d' \<Longrightarrow> I d'"
  shows "wp True sc d (\<lambda>_ d'. I d')"
  using assms(1,2) by (induction sc arbitrary: d) (auto intro: assms(3))

lemma all_reply: "(\<forall>v. P v) \<longleftrightarrow> P RNil \<and> (\<forall>n. P (RInt n)) \<and> (\<forall>w. P (RStr w)) \<and> (\<forall>xs. P (RArr xs))"
  by (metis reply.exhaust)

lemma all_cmds_replies [simp]:
  "(\<forall>v. all_cmds P (int_reply f v)) \<longleftrightarrow> (\<forall>n. all_cmds P (f n))"
  "(\<forall>v. all_cmds P (opt_reply g v)) \<longleftrightarrow> all_cmds P (g None) \<and> (\<forall>x. all_cmds P (g (Some x)))"
  "(\<forall>v. all_cmds P (arr_reply h v)) \<longleftrightarrow> (\<forall>xs. all_cmds P (h xs))"
  by (simp_all add: all_reply)

lemma all_cmds_score_reply: "(\<And>x. all_cmds P (f x)) \<Longrightarrow> all_cmds P (score_reply f v)"
  by (cases v) (auto split: option.splits)

lemma all_cmds_True: "all_cmds (\<lambda>_. True) sc"
  by (induction sc) auto

lemma all_cmds_map_script [simp]: "all_cmds P (map_script f sc) \<longleftrightarrow> all_cmds P sc"
  by (induction sc) auto

section \<open>What each operation keeps\<close>

lemma op_inv: "frontier_inv d \<Longrightarrow> keeps_inv (op_script op) d"
  by (cases op)
    (simp_all add: luaLease_inv luaAdmitVideo_inv luaAdmitListing_inv luaListingScheduler_inv luaAck_inv
      luaCompleteListing_inv luaNack_inv luaFail_inv luaTerminal_inv luaPromote_inv luaReap_inv
      luaSweep_inv, simp add: frontier_inv_def)

lemma op_fence: "fenced f m d \<Longrightarrow> keeps_fence f m (op_script op) d"
  by (cases op)
    (simp_all add: luaLease_fence luaAdmitVideo_fence luaAdmitListing_fence luaAck_fence
      luaCompleteListing_fence luaNack_fence luaFail_fence luaTerminal_fence reconciler_fence,
      simp add: fenced_def)

text \<open>Identifiers come from one counter, which no operation sets back.\<close>

definition job_seq :: "keyspace \<Rightarrow> int" where
  "job_seq d = (case counter (strs d keyJobSeq) of None \<Rightarrow> 0 | Some N \<Rightarrow> N)"

fun no_set :: "cmd \<Rightarrow> bool" where
  "no_set (SET k v) \<longleftrightarrow> False"
| "no_set (SETNX k v) \<longleftrightarrow> False"
| "no_set _ \<longleftrightarrow> True"

lemmas command_defs =
  lmove_rl_def lpush_def lrem1_def lrange_def zadd_def zrem_def zscore_def zrangebyscore_def
  hget_def hset_def hdel_def hincrby_def incr_def bfadd_def

lemma loops_no_set:
  "all_cmds no_set (schedule_due now p us n)" "all_cmds no_set (promote_due ms n)"
  "all_cmds no_set (reap_expired ms n)" "all_cmds no_set (sweep_items ms n)"
proof -
  show "all_cmds no_set (schedule_due now p us n)"
    by (induction us arbitrary: n) (auto simp: command_defs mint_def Let_def split: option.split)
  show "all_cmds no_set (promote_due ms n)"
    by (induction ms arbitrary: n) (auto simp: command_defs mint_def split: option.split)
  show "all_cmds no_set (reap_expired ms n)"
    by (induction ms arbitrary: n) (auto simp: command_defs mint_def split: option.split)
  show "all_cmds no_set (sweep_items ms n)"
    by (induction ms arbitrary: n)
      (auto simp: command_defs mint_def split: option.split intro!: all_cmds_score_reply)
qed

lemma op_no_set: "all_cmds no_set (op_script op)"
  by (cases op)
    (auto simp: script_defs command_defs mint_def seedListing_def Let_def loops_no_set
      split: option.split intro!: all_cmds_score_reply)

definition seq_from :: "int \<Rightarrow> keyspace \<Rightarrow> bool" where
  "seq_from N d \<longleftrightarrow> (\<exists>N'. N \<le> N' \<and> counter (strs d keyJobSeq) = Some N')"

lemma seq_from_cmd: "no_set c \<Longrightarrow> seq_from N d \<Longrightarrow> redis_doc c d v d' \<Longrightarrow> seq_from N d'"
  by (cases c) (fastforce simp: seq_from_def Let_def split: if_splits prod.splits)+

lemma op_seq: "seq_from N d \<Longrightarrow> wp True (op_script op) d (\<lambda>_ d'. seq_from N d')"
  by (rule wp_all_cmds [OF op_no_set]) (auto intro: seq_from_cmd)

text \<open>A Bloom filter only ever answers yes for more items.\<close>

lemma bloom_cmd: "u \<in> bloom d \<Longrightarrow> redis_doc c d v d' \<Longrightarrow> u \<in> bloom d'"
  by (cases c) (auto simp: Let_def split: if_splits prod.splits)

lemma op_bloom: "u \<in> bloom d \<Longrightarrow> wp True (op_script op) d (\<lambda>_ d'. u \<in> bloom d')"
  by (rule wp_all_cmds [where P = "\<lambda>_. True"]) (auto intro: bloom_cmd simp: all_cmds_True)

section \<open>What single operations answer\<close>

lemma put_score_same [simp]: "zsets d k m = None \<Longrightarrow> put_score k m None d = d"
  by (simp add: fun_upd_idem)

definition stale_or_error :: "(string + op_reply) \<Rightarrow> bool" where
  "stale_or_error r \<longleftrightarrow> (case r of Inl _ \<Rightarrow> True | Inr v \<Rightarrow> v = Text ''STALE'')"

lemma op_unleased:
  "target op = Some (m, u) \<Longrightarrow> lease d m = None \<Longrightarrow>
     wp True (op_script op) d (\<lambda>r d'. d' = d \<and> stale_or_error r)"
  by (cases op) (auto simp: target_def script_defs Let_def stale_or_error_def)

lemma op_releases:
  "target op = Some (m, u) \<Longrightarrow>
     wp True (op_script op) d (\<lambda>r d'. isl r \<or> lease d' m = None)"
  by (cases op) (auto simp: target_def script_defs Let_def split: option.split)

lemma op_hands:
  "wp True (op_script (OLease now t)) d (\<lambda>r d'. r = Inr (Item (Some m)) \<longrightarrow>
     ready d \<noteq> [] \<and> m = last (ready d) \<and> ready d' = butlast (ready d) \<and> strs d' = strs d)"
  by (auto simp: script_defs)

lemma luaAdmitVideo_new:
  "wp True (op_script (OAdmitVideo u now)) d
     (\<lambda>r d'. r = Inr (Num 1) \<longrightarrow> u \<notin> bloom d \<and> u \<in> bloom d')"
  by (auto simp: script_defs Let_def split: option.split)

text \<open>A leased member was minted and is not ready, so it can be fenced.\<close>

lemma leased_fenced:
  assumes "frontier_inv d" "lease d m \<noteq> None"
  shows "fenced False m d"
proof -
  have "m \<in> dom (lease d)" using assms(2) by blast
  with assms(1) show ?thesis
    unfolding frontier_inv_def jobs_inv_def fenced_def fence_inv_def distinct_append by blast
qed

lemma ready_last_fenced:
  assumes "frontier_inv d" "ready d \<noteq> []" "ready d' = butlast (ready d)" "strs d' = strs d"
  shows "fenced False (last (ready d)) d'"
  using assms last_in_set [of "ready d"] distinct_butlast_last [of "ready d"]
  by (auto simp: frontier_inv_def jobs_inv_def fenced_def fence_inv_def)

lemma fenced_at:
  assumes "fenced f m d" "job_seq d < id_limit"
  shows "m \<notin> set (ready d)" "f \<Longrightarrow> lease d m = None"
  using assms by (auto simp: fenced_def fence_inv_def job_seq_def)

lemma fenced_strengthen:
  "fenced False m d \<Longrightarrow> lease d m = None \<Longrightarrow> fenced True m d"
  by (auto simp: fenced_def fence_inv_def)

section \<open>Along a trace\<close>

lemma handed_eventD: "m \<in> set (handed_event e) \<Longrightarrow> \<exists>now t. e = (OLease now t, Inr (Item (Some m)))"
  by (auto simp: handed_event_def split: prod.splits frontier_op.splits sum.splits op_reply.splits option.splits)

lemma handed_event_cases: "handed_event e = [] \<or> (\<exists>m. handed_event e = [m])"
  by (auto simp: handed_event_def split: prod.splits frontier_op.splits sum.splits op_reply.splits option.splits)

context redis_server
begin

lemma trace_keeps:
  assumes "server_trace call s tr s'" and "I (data s)"
    and "\<And>op d. I d \<Longrightarrow> wp True (op_script op) d (\<lambda>_ d'. I d')"
  shows "I (data s')"
  using assms(1,2)
proof (induction rule: server_trace.induct)
  case (trace_step tr s1 op r s2)
  then show ?case using run_wp [OF assms(3)] by blast
qed

lemma trace_inv: "server_trace call s tr s' \<Longrightarrow> frontier_inv (data s) \<Longrightarrow> frontier_inv (data s')"
  by (erule trace_keeps) (auto intro: op_inv)

lemma trace_fence: "server_trace call s tr s' \<Longrightarrow> fenced f m (data s) \<Longrightarrow> fenced f m (data s')"
  by (erule trace_keeps [where I = "fenced f m"]) (auto intro: op_fence)

lemma trace_bloom: "server_trace call s tr s' \<Longrightarrow> u \<in> bloom (data s) \<Longrightarrow> u \<in> bloom (data s')"
  by (erule trace_keeps [where I = "\<lambda>d. u \<in> bloom d"]) (auto intro: op_bloom)

lemma trace_seq:
  assumes "server_trace call s tr s'" "frontier_inv (data s)"
  shows "job_seq (data s) \<le> job_seq (data s')"
proof -
  have "seq_from (job_seq (data s)) (data s)"
    using assms(2) by (auto simp: seq_from_def job_seq_def frontier_inv_def)
  with assms(1) have "seq_from (job_seq (data s)) (data s')"
    by (rule trace_keeps) (rule op_seq)
  then show ?thesis by (auto simp: seq_from_def job_seq_def)
qed

lemma step_seq:
  "run call (op_script op) s1 = (r, s2) \<Longrightarrow> frontier_inv (data s1) \<Longrightarrow>
     job_seq (data s1) \<le> job_seq (data s2)"
  using trace_seq [OF server_trace.trace_step [OF server_trace.trace_empty]] by blast

text \<open>A member that was handed out is never ready again, so it is not handed out twice.\<close>

lemma trace_handed:
  assumes "server_trace call s tr s'" "frontier_inv (data s)"
  shows "(\<forall>m \<in> set (handed tr). fenced False m (data s')) \<and>
    (job_seq (data s') < id_limit \<longrightarrow> distinct (handed tr))"
  using assms
proof (induction rule: server_trace.induct)
  case (trace_step tr s1 op r s2)
  note inv = trace_inv [OF trace_step.hyps(1) trace_step.prems]
  have old: "fenced False m (data s2)" if "m \<in> set (handed tr)" for m
    using that trace_step run_wp [OF op_fence] by blast
  have new: "ready (data s1) \<noteq> [] \<and> m = last (ready (data s1)) \<and> fenced False m (data s2)"
    if ev: "m \<in> set (handed_event (op, r))" for m
  proof -
    obtain now t where op: "op = OLease now t" "r = Inr (Item (Some m))"
      using handed_eventD [OF ev] by auto
    show ?thesis
      using run_wp [OF op_hands, OF trace_step.hyps(2) [unfolded op], of m] ready_last_fenced [OF inv]
      by simp
  qed
  have "distinct (handed tr @ handed_event (op, r))" if lim: "job_seq (data s2) < id_limit"
  proof -
    have lim1: "job_seq (data s1) < id_limit"
      using step_seq [OF trace_step.hyps(2) inv] lim by simp
    then have "distinct (handed tr)" and f: "\<forall>m \<in> set (handed tr). m \<notin> set (ready (data s1))"
      using trace_step fenced_at(1) by blast+
    moreover have "m \<in> set (ready (data s1))" if "m \<in> set (handed_event (op, r))" for m
      using new [OF that] last_in_set by blast
    ultimately show ?thesis
      using handed_event_cases [of "(op, r)"] by auto
  qed
  with old new show ?case by auto
qed simp

lemma trace_unleased:
  assumes "server_trace call s tr s'" "fenced True m (data s)" "job_seq (data s') < id_limit"
    and "run call (op_script op) s' = (r, s'')" "target op = Some (m, u)"
  shows "stale_or_error r \<and> data s'' = data s'"
proof -
  have "lease (data s') m = None"
    using fenced_at(2) [OF trace_fence [OF assms(1,2)] assms(3)] by simp
  then show ?thesis
    using run_wp [OF op_unleased [OF assms(5)] assms(4)] by simp
qed

lemma step_completes:
  assumes "run call (op_script op) s1 = (r, s2)" "frontier_inv (data s1)" "completes m (op, r)"
  shows "lease (data s1) m \<noteq> None \<and> fenced True m (data s2)"
proof -
  obtain u t where t: "target op = Some (m, u)" "r = Inr (Text t)" "t \<noteq> ''STALE''"
    using assms(3) by (auto simp: completes_def)
  have l: "lease (data s1) m \<noteq> None"
    using run_wp [OF op_unleased [OF t(1)] assms(1)] t by (auto simp: stale_or_error_def)
  then have "fenced False m (data s2)"
    using run_wp [OF op_fence assms(1)] leased_fenced assms(2) by blast
  moreover have "lease (data s2) m = None"
    using run_wp [OF op_releases [OF t(1)] assms(1)] t by simp
  ultimately show ?thesis using l fenced_strengthen by blast
qed

lemma trace_completes:
  assumes "server_trace call s tr s'" "frontier_inv (data s)"
  shows "((\<exists>e \<in> set tr. completes m e) \<longrightarrow> fenced True m (data s')) \<and>
    (job_seq (data s') < id_limit \<longrightarrow> length (filter (completes m) tr) \<le> 1)"
  using assms
proof (induction rule: server_trace.induct)
  case (trace_step tr s1 op r s2)
  note inv = trace_inv [OF trace_step.hyps(1) trace_step.prems]
  have old: "fenced True m (data s1) \<Longrightarrow> fenced True m (data s2)"
    using run_wp [OF op_fence trace_step.hyps(2)] by blast
  have lim: "job_seq (data s2) < id_limit \<Longrightarrow> job_seq (data s1) < id_limit"
    using step_seq [OF trace_step.hyps(2) inv] by simp
  show ?case
  proof (cases "completes m (op, r)")
    case True
    then have "lease (data s1) m \<noteq> None" "fenced True m (data s2)"
      using step_completes [OF trace_step.hyps(2) inv] by blast+
    moreover have "filter (completes m) tr = []" if "job_seq (data s2) < id_limit"
      using trace_step.IH trace_step.prems fenced_at(2) [of True m "data s1"] lim that calculation(1)
      by (auto simp: filter_empty_conv)
    ultimately show ?thesis by simp
  qed (use trace_step.IH trace_step.prems old lim in auto)
qed simp

lemma trace_admits:
  assumes "server_trace call s tr s'"
  shows "((\<exists>e \<in> set tr. admits_new u e) \<longrightarrow> u \<in> bloom (data s')) \<and>
    length (filter (admits_new u) tr) \<le> 1"
  using assms
proof (induction rule: server_trace.induct)
  case (trace_step tr s1 op r s2)
  have old: "u \<in> bloom (data s1) \<Longrightarrow> u \<in> bloom (data s2)"
    using run_wp [OF op_bloom trace_step.hyps(2)] by blast
  show ?case
  proof (cases "admits_new u (op, r)")
    case True
    then have "u \<notin> bloom (data s1)" "u \<in> bloom (data s2)"
      using run_wp [OF luaAdmitVideo_new] trace_step.hyps(2) by (auto simp: admits_new_def)
    with trace_step.IH True show ?thesis by (auto simp: filter_empty_conv)
  qed (use trace_step.IH old in auto)
qed simp

end

section \<open>No URL is lost along a trace\<close>

text \<open>The Go methods pass a member together with the URL it carries.\<close>

definition op_wf :: "frontier_op \<Rightarrow> bool" where
  "op_wf op \<longleftrightarrow> (case target op of None \<Rightarrow> True | Some (m, u) \<Rightarrow> after_bar m = Some u)"

fun is_ack :: "url \<Rightarrow> frontier_op \<Rightarrow> bool" where
  "is_ack u (OAck m v) \<longleftrightarrow> u = v"
| "is_ack u _ \<longleftrightarrow> False"

fun is_nack :: "frontier_op \<Rightarrow> bool" where
  "is_nack (ONack m v) \<longleftrightarrow> True"
| "is_nack _ \<longleftrightarrow> False"

definition retires :: "url \<Rightarrow> event \<Rightarrow> bool" where
  "retires u e \<longleftrightarrow> map_option snd (target (fst e)) = Some u \<and> \<not> is_nack (fst e) \<and>
     snd e \<notin> {Inr (Text ''STALE''), Inr (Text ''DELAYED'')}"

definition parked :: "keyspace \<Rightarrow> url \<Rightarrow> bool" where
  "parked d u \<longleftrightarrow> dead d u \<noteq> None \<or> listing_next d u \<noteq> None"

lemma luaFail_live_reply:
  assumes "live d u" "after_bar m = Some v"
  shows "wp True (luaFail argv m v inc mx now r t) d
    (\<lambda>r d'. live d' u \<or> u = v \<and> dead d' v \<noteq> None \<and> r \<notin> {Inr ''STALE'', Inr ''DELAYED''})"
  using assms
  by (auto simp: luaFail_def live_def Let_def intro: carries_intros split: option.splits)
    (auto dest: carries_drop)

lemma op_live_reply:
  assumes "live d u" "op_wf op"
  shows "wp True (op_script op) d
    (\<lambda>r d'. live d' u \<or> retires u (op, r) \<and> (is_ack u op \<or> parked d' u))"
proof (cases op)
  case (OAck m v)
  with assms show ?thesis
    by (auto simp: op_wf_def target_def retires_def luaAck_def live_def dest: carries_drop)
next
  case (OComplete m v n now b mx)
  with assms show ?thesis
    by (auto simp: op_wf_def target_def retires_def parked_def luaCompleteListing_def live_def Let_def
        dest: carries_drop split: option.splits)
next
  case (OFail argv m v inc mx now r t)
  with assms have "after_bar m = Some v" by (simp add: op_wf_def target_def)
  from luaFail_live_reply [OF assms(1) this, of argv inc mx now r t] OFail show ?thesis
    by (auto simp: target_def retires_def parked_def elim!: wp_mono)
next
  case (OTerminal m v r t)
  with assms show ?thesis
    by (auto simp: op_wf_def target_def retires_def parked_def luaTerminal_def live_def Let_def
        dest: carries_drop)
next
  case (ONack m v)
  with assms have "after_bar m = Some v" by (simp add: op_wf_def target_def)
  from luaNack_live [OF assms(1) this] ONack show ?thesis by (auto elim: wp_mono)
next
  case (OSeedListing v)
  with assms show ?thesis by (simp add: live_def)
qed (use assms(1) in \<open>auto intro!: wp_mono [OF luaLease_live] wp_mono [OF luaAdmitVideo_live]
      wp_mono [OF luaAdmitListing_live] wp_mono [OF reconciler_live(1)] wp_mono [OF reconciler_live(2)]
      wp_mono [OF reconciler_live(3)] wp_mono [OF reconciler_live(4)]\<close>)

section \<open>Readable values and pending listings along a trace\<close>

text \<open>What callers pass: a reason without a bar, an expiry below the pending mark.\<close>

fun op_args :: "frontier_op \<Rightarrow> bool" where
  "op_args (OFail argv m u inc mx now r t) \<longleftrightarrow> dead_args r t"
| "op_args (OTerminal m u r t) \<longleftrightarrow> dead_args r t"
| "op_args _ \<longleftrightarrow> True"

lemma op_values: "values_inv d \<Longrightarrow> op_args op \<Longrightarrow> keeps_values (op_script op) d"
  by (cases op)
    (simp_all add: luaLease_values luaAdmitVideo_values luaAdmitListing_values luaAck_values
      luaCompleteListing_values luaNack_values luaFail_values luaTerminal_values reconciler_values,
      simp add: values_inv_def)

text \<open>
  The discipline behind \<open>pending_ok\<close>: a job whose URL carries the pending mark is completed,
  requeued or ended with an expiry, and the score written for a completed listing is not the mark.
\<close>

fun op_releases_mark :: "keyspace \<Rightarrow> frontier_op \<Rightarrow> bool" where
  "op_releases_mark d (OAck m u) \<longleftrightarrow> listing_next d u \<noteq> Some PendingScore"
| "op_releases_mark d (OFail argv m u inc mx now r t) \<longleftrightarrow>
     t > 0 \<or> listing_next d u \<noteq> Some PendingScore"
| "op_releases_mark d (OTerminal m u r t) \<longleftrightarrow> t > 0 \<or> listing_next d u \<noteq> Some PendingScore"
| "op_releases_mark d (OComplete m u n now b mx) \<longleftrightarrow> now + max b mx < PendingScore"
| "op_releases_mark d _ \<longleftrightarrow> True"

lemma listing_ttl_le: "listing_ttl b mx k = Some ttl \<Longrightarrow> ttl \<le> mx"
  by (auto simp: listing_ttl_def Let_def split: if_splits)

lemma op_pending:
  assumes "values_inv d" "pending_ok d u" "op_wf op" "op_args op" "op_releases_mark d op"
  shows "keeps_pending u (op_script op) d"
proof (cases op)
  case (OComplete m v n now b mx)
  have "now + ttl \<noteq> PendingScore" if "listing_ttl b mx k = Some ttl" for k ttl
    using assms(5) OComplete listing_ttl_le [OF that] by simp
  with OComplete assms show ?thesis
    by (simp add: op_wf_def target_def luaCompleteListing_pending)
next
  case (OSeedListing v)
  with assms show ?thesis by (simp add: pending_ok_def live_def PendingScore_def)
qed (use assms in \<open>simp_all add: op_wf_def target_def dead_args_def luaLease_pending luaAdmitVideo_pending
      luaAdmitListing_pending luaNack_pending luaAck_pending luaTerminal_pending luaFail_pending
      reconciler_pending\<close>)

context redis_server
begin

lemma trace_live:
  assumes "server_trace call s tr s'" "live (data s) u" "\<forall>e \<in> set tr. op_wf (fst e)"
  shows "live (data s') u \<or> (\<exists>e \<in> set tr. retires u e)"
  using assms
proof (induction rule: server_trace.induct)
  case (trace_step tr s1 op r s2)
  then consider "live (data s1) u" "op_wf op" | "\<exists>e \<in> set tr. retires u e" by auto
  then show ?case
  proof cases
    case 1
    with run_wp [OF op_live_reply [OF 1] trace_step.hyps(2)] show ?thesis by auto
  qed auto
qed simp

lemma trace_values:
  assumes "server_trace call s tr s'" "values_inv (data s)" "\<forall>e \<in> set tr. op_args (fst e)"
  shows "values_inv (data s')"
  using assms
proof (induction rule: server_trace.induct)
  case (trace_step tr s1 op r s2)
  then have "values_inv (data s1)" "op_args op" by auto
  from run_wp [OF op_values [OF this] trace_step.hyps(2)] show ?case .
qed simp

end

end
