(* ===== verification/Frontier.thy ===== *)
theory Frontier
  imports Frontier_Run
begin

text \<open>
  The Go side of \<open>src/internal/storage/frontier.go\<close>: the types, the configuration, the interface
  \<open>Frontier\<close> as a record of operations, and the Redis implementation of every method. A method takes
  the clock reading of its call, and what the client library met on the way to the server, and
  returns a value or a Go error with the new server state.
\<close>

section \<open>Types\<close>

text \<open>\<open>AdmitResult\<close> is a Go int with three named values; the script's answer is cast to it.\<close>

datatype AdmitResult = Suppressed | New | DueRevisit | OtherResult int

definition admit_result :: "int \<Rightarrow> AdmitResult" where
  "admit_result n = (if n = 0 then Suppressed else if n = 1 then New
     else if n = 2 then DueRevisit else OtherResult n)"

datatype FailClass = FailRateLimited | FailStrikeable

datatype Disposition = Delayed | Dead

datatype URLClass = ClassVideo | ClassListing | ClassSeed

type_synonym URLClassifier = "url \<Rightarrow> URLClass"

record Job =
  ID :: string
  URL :: url
  Class :: URLClass
  member :: member

datatype go_error =
    RedisErr string
  | NetErr string
  | CtxErr
  | ErrStaleLease
  | OtherErr string

text \<open>\<open>err.Error()\<close>\<close>

fun err_text :: "go_error \<Rightarrow> string" where
  "err_text (RedisErr m) = m"
| "err_text (NetErr m) = m"
| "err_text CtxErr = ''context canceled''"
| "err_text ErrStaleLease = ''stale lease''"
| "err_text (OtherErr m) = m"

record FrontierStats =
  Ready :: int
  Processing :: int
  DelayedCount :: int
  ListingsScheduled :: int
  ListingsPending :: int
  DeadCount :: int
  Strikes :: int

record FrontierConfig =
  LeaseTimeout :: duration
  MaxStrikes :: int
  RateLimitBackoff :: "int list"
  StrikeBackoff :: "int list"
  ListingBaseTTL :: duration
  SeedTTL :: duration
  ListingMaxTTL :: duration
  QuarantineListing :: duration
  SchedulerBatchLimit :: int

definition DefaultFrontierConfig :: FrontierConfig where
  "DefaultFrontierConfig =
     \<lparr>LeaseTimeout = 600 * second,
      MaxStrikes = 5,
      RateLimitBackoff = [300, 900, 2700],
      StrikeBackoff = [60, 300, 1500],
      ListingBaseTTL = 72 * hour,
      SeedTTL = 24 * hour,
      ListingMaxTTL = 21 * 24 * hour,
      QuarantineListing = 7 * 24 * hour,
      SchedulerBatchLimit = 100\<rparr>"

definition promoteBatchLimit :: int where "promoteBatchLimit = 100"
definition reapBatchLimit :: int where "reapBatchLimit = 100"
definition sweepBatchLimit :: int where "sweepBatchLimit = 100"

section \<open>A call to the server\<close>

text \<open>
  The client library sends a script and may lose the reply and send it again: \<open>lost\<close> counts the
  executions whose reply never arrived. Then either the caller gets an error of the network or of
  its context (\<open>fate\<close>), or the script runs once more and its answer arrives. \<open>clock\<close> is what
  \<open>f.now()\<close> returns in the call.
\<close>

record call_env =
  clock :: go_time
  lost :: nat
  fate :: "go_error option"

type_synonym 's server = "cmd \<Rightarrow> 's \<Rightarrow> (string + reply) \<times> 's"

primrec executions :: "'s server \<Rightarrow> nat \<Rightarrow> 'a script \<Rightarrow> 's \<Rightarrow> 's" where
  "executions call 0 sc s = s"
| "executions call (Suc n) sc s = executions call n sc (snd (run call sc s))"

definition rpc :: "'s server \<Rightarrow> call_env \<Rightarrow> 'a script \<Rightarrow> 's \<Rightarrow> (go_error + 'a) \<times> 's" where
  "rpc call e sc s =
     (let s1 = executions call (lost e) sc s
      in case fate e of
           Some err \<Rightarrow> (Inl err, s1)
         | None \<Rightarrow> (case run call sc s1 of
             (Inl msg, s2) \<Rightarrow> (Inl (RedisErr msg), s2)
           | (Inr v, s2) \<Rightarrow> (Inr v, s2)))"

definition on_reply :: "('a \<Rightarrow> go_error + 'b) \<Rightarrow> (go_error + 'a) \<times> 's \<Rightarrow> (go_error + 'b) \<times> 's" where
  "on_reply f x = (case x of (Inl err, s) \<Rightarrow> (Inl err, s) | (Inr v, s) \<Rightarrow> (f v, s))"

section \<open>Helpers\<close>

definition splitMember :: "member \<Rightarrow> string \<times> url" where
  "splitMember m = (case cut CHR ''|'' m of None \<Rightarrow> (m, []) | Some (a, b) \<Rightarrow> (a, b))"

definition unixOrZero :: "go_time \<Rightarrow> int" where
  "unixOrZero t = (if t = zero_time then 0 else unix t)"

definition quarantineUntil :: "FrontierConfig \<Rightarrow> URLClass \<Rightarrow> go_time \<Rightarrow> int" where
  "quarantineUntil cfg class now =
     (if class = ClassVideo then 0 else unix (now + QuarantineListing cfg))"

definition backoffArgs :: "int list \<Rightarrow> string list" where
  "backoffArgs ladder = map show_int ladder"

text \<open>The reply of a completing script: STALE is an error, anything else success.\<close>

definition stale_check :: "string \<Rightarrow> go_error + unit" where
  "stale_check res = (if res = ''STALE'' then Inl ErrStaleLease else Inr ())"

section \<open>The methods\<close>

definition AdmitVideo :: "'s server \<Rightarrow> call_env \<Rightarrow> url \<Rightarrow> 's \<Rightarrow> (go_error + AdmitResult) \<times> 's" where
  "AdmitVideo call e url s =
     on_reply (\<lambda>res. Inr (admit_result res)) (rpc call e (luaAdmitVideo url (unix (clock e))) s)"

definition AdmitListing :: "'s server \<Rightarrow> call_env \<Rightarrow> url \<Rightarrow> 's \<Rightarrow> (go_error + AdmitResult) \<times> 's" where
  "AdmitListing call e url s =
     on_reply (\<lambda>res. Inr (admit_result res))
       (rpc call e (luaAdmitListing url (unix (clock e)) PendingScore) s)"

definition SeedListing :: "'s server \<Rightarrow> call_env \<Rightarrow> url \<Rightarrow> 's \<Rightarrow> (go_error + unit) \<times> 's" where
  "SeedListing call e url s = on_reply (\<lambda>_. Inr ()) (rpc call e (seedListing url) s)"

definition Lease :: "'s server \<Rightarrow> FrontierConfig \<Rightarrow> URLClassifier option \<Rightarrow> call_env \<Rightarrow> 's \<Rightarrow>
    (go_error + Job option) \<times> 's" where
  "Lease call cfg classify e s =
     on_reply (\<lambda>res. case res of
         None \<Rightarrow> Inr None
       | Some m \<Rightarrow>
           (let (id, url) = splitMember m;
                class = (case classify of None \<Rightarrow> ClassListing | Some f \<Rightarrow> f url)
            in Inr (Some \<lparr>ID = id, URL = url, Class = class, member = m\<rparr>)))
       (rpc call e (luaLease (unix (clock e)) (whole_seconds (LeaseTimeout cfg))) s)"

definition Ack :: "'s server \<Rightarrow> call_env \<Rightarrow> Job \<Rightarrow> 's \<Rightarrow> (go_error + unit) \<times> 's" where
  "Ack call e j s = on_reply stale_check (rpc call e (luaAck (member j) (URL j)) s)"

definition Nack :: "'s server \<Rightarrow> call_env \<Rightarrow> Job \<Rightarrow> 's \<Rightarrow> (go_error + unit) \<times> 's" where
  "Nack call e j s = on_reply stale_check (rpc call e (luaNack (member j) (URL j)) s)"

definition fail_reply :: "string \<Rightarrow> go_error + Disposition" where
  "fail_reply res =
     (if res = ''STALE'' then Inl ErrStaleLease
      else if res = ''DEAD'' then Inr Dead
      else if res = ''DELAYED'' then Inr Delayed
      else Inl (OtherErr (''frontier: unexpected FAIL result '' @ res)))"

definition fail_script :: "FrontierConfig \<Rightarrow> Job \<Rightarrow> FailClass \<Rightarrow> go_time \<Rightarrow> string script" where
  "fail_script cfg j class now =
     (let (incStrike, ladder, reason) =
        (if class = FailStrikeable then (''1'', StrikeBackoff cfg, ''strikes_exhausted'')
         else (''0'', RateLimitBackoff cfg, ''rate_limited''));
        until = quarantineUntil cfg (Class j) now;
        args = [member j, URL j, incStrike, show_int (MaxStrikes cfg), show_int (unix now), reason,
                show_int until] @ backoffArgs ladder
      in luaFail args (member j) (URL j) incStrike (MaxStrikes cfg) (unix now) reason until)"

definition Fail :: "'s server \<Rightarrow> FrontierConfig \<Rightarrow> call_env \<Rightarrow> Job \<Rightarrow> FailClass \<Rightarrow> 's \<Rightarrow>
    (go_error + Disposition) \<times> 's" where
  "Fail call cfg e j class s = on_reply fail_reply (rpc call e (fail_script cfg j class (clock e)) s)"

definition Terminal :: "'s server \<Rightarrow> call_env \<Rightarrow> Job \<Rightarrow> string \<Rightarrow> go_time \<Rightarrow> 's \<Rightarrow> (go_error + unit) \<times> 's" where
  "Terminal call e j reason until s =
     on_reply stale_check (rpc call e (luaTerminal (member j) (URL j) reason (unixOrZero until)) s)"

definition CompleteListing :: "'s server \<Rightarrow> FrontierConfig \<Rightarrow> call_env \<Rightarrow> Job \<Rightarrow> int \<Rightarrow> 's \<Rightarrow>
    (go_error + unit) \<times> 's" where
  "CompleteListing call cfg e j newChildren s =
     (let baseTTL = (if Class j = ClassSeed then SeedTTL cfg else ListingBaseTTL cfg)
      in on_reply stale_check (rpc call e
           (luaCompleteListing (member j) (URL j) newChildren (unix (clock e))
              (whole_seconds baseTTL) (whole_seconds (ListingMaxTTL cfg))) s))"

definition Reap :: "'s server \<Rightarrow> call_env \<Rightarrow> 's \<Rightarrow> (go_error + int) \<times> 's" where
  "Reap call e s = rpc call e (luaReap (unix (clock e)) reapBatchLimit) s"

definition Sweep :: "'s server \<Rightarrow> call_env \<Rightarrow> 's \<Rightarrow> (go_error + int) \<times> 's" where
  "Sweep call e s = rpc call e (luaSweep sweepBatchLimit) s"

definition Promote :: "'s server \<Rightarrow> call_env \<Rightarrow> 's \<Rightarrow> (go_error + int) \<times> 's" where
  "Promote call e s = rpc call e (luaPromote (unix (clock e)) promoteBatchLimit) s"

definition RunListingScheduler :: "'s server \<Rightarrow> FrontierConfig \<Rightarrow> call_env \<Rightarrow> 's \<Rightarrow> (go_error + int) \<times> 's" where
  "RunListingScheduler call cfg e s =
     rpc call e (luaListingScheduler (unix (clock e)) (SchedulerBatchLimit cfg) PendingScore) s"

text \<open>The pipeline of \<open>Stats\<close>: seven reads. A pipeline is not a transaction, so commands of other clients may come between
  its reads; the model answers them from one state, as Redis does when nobody else writes meanwhile. What is proved about
  \<open>Stats\<close> and \<open>Idle\<close> is about such a moment, and no property of concurrent runs rests on them.\<close>

definition int_cmd :: "cmd \<Rightarrow> (int \<Rightarrow> 'a script) \<Rightarrow> 'a script" where
  "int_cmd c f = Call c (int_reply f)"

definition stats_pipeline :: "FrontierStats script" where
  "stats_pipeline =
     int_cmd (LLEN keyReady) (\<lambda>ready.
     int_cmd (LLEN keyProcessing) (\<lambda>processing.
     int_cmd (ZCARD keyDelayed) (\<lambda>delayed.
     int_cmd (HLEN keyDead) (\<lambda>dead.
     int_cmd (HLEN keyStrikes) (\<lambda>strikes.
     int_cmd (ZCOUNT keyListingNext None (PendingScore - 1)) (\<lambda>scheduled.
     int_cmd (ZCOUNT keyListingNext (Some PendingScore) PendingScore) (\<lambda>pending.
     Done \<lparr>Ready = ready, Processing = processing, DelayedCount = delayed,
           ListingsScheduled = scheduled, ListingsPending = pending, DeadCount = dead,
           Strikes = strikes\<rparr>)))))))"

definition Stats :: "'s server \<Rightarrow> call_env \<Rightarrow> 's \<Rightarrow> (go_error + FrontierStats) \<times> 's" where
  "Stats call e s = rpc call e stats_pipeline s"

definition Idle :: "'s server \<Rightarrow> call_env \<Rightarrow> 's \<Rightarrow> (go_error + bool) \<times> 's" where
  "Idle call e s =
     on_reply (\<lambda>stats. Inr (Ready stats = 0 \<and> Processing stats = 0 \<and> DelayedCount stats = 0))
       (Stats call e s)"

section \<open>The interface\<close>

record 's frontier_methods =
  fr_AdmitVideo :: "call_env \<Rightarrow> url \<Rightarrow> 's \<Rightarrow> (go_error + AdmitResult) \<times> 's"
  fr_AdmitListing :: "call_env \<Rightarrow> url \<Rightarrow> 's \<Rightarrow> (go_error + AdmitResult) \<times> 's"
  fr_SeedListing :: "call_env \<Rightarrow> url \<Rightarrow> 's \<Rightarrow> (go_error + unit) \<times> 's"
  fr_Lease :: "call_env \<Rightarrow> 's \<Rightarrow> (go_error + Job option) \<times> 's"
  fr_Ack :: "call_env \<Rightarrow> Job \<Rightarrow> 's \<Rightarrow> (go_error + unit) \<times> 's"
  fr_Nack :: "call_env \<Rightarrow> Job \<Rightarrow> 's \<Rightarrow> (go_error + unit) \<times> 's"
  fr_Fail :: "call_env \<Rightarrow> Job \<Rightarrow> FailClass \<Rightarrow> 's \<Rightarrow> (go_error + Disposition) \<times> 's"
  fr_Terminal :: "call_env \<Rightarrow> Job \<Rightarrow> string \<Rightarrow> go_time \<Rightarrow> 's \<Rightarrow> (go_error + unit) \<times> 's"
  fr_CompleteListing :: "call_env \<Rightarrow> Job \<Rightarrow> int \<Rightarrow> 's \<Rightarrow> (go_error + unit) \<times> 's"
  fr_Reap :: "call_env \<Rightarrow> 's \<Rightarrow> (go_error + int) \<times> 's"
  fr_Sweep :: "call_env \<Rightarrow> 's \<Rightarrow> (go_error + int) \<times> 's"
  fr_Promote :: "call_env \<Rightarrow> 's \<Rightarrow> (go_error + int) \<times> 's"
  fr_RunListingScheduler :: "call_env \<Rightarrow> 's \<Rightarrow> (go_error + int) \<times> 's"
  fr_Idle :: "call_env \<Rightarrow> 's \<Rightarrow> (go_error + bool) \<times> 's"
  fr_Stats :: "call_env \<Rightarrow> 's \<Rightarrow> (go_error + FrontierStats) \<times> 's"

definition NewFrontier :: "'s server \<Rightarrow> FrontierConfig \<Rightarrow> URLClassifier option \<Rightarrow> 's frontier_methods" where
  "NewFrontier call cfg classify =
     \<lparr>fr_AdmitVideo = AdmitVideo call,
      fr_AdmitListing = AdmitListing call,
      fr_SeedListing = SeedListing call,
      fr_Lease = Lease call cfg classify,
      fr_Ack = Ack call,
      fr_Nack = Nack call,
      fr_Fail = Fail call cfg,
      fr_Terminal = Terminal call,
      fr_CompleteListing = CompleteListing call cfg,
      fr_Reap = Reap call,
      fr_Sweep = Sweep call,
      fr_Promote = Promote call,
      fr_RunListingScheduler = RunListingScheduler call cfg,
      fr_Idle = Idle call,
      fr_Stats = Stats call\<rparr>"

end
