(* ===== verification/Frontier_Spec.thy ===== *)
theory Frontier_Spec
  imports Frontier
begin

text \<open>
  What each method of the frontier promises, as one atomic transformation of the observable
  contents, and the refinement theorems: on every reliable server a method that is delivered once
  answers and changes exactly what its specification says, on every branch.
\<close>

section \<open>Calls\<close>

definition delivered :: "call_env \<Rightarrow> bool" where
  "delivered e \<longleftrightarrow> lost e = 0 \<and> fate e = None"

text \<open>The number a counter field holds; a missing one counts as zero.\<close>

definition tally :: "string option \<Rightarrow> int" where
  "tally v = (case counter v of None \<Rightarrow> 0 | Some i \<Rightarrow> i)"

definition countable_up :: "string option \<Rightarrow> bool" where
  "countable_up v \<longleftrightarrow> tally v < 2 ^ 63 - 1"

lemma count_entry_tally:
  assumes "\<forall>w. v = Some w \<longrightarrow> count_entry lo w" "0 \<le> lo"
  shows "counter v = Some (tally v)" "0 \<le> tally v"
    "countable_up v \<Longrightarrow> in_int64 (tally v + 1)"
  using assms by (cases v; force simp: count_entry_def tally_def countable_up_def in_int64_def)+

lemma values_tally:
  assumes "values_inv d"
  shows "counter (attempts d u) = Some (tally (attempts d u))" "0 \<le> tally (attempts d u)"
    "countable_up (attempts d u) \<Longrightarrow> in_int64 (tally (attempts d u) + 1)"
    "counter (strikes d u) = Some (tally (strikes d u))" "0 \<le> tally (strikes d u)"
    "countable_up (strikes d u) \<Longrightarrow> in_int64 (tally (strikes d u) + 1)"
    "counter (barren d u) = Some (tally (barren d u))" "0 \<le> tally (barren d u)"
    "countable_up (barren d u) \<Longrightarrow> in_int64 (tally (barren d u) + 1)"
  using assms count_entry_tally [of "attempts d u" 1] count_entry_tally [of "strikes d u" 1]
    count_entry_tally [of "barren d u" 0]
  by (simp_all add: values_inv_def)

text \<open>The next identifier is exact and in range while the counter is below \<open>id_limit\<close>.\<close>

lemma frontier_seq:
  assumes "frontier_inv d" "job_seq d < id_limit"
  shows "counter (strs d keyJobSeq) = Some (job_seq d)" "0 \<le> job_seq d" "in_int64 (job_seq d + 1)"
  using assms by (auto simp: frontier_inv_def job_seq_def jobs_inv_def in_int64_def id_limit_def)

text \<open>The member minted next for a URL.\<close>

definition next_member :: "keyspace \<Rightarrow> url \<Rightarrow> member" where
  "next_member d u = lua_tostring (job_seq d + 1) @ ''|'' @ u"

definition bump :: "keyspace \<Rightarrow> keyspace" where
  "bump d = put_str keyJobSeq (show_int (job_seq d + 1)) d"

definition push_job :: "url \<Rightarrow> keyspace \<Rightarrow> keyspace" where
  "push_job u d = put_list keyReady (next_member d u # ready d) (bump d)"

lemma wp_mint_total:
  assumes "frontier_inv d" "job_seq d < id_limit" "strs d' = strs d"
    "wp False (f (next_member d u)) (d'\<lparr>strs := (strs d)(keyJobSeq \<mapsto> show_int (job_seq d + 1))\<rparr>) Q"
  shows "wp False (mint u f) d' Q"
  using assms frontier_seq [OF assms(1,2)] by (simp add: next_member_def)

section \<open>Specifications\<close>

definition spec_lease :: "int \<Rightarrow> int \<Rightarrow> keyspace \<Rightarrow> member option \<times> keyspace" where
  "spec_lease now timeout d =
     (if ready d = [] then (None, d)
      else let m = last (ready d) in
        (Some m, put_score keyLease m (Some (now + timeout))
           (put_list keyProcessing (m # processing d) (put_list keyReady (butlast (ready d)) d))))"

text \<open>Dropping the work instance \<open>m\<close>, and forgetting the failures of \<open>u\<close>.\<close>

definition drop_job :: "member \<Rightarrow> keyspace \<Rightarrow> keyspace" where
  "drop_job m d = put_list keyProcessing (remove1 m (processing d)) (put_score keyLease m None d)"

definition clear_failures :: "url \<Rightarrow> keyspace \<Rightarrow> keyspace" where
  "clear_failures u d = put_field keyStrikes u None (put_field keyAttempts u None d)"

definition spec_ack :: "member \<Rightarrow> url \<Rightarrow> keyspace \<Rightarrow> string \<times> keyspace" where
  "spec_ack m u d =
     (if lease d m = None then (''STALE'', d) else (''OK'', clear_failures u (drop_job m d)))"

definition spec_nack :: "member \<Rightarrow> url \<Rightarrow> keyspace \<Rightarrow> string \<times> keyspace" where
  "spec_nack m u d =
     (if lease d m = None then (''STALE'', d) else (''OK'', drop_job m (push_job u d)))"

text \<open>The interval to the next visit after \<open>b\<close> visits in a row that found nothing new: the base TTL, doubled by
  each of them, but never over the maximum.\<close>

primrec doubled :: "nat \<Rightarrow> int \<Rightarrow> int" where
  "doubled 0 x = x"
| "doubled (Suc b) x = 2 * doubled b x"

definition revisit_interval :: "int \<Rightarrow> int \<Rightarrow> nat \<Rightarrow> int" where
  "revisit_interval baseTTL maxTTL b = min maxTTL (doubled b baseTTL)"

definition spec_complete :: "member \<Rightarrow> url \<Rightarrow> int \<Rightarrow> int \<Rightarrow> int \<Rightarrow> int \<Rightarrow> keyspace \<Rightarrow> string \<times> keyspace" where
  "spec_complete m u newChildren now baseTTL maxTTL d =
     (if lease d m = None then (''STALE'', d)
      else let b = (if newChildren > 0 then 0 else tally (barren d u) + 1) in
        (''OK'', clear_failures u (drop_job m (put_field keyDead u None
           (put_score keyListingNext u (Some (now + revisit_interval baseTTL maxTTL (nat b)))
             (put_field keyListingBarren u (Some (show_int b)) d))))))"

definition bury :: "member \<Rightarrow> url \<Rightarrow> string \<Rightarrow> int \<Rightarrow> keyspace \<Rightarrow> keyspace" where
  "bury m u reason until d =
     clear_failures u (drop_job m (put_field keyDead u (Some (reason @ ''|'' @ show_int until))
       (if until > 0 then put_score keyListingNext u (Some until) d else d)))"

definition spec_terminal :: "member \<Rightarrow> url \<Rightarrow> string \<Rightarrow> int \<Rightarrow> keyspace \<Rightarrow> string \<times> keyspace" where
  "spec_terminal m u reason until d =
     (if lease d m = None then (''STALE'', d) else (''OK'', bury m u reason until d))"

text \<open>The delay after the \<open>a\<close>-th failure: the \<open>a\<close>-th rung, the last one beyond the end.\<close>

definition rung :: "int list \<Rightarrow> int \<Rightarrow> int" where
  "rung ladder a = ladder ! (nat (min a (int (length ladder))) - 1)"

definition spec_fail :: "FrontierConfig \<Rightarrow> Job \<Rightarrow> FailClass \<Rightarrow> go_time \<Rightarrow> keyspace \<Rightarrow>
    (go_error + Disposition) \<times> keyspace" where
  "spec_fail cfg j class now d =
     (let m = member j; u = URL j; until = quarantineUntil cfg (Class j) now;
        a = tally (attempts d u) + 1; st = tally (strikes d u) + 1;
        d1 = put_field keyAttempts u (Some (show_int a)) d;
        d2 = (if class = FailStrikeable then put_field keyStrikes u (Some (show_int st)) d1 else d1);
        ladder = (if class = FailStrikeable then StrikeBackoff cfg else RateLimitBackoff cfg)
      in if lease d m = None then (Inl ErrStaleLease, d)
         else if class = FailStrikeable \<and> st \<ge> MaxStrikes cfg
           then (Inr Dead, bury m u ''strikes_exhausted'' until d2)
         else (Inr Delayed, drop_job m
           (put_score keyDelayed (next_member d u) (Some (unix now + rung ladder a)) (bump d2))))"

lemmas spec_defs =
  spec_lease_def spec_ack_def spec_nack_def spec_complete_def spec_terminal_def spec_fail_def
  bury_def drop_job_def clear_failures_def push_job_def bump_def

section \<open>The scripts meet them\<close>

text \<open>Updates of different keys commute; the lease goes first.\<close>

lemma lease_first [frontier_keys]:
  "f(keyListingNext := a, keyLease := b) = f(keyLease := b, keyListingNext := a)"
  "f(keyDelayed := a, keyLease := b) = f(keyLease := b, keyDelayed := a)"
  by (simp_all add: fun_upd_twist)

lemma show_int_0 [simp]: "show_int 0 = ''0''"
  by (simp add: show_int_def)

lemma luaLease_total: "spec_lease now t d = (x, d') \<Longrightarrow> wp False (luaLease now t) d (\<lambda>r e. r = Inr x \<and> e = d')"
  by (auto simp: luaLease_def spec_lease_def Let_def split: if_splits)

lemma luaAck_total: "spec_ack m u d = (x, d') \<Longrightarrow> wp False (luaAck m u) d (\<lambda>r e. r = Inr x \<and> e = d')"
  by (auto simp: luaAck_def spec_defs split: if_splits)

lemma luaNack_total:
  assumes "frontier_inv d" "job_seq d < id_limit" "spec_nack m u d = (x, d')"
  shows "wp False (luaNack m u) d (\<lambda>r e. r = Inr x \<and> e = d')"
  using assms(3) frontier_seq [OF assms(1,2)]
  by (auto simp: luaNack_def spec_defs next_member_def split: if_splits)

lemma luaTerminal_total:
  "spec_terminal m u r t d = (x, d') \<Longrightarrow> wp False (luaTerminal m u r t) d (\<lambda>r e. r = Inr x \<and> e = d')"
  by (auto simp: luaTerminal_def spec_defs frontier_keys Let_def split: if_splits)

text \<open>For a positive base the doubles of the script agree with the specification at every barren count,
  however large: an overflowing power is over any cap.\<close>

lemma doubled_power: "doubled b x = x * 2 ^ b"
  by (induction b) simp_all

lemma listing_ttl_interval:
  "0 < base \<Longrightarrow> listing_ttl base mx b = Some (revisit_interval base mx (nat b))"
  by (simp add: listing_ttl_def revisit_interval_def doubled_power Let_def min_def)

lemma luaCompleteListing_total:
  assumes "values_inv d" "countable_up (barren d u)" "0 < b" "spec_complete m u n now b mx d = (x, d')"
  shows "wp False (luaCompleteListing m u n now b mx) d (\<lambda>r e. r = Inr x \<and> e = d')"
  using assms(4) values_tally(7-9) [OF assms(1), of u] assms(2)
  by (auto simp: luaCompleteListing_def spec_defs frontier_keys Let_def listing_ttl_interval [OF assms(3)]
      split: if_splits)


lemma backoff_arg_rung:
  assumes "ladder \<noteq> []" "1 \<le> a" "length xs = 7"
  shows "backoff_arg (xs @ backoffArgs ladder) a = Some (rung ladder a)"
proof -
  define k where "k = min a (int (length ladder))"
  have k: "1 \<le> k" "k \<le> int (length ladder)"
    using assms by (cases ladder; simp add: k_def)+
  then have "nat (6 + k) = 7 + (nat k - 1)" "nat k - 1 < length ladder"
    by linarith+
  then have "argv_at (xs @ backoffArgs ladder) (7 + k) = Some (show_int (rung ladder a))"
    using k assms(3) by (simp add: argv_at_def backoffArgs_def nth_append rung_def k_def [symmetric])
  moreover have "(if a > int (length (xs @ backoffArgs ladder)) - 7
      then int (length (xs @ backoffArgs ladder)) - 7 else a) = k"
    using assms(3) by (simp add: backoffArgs_def min_def k_def)
  ultimately show ?thesis
    by (simp only: backoff_arg_def Let_def) (simp add: tonumber_def)
qed

lemma job_seq_upd [simp]:
  "job_seq (d\<lparr>lists := l\<rparr>) = job_seq d" "job_seq (d\<lparr>zsets := z\<rparr>) = job_seq d"
  "job_seq (d\<lparr>hashes := h\<rparr>) = job_seq d" "job_seq (d\<lparr>filters := f\<rparr>) = job_seq d"
  by (simp_all add: job_seq_def)

lemma fail_script_total:
  assumes "frontier_inv d" "values_inv d" "job_seq d < id_limit"
    "countable_up (attempts d (URL j))" "countable_up (strikes d (URL j))"
    "StrikeBackoff cfg \<noteq> []" "RateLimitBackoff cfg \<noteq> []" "spec_fail cfg j c now d = (x, d')"
  shows "wp False (fail_script cfg j c now) d
    (\<lambda>r e. (\<exists>v. r = Inr v \<and> fail_reply v = x) \<and> e = d')"
proof -
  let ?a = "tally (attempts d (URL j)) + 1"
  note t = values_tally [OF assms(2), of "URL j"]
  have "1 \<le> ?a" using t(2) by simp
  then have rung: "backoff_arg (p # q # r # s # v # w # z # backoffArgs ladder) ?a = Some (rung ladder ?a)"
    if "ladder \<noteq> []" for p q r s v w z ladder
    using backoff_arg_rung [OF that, of ?a "[p, q, r, s, v, w, z]"] by simp
  show ?thesis
    using assms(4-8) t frontier_seq [OF assms(1,3)]
    by (cases c; auto simp: fail_script_def luaFail_def spec_defs frontier_keys Let_def next_member_def
        rung fail_reply_def split: if_splits)
qed

section \<open>Admission\<close>

text \<open>A URL is blocked while it is dead forever or its quarantine lasts.\<close>

definition blocked :: "keyspace \<Rightarrow> url \<Rightarrow> int \<Rightarrow> bool" where
  "blocked d u now \<longleftrightarrow> (case dead d u of
     None \<Rightarrow> False
   | Some v \<Rightarrow> (case until_of v of None \<Rightarrow> False | Some t \<Rightarrow> t = 0 \<or> t > now))"

abbreviation thaw :: "url \<Rightarrow> keyspace \<Rightarrow> keyspace" where
  "thaw u d \<equiv> put_field keyDead u None d"

definition admits_video :: "url \<Rightarrow> int \<Rightarrow> keyspace \<Rightarrow> int \<Rightarrow> keyspace \<Rightarrow> bool" where
  "admits_video u now d r d' \<longleftrightarrow>
     (if blocked d u now then r = 0 \<and> d' = d
      else if u \<in> bloom d then r = 0 \<and> d' = bump (thaw u d)
      else r = 1 \<and> (\<exists>P. insert u (bloom d) \<subseteq> P \<and>
             d' = (push_job u (thaw u d))\<lparr>filters := (filters d)(bloomKey := P)\<rparr>))"

definition spec_admit_listing :: "url \<Rightarrow> int \<Rightarrow> keyspace \<Rightarrow> int \<times> keyspace" where
  "spec_admit_listing u now d =
     (if blocked d u now then (0, d)
      else case listing_next d u of
        None \<Rightarrow> (1, put_score keyListingNext u (Some PendingScore) (push_job u (thaw u d)))
      | Some due \<Rightarrow> if due > now then (0, thaw u d)
          else (2, put_score keyListingNext u (Some PendingScore) (push_job u (thaw u d))))"

lemma thaw_same [simp]: "dead d u = None \<Longrightarrow> thaw u d = d"
  by (simp add: fun_upd_idem)

lemma dead_until: "values_inv d \<Longrightarrow> dead d u = Some v \<Longrightarrow> \<exists>t. until_of v = Some t \<and> 0 \<le> t"
  using dead_entryD by (force simp: values_inv_def)

lemma luaAdmitVideo_total:
  assumes "frontier_inv d" "values_inv d" "job_seq d < id_limit"
  shows "wp False (luaAdmitVideo u now) d (\<lambda>r e. \<exists>n. r = Inr n \<and> admits_video u now d n e)"
proof (cases "dead d u")
  case None
  with frontier_seq [OF assms(1,3)] show ?thesis
    by (auto simp: luaAdmitVideo_def Let_def admits_video_def blocked_def push_job_def bump_def
        next_member_def)
next
  case (Some v)
  with dead_until [OF assms(2) Some] frontier_seq [OF assms(1,3)] show ?thesis
    by (auto simp: luaAdmitVideo_def Let_def admits_video_def blocked_def push_job_def bump_def
        next_member_def)
qed

lemma luaAdmitListing_total:
  assumes "frontier_inv d" "values_inv d" "job_seq d < id_limit" "spec_admit_listing u now d = (x, d')"
  shows "wp False (luaAdmitListing u now PendingScore) d (\<lambda>r e. r = Inr x \<and> e = d')"
proof (cases "dead d u")
  case None
  with assms(4) frontier_seq [OF assms(1,3)] show ?thesis
    by (auto simp: luaAdmitListing_def Let_def spec_admit_listing_def blocked_def push_job_def bump_def
        next_member_def split: option.splits if_splits)
next
  case (Some v)
  with assms(4) dead_until [OF assms(2) Some] frontier_seq [OF assms(1,3)] show ?thesis
    by (auto simp: luaAdmitListing_def Let_def spec_admit_listing_def blocked_def push_job_def bump_def
        next_member_def split: option.splits if_splits)
qed

section \<open>Reconcilers\<close>

definition url_of :: "member \<Rightarrow> url" where
  "url_of m = (case after_bar m of None \<Rightarrow> [] | Some u \<Rightarrow> u)"

definition carries_url :: "member \<Rightarrow> bool" where
  "carries_url m \<longleftrightarrow> after_bar m \<noteq> None"

text \<open>Room for \<open>k\<close> more identifiers.\<close>

definition seq_room :: "nat \<Rightarrow> keyspace \<Rightarrow> bool" where
  "seq_room k d \<longleftrightarrow> counter (strs d keyJobSeq) = Some (job_seq d) \<and> 0 \<le> job_seq d \<and>
     job_seq d + int k \<le> id_limit"

definition promote1 :: "member \<Rightarrow> keyspace \<Rightarrow> keyspace" where
  "promote1 m d = put_score keyDelayed m None (push_job (url_of m) d)"

definition requeue1 :: "member \<Rightarrow> keyspace \<Rightarrow> keyspace" where
  "requeue1 m d = drop_job m (push_job (url_of m) d)"

definition schedule1 :: "int \<Rightarrow> url \<Rightarrow> keyspace \<Rightarrow> keyspace" where
  "schedule1 now u d =
     (case dead d u of
        None \<Rightarrow> put_score keyListingNext u (Some PendingScore) (push_job u d)
      | Some v \<Rightarrow> (case until_of v of
          None \<Rightarrow> d
        | Some t \<Rightarrow> if t = 0 then put_score keyListingNext u None d
            else if t > now then put_score keyListingNext u (Some t) d
            else put_score keyListingNext u (Some PendingScore) (push_job u (thaw u d))))"

lemma seq_room_push:
  "seq_room (Suc k) d \<Longrightarrow> in_int64 (job_seq d + 1) \<and> counter (strs d keyJobSeq) = Some (job_seq d)"
  by (auto simp: seq_room_def in_int64_def id_limit_def)

lemma job_seq_bump: "in_int64 (job_seq d + 1) \<Longrightarrow> job_seq (bump d) = job_seq d + 1"
  by (simp add: bump_def job_seq_def)

lemma seq_room_bump: "seq_room (Suc k) d \<Longrightarrow> seq_room k (bump d)"
  using seq_room_push [of k d] job_seq_bump [of d] by (auto simp: seq_room_def) (simp add: bump_def)

lemma seq_room_upd [simp]:
  "seq_room k (d\<lparr>lists := l\<rparr>) = seq_room k d" "seq_room k (d\<lparr>zsets := z\<rparr>) = seq_room k d"
  "seq_room k (d\<lparr>hashes := h\<rparr>) = seq_room k d"
  by (simp_all add: seq_room_def)

lemma seq_room_less: "seq_room (Suc k) d \<Longrightarrow> seq_room k d"
  by (simp add: seq_room_def)

lemma url_of_carries: "carries_url m \<Longrightarrow> after_bar m = Some (url_of m)"
  by (auto simp: carries_url_def url_of_def)

text \<open>One turn of a loop: the remaining turns start from the specified contents.\<close>

lemma wp_turn:
  assumes "wp F sc d Q" "d' = d" "\<And>r e. Q r e \<Longrightarrow> Q' r e"
  shows "wp F sc d' Q'"
  using assms wp_mono by metis

lemma promote_due_total:
  "seq_room (length ms) d \<Longrightarrow> \<forall>m \<in> set ms. carries_url m \<Longrightarrow>
     wp False (promote_due ms n) d (\<lambda>r e. r = Inr n \<and> e = fold promote1 ms d)"
proof (induction ms arbitrary: d)
  case (Cons m ms)
  let ?d = "promote1 m d"
  from Cons.prems have m: "after_bar m = Some (url_of m)" and s: "in_int64 (job_seq d + 1)"
    "counter (strs d keyJobSeq) = Some (job_seq d)"
    using url_of_carries [of m] seq_room_push [of "length ms" d] by auto
  have "seq_room (length ms) ?d"
    using Cons.prems(1) seq_room_bump by (simp add: promote1_def push_job_def)
  then have "wp False (promote_due ms n) ?d (\<lambda>r e. r = Inr n \<and> e = fold promote1 ms ?d)"
    using Cons by simp
  note turn = wp_turn [OF this]
  show ?case
    using m s by (simp, intro turn) (simp_all add: promote1_def push_job_def bump_def next_member_def)
qed simp

lemma reap_expired_total:
  "seq_room (length ms) d \<Longrightarrow> \<forall>m \<in> set ms. carries_url m \<and> lease d m \<noteq> None \<Longrightarrow> distinct ms \<Longrightarrow>
     wp False (reap_expired ms n) d (\<lambda>r e. r = Inr (n + int (length ms)) \<and> e = fold requeue1 ms d)"
proof (induction ms arbitrary: d n)
  case (Cons m ms)
  let ?d = "requeue1 m d"
  from Cons.prems have m: "after_bar m = Some (url_of m)" and s: "in_int64 (job_seq d + 1)"
    "counter (strs d keyJobSeq) = Some (job_seq d)"
    using url_of_carries [of m] seq_room_push [of "length ms" d] by auto
  have "seq_room (length ms) ?d"
    using Cons.prems(1) seq_room_bump by (simp add: requeue1_def drop_job_def push_job_def)
  moreover have "\<forall>x \<in> set ms. carries_url x \<and> lease ?d x \<noteq> None"
    using Cons.prems by (auto simp: requeue1_def drop_job_def push_job_def bump_def)
  ultimately have "wp False (reap_expired ms (n + 1)) ?d
      (\<lambda>r e. r = Inr (n + 1 + int (length ms)) \<and> e = fold requeue1 ms ?d)"
    using Cons by simp
  note turn = wp_turn [OF this]
  obtain y where "lease d m = Some y" using Cons.prems by auto
  then show ?case
    using m s by (simp, intro turn)
      (simp_all add: requeue1_def drop_job_def push_job_def bump_def next_member_def)
qed simp

text \<open>The scanned members without a lease are requeued, the others stay.\<close>

lemma requeue1_lease: "lease d m = None \<Longrightarrow> lease (requeue1 m d) = lease d"
  by (auto simp: requeue1_def drop_job_def push_job_def bump_def)

lemma sweep_items_total:
  "seq_room (length ms) d \<Longrightarrow> \<forall>m \<in> set ms. carries_url m \<Longrightarrow>
     wp False (sweep_items ms n) d (\<lambda>r e.
       r = Inr (n + int (length (filter (\<lambda>m. lease d m = None) ms))) \<and>
       e = fold requeue1 (filter (\<lambda>m. lease d m = None) ms) d)"
proof (induction ms arbitrary: d n)
  case (Cons m ms)
  show ?case
  proof (cases "lease d m")
    case None
    let ?d = "requeue1 m d"
    from Cons.prems have m: "after_bar m = Some (url_of m)" and s: "in_int64 (job_seq d + 1)"
      "counter (strs d keyJobSeq) = Some (job_seq d)"
      using url_of_carries [of m] seq_room_push [of "length ms" d] by auto
    have "seq_room (length ms) ?d"
      using Cons.prems(1) seq_room_bump by (simp add: requeue1_def drop_job_def push_job_def)
    with Cons.IH [of ?d "n + 1"] Cons.prems
    have "wp False (sweep_items ms (n + 1)) ?d (\<lambda>r e.
       r = Inr (n + 1 + int (length (filter (\<lambda>m. lease d m = None) ms))) \<and>
       e = fold requeue1 (filter (\<lambda>m. lease d m = None) ms) ?d)"
      by (simp add: requeue1_lease [OF None])
    note turn = wp_turn [OF this]
    show ?thesis
      using m s None by (simp, intro turn)
        (simp_all add: requeue1_def drop_job_def push_job_def bump_def next_member_def fun_upd_idem)
  next
    case (Some y)
    with Cons.IH [of d n] Cons.prems seq_room_less show ?thesis by simp
  qed
qed simp

lemma schedule1_room:
  assumes "seq_room (Suc k) d"
  shows "seq_room k (schedule1 now u d)"
  using seq_room_bump [OF assms] seq_room_less [OF assms] seq_room_bump [of k "thaw u d"] assms
  by (auto simp: schedule1_def push_job_def split: option.split)

text \<open>The number of listings a pass of the scheduler pushes.\<close>

lemma schedule_due_total:
  "seq_room (length us) d \<Longrightarrow> values_inv d \<Longrightarrow> distinct us \<Longrightarrow>
     wp False (schedule_due now PendingScore us n) d (\<lambda>r e.
       r = Inr (n + int (length (filter (\<lambda>u. \<not> blocked d u now) us))) \<and>
       e = fold (schedule1 now) us d)"
proof (induction us arbitrary: d n)
  case (Cons u us)
  let ?d = "schedule1 now u d"
  have s: "in_int64 (job_seq d + 1)" "counter (strs d keyJobSeq) = Some (job_seq d)"
    using Cons.prems(1) seq_room_push [of "length us" d] by auto
  have other: "dead ?d v = dead d v" if "v \<noteq> u" for v
    using that by (auto simp: schedule1_def push_job_def bump_def split: option.split)
  have vals: "values_inv ?d"
    using Cons.prems(2)
    by (auto simp: schedule1_def push_job_def bump_def values_inv_def split: option.split)
  have same: "filter (\<lambda>v. \<not> blocked ?d v now) us = filter (\<lambda>v. \<not> blocked d v now) us"
    using Cons.prems(3) other by (intro filter_cong refl) (metis blocked_def distinct.simps(2))
  have IH: "wp False (schedule_due now PendingScore us n') ?d (\<lambda>r e.
       r = Inr (n' + int (length (filter (\<lambda>u. \<not> blocked d u now) us))) \<and>
       e = fold (schedule1 now) us ?d)" for n'
    using Cons.IH [of ?d n'] Cons.prems schedule1_room vals same by simp
  show ?case
  proof (cases "dead d u")
    case None
    then have "\<not> blocked d u now" by (simp add: blocked_def)
    with None show ?thesis
      using s by (simp add: Let_def, intro wp_turn [OF IH [of "n + 1"]])
        (simp_all add: schedule1_def push_job_def bump_def next_member_def)
  next
    case (Some v)
    then obtain t where t: "until_of v = Some t" "0 \<le> t" using Cons.prems(2) dead_until by blast
    have b: "blocked d u now \<longleftrightarrow> t = 0 \<or> t > now" using Some t by (simp add: blocked_def)
    consider "t = 0" | "t > now" "t \<noteq> 0" | "t \<noteq> 0" "\<not> t > now" by blast
    then show ?thesis
    proof cases
      case 3
      with Some t s b show ?thesis
        by (simp add: Let_def, intro wp_turn [OF IH [of "n + 1"]])
          (simp_all add: schedule1_def push_job_def bump_def next_member_def)
    qed (use Some t s b in \<open>simp add: Let_def, intro wp_turn [OF IH [of n]];
          simp add: schedule1_def\<close>)+
  qed
qed simp

section \<open>What the passes of the reconcilers amount to\<close>

lemma url_of_next [simp]: "url_of (next_member d u) = u"
  by (simp add: next_member_def url_of_def)

lemma push_job_get [simp]:
  "ready (push_job u d) = next_member d u # ready d" "processing (push_job u d) = processing d"
  "zsets (push_job u d) = zsets d" "hashes (push_job u d) = hashes d" "filters (push_job u d) = filters d"
  by (simp_all add: push_job_def bump_def)

lemma drop_job_get [simp]:
  "ready (drop_job m d) = ready d" "processing (drop_job m d) = remove1 m (processing d)"
  "lease (drop_job m d) = (lease d)(m := None)" "delayed (drop_job m d) = delayed d"
  "listing_next (drop_job m d) = listing_next d" "hashes (drop_job m d) = hashes d"
  "filters (drop_job m d) = filters d"
  by (simp_all add: drop_job_def)

text \<open>The URLs waiting for a worker, the next one first.\<close>

definition queue :: "keyspace \<Rightarrow> url list" where
  "queue d = rev (map url_of (ready d))"

lemma queue_push [simp]: "queue (push_job u d) = queue d @ [u]"
  by (simp add: queue_def)

lemma queue_upd [simp]:
  "queue (d\<lparr>zsets := z\<rparr>) = queue d" "queue (d\<lparr>hashes := h\<rparr>) = queue d"
  "queue (d\<lparr>strs := t\<rparr>) = queue d" "queue (d\<lparr>filters := f\<rparr>) = queue d"
  "queue (drop_job m d) = queue d"
  by (simp_all add: queue_def)

lemma fold_promote1:
  "queue (fold promote1 ms d) = queue d @ map url_of ms"
  "delayed (fold promote1 ms d) = delayed d |` (- set ms)"
  "processing (fold promote1 ms d) = processing d" "lease (fold promote1 ms d) = lease d"
  "listing_next (fold promote1 ms d) = listing_next d" "hashes (fold promote1 ms d) = hashes d"
  "bloom (fold promote1 ms d) = bloom d"
  by (induction ms arbitrary: d) (auto simp: promote1_def restrict_map_def fun_eq_iff)

lemma fold_requeue1:
  "queue (fold requeue1 ms d) = queue d @ map url_of ms"
  "lease (fold requeue1 ms d) = lease d |` (- set ms)"
  "delayed (fold requeue1 ms d) = delayed d" "listing_next (fold requeue1 ms d) = listing_next d"
  "hashes (fold requeue1 ms d) = hashes d" "bloom (fold requeue1 ms d) = bloom d"
  by (induction ms arbitrary: d) (auto simp: requeue1_def restrict_map_def fun_eq_iff)

lemma fold_requeue1_processing:
  "distinct (processing d) \<Longrightarrow>
     processing (fold requeue1 ms d) = filter (\<lambda>m. m \<notin> set ms) (processing d)"
proof (induction ms arbitrary: d)
  case (Cons m ms)
  have "distinct (processing (requeue1 m d))"
    using Cons.prems by (simp add: requeue1_def)
  then have "processing (fold requeue1 (m # ms) d) = filter (\<lambda>x. x \<notin> set ms) (processing (requeue1 m d))"
    using Cons.IH by simp
  moreover have "processing (requeue1 m d) = filter (\<lambda>x. x \<noteq> m) (processing d)"
    using Cons.prems
    by (simp add: requeue1_def distinct_remove1_removeAll removeAll_filter_not_eq eq_commute)
  ultimately show ?case by (simp add: conj_commute)
qed simp

lemma schedule1_other:
  "processing (schedule1 now u d) = processing d" "lease (schedule1 now u d) = lease d"
  "delayed (schedule1 now u d) = delayed d" "bloom (schedule1 now u d) = bloom d"
  "v \<noteq> u \<Longrightarrow> dead (schedule1 now u d) v = dead d v"
  "v \<noteq> u \<Longrightarrow> listing_next (schedule1 now u d) v = listing_next d v"
  by (auto simp: schedule1_def split: option.split)

text \<open>The score the scheduler leaves on a due listing, and whether it queues the listing.\<close>

definition rescheduled :: "int \<Rightarrow> keyspace \<Rightarrow> url \<Rightarrow> int option" where
  "rescheduled now d u =
     (if blocked d u now then (case Option.bind (dead d u) until_of of
        Some t \<Rightarrow> if t = 0 then None else Some t | None \<Rightarrow> None)
      else Some PendingScore)"

lemma schedule1_self:
  assumes "values_inv d"
  shows "queue (schedule1 now u d) = queue d @ (if blocked d u now then [] else [u])"
    "listing_next (schedule1 now u d) u = rescheduled now d u"
    "values_inv (schedule1 now u d)"
proof -
  show "values_inv (schedule1 now u d)"
    using assms by (auto simp: schedule1_def values_inv_def split: option.split)
  show "queue (schedule1 now u d) = queue d @ (if blocked d u now then [] else [u])"
    using dead_until [OF assms, of u]
    by (cases "dead d u") (auto simp: schedule1_def blocked_def)
  show "listing_next (schedule1 now u d) u = rescheduled now d u"
    using dead_until [OF assms, of u]
    by (cases "dead d u") (auto simp: schedule1_def blocked_def rescheduled_def)
qed

lemma fold_schedule1_other:
  "processing (fold (schedule1 now) us d) = processing d" "lease (fold (schedule1 now) us d) = lease d"
  "delayed (fold (schedule1 now) us d) = delayed d" "bloom (fold (schedule1 now) us d) = bloom d"
  "v \<notin> set us \<Longrightarrow> dead (fold (schedule1 now) us d) v = dead d v"
  "v \<notin> set us \<Longrightarrow> listing_next (fold (schedule1 now) us d) v = listing_next d v"
  by (induction us arbitrary: d) (auto simp: schedule1_other)

lemma blocked_cong: "dead d u = dead d' u \<Longrightarrow> blocked d u now = blocked d' u now"
  by (simp add: blocked_def)

lemma rescheduled_cong: "dead d u = dead d' u \<Longrightarrow> rescheduled now d u = rescheduled now d' u"
  by (simp add: rescheduled_def blocked_cong [of d u d'])

lemma fold_schedule1:
  assumes "values_inv d" "distinct us"
  shows "queue (fold (schedule1 now) us d) = queue d @ filter (\<lambda>u. \<not> blocked d u now) us \<and>
    (\<forall>u \<in> set us. listing_next (fold (schedule1 now) us d) u = rescheduled now d u)"
  using assms
proof (induction us arbitrary: d)
  case (Cons v us)
  let ?d = "schedule1 now v d"
  have same: "dead ?d x = dead d x" if "x \<in> set us" for x
    using Cons.prems(2) that schedule1_other(5) [of x v now d] by auto
  have "filter (\<lambda>u. \<not> blocked ?d u now) us = filter (\<lambda>u. \<not> blocked d u now) us"
    using same blocked_cong by (intro filter_cong refl) metis
  moreover have "rescheduled now ?d u = rescheduled now d u" if "u \<in> set us" for u
    using same [OF that] rescheduled_cong by metis
  ultimately show ?case
    using Cons.IH [of ?d] Cons.prems by (simp add: schedule1_self fold_schedule1_other)
qed simp

end
