(* ===== verification/Frontier_Contract.thy ===== *)
theory Frontier_Contract
  imports Frontier_Spec
begin

text \<open>
  What the callers of the frontier rely on, as the locale \<open>frontier_client\<close>: every method, however
  the call fares on the network, is a sequence of script executions on well-formed arguments. It is proved
  for \<open>NewFrontier\<close> over every server. The last sections show that on a reliable server a delivered call
  answers, and play operations on the reference server.
\<close>

section \<open>Every queued member carries a URL\<close>

definition barred :: "keyspace \<Rightarrow> bool" where
  "barred d \<longleftrightarrow> (\<forall>m \<in> set (ready d) \<union> set (processing d) \<union> dom (delayed d). carries_url m)"

fun cmd_barred :: "cmd \<Rightarrow> bool" where
  "cmd_barred (LPUSH k e) \<longleftrightarrow> carries_url e"
| "cmd_barred (ZADD k sc m) \<longleftrightarrow> (k = keyDelayed \<longrightarrow> carries_url m)"
| "cmd_barred (ZADDNX k sc m) \<longleftrightarrow> k \<noteq> keyDelayed"
| "cmd_barred (LMOVE a b x y) \<longleftrightarrow> a = keyReady \<and> b = keyProcessing \<and> x = RIGHT \<and> y = LEFT"
| "cmd_barred _ \<longleftrightarrow> True"

lemma carries_url_minted [simp]: "carries_url (lua_tostring n @ CHR ''|'' # u)"
  by (simp add: carries_url_def)

lemma set_remove1_powD: "y \<in> set ((remove1 x ^^ n) xs) \<Longrightarrow> y \<in> set xs"
  by (induction n) (auto dest: notin_set_remove1)

lemma barred_cmd:
  assumes "cmd_barred c" "barred d" "redis_doc c d v d'"
  shows "barred d'"
proof (cases c)
  case (LMOVE a b x y)
  with assms show ?thesis
    by (auto simp: barred_def Let_def split: if_splits dest: in_set_butlastD)
next
  case (LREM k n e)
  with assms show ?thesis
    by (auto simp: barred_def dest!: set_remove1_powD)
qed (use assms in \<open>auto simp: barred_def split: if_splits\<close>)

lemma loops_barred:
  "all_cmds cmd_barred (schedule_due now p us n)" "all_cmds cmd_barred (promote_due ms n)"
  "all_cmds cmd_barred (reap_expired ms n)" "all_cmds cmd_barred (sweep_items ms n)"
proof -
  show "all_cmds cmd_barred (schedule_due now p us n)"
    by (induction us arbitrary: n) (auto simp: command_defs mint_def Let_def split: option.split)
  show "all_cmds cmd_barred (promote_due ms n)"
    by (induction ms arbitrary: n) (auto simp: command_defs mint_def split: option.split)
  show "all_cmds cmd_barred (reap_expired ms n)"
    by (induction ms arbitrary: n) (auto simp: command_defs mint_def split: option.split)
  show "all_cmds cmd_barred (sweep_items ms n)"
    by (induction ms arbitrary: n)
      (auto simp: command_defs mint_def split: option.split intro!: all_cmds_score_reply)
qed

lemma op_cmds_barred: "all_cmds cmd_barred (op_script op)"
  by (cases op)
    (auto simp: script_defs command_defs mint_def seedListing_def Let_def loops_barred
      split: option.split intro!: all_cmds_score_reply)

lemma op_barred: "barred d \<Longrightarrow> wp True (op_script op) d (\<lambda>_ d'. barred d')"
  by (rule wp_all_cmds [OF op_cmds_barred]) (auto intro: barred_cmd)

section \<open>Methods as traces\<close>

lemma run_map_script:
  "run call (map_script f sc) s = (map_sum id f (fst (run call sc s)), snd (run call sc s))"
  by (induction sc arbitrary: s) (auto split: prod.splits sum.splits)

lemma trace_one:
  assumes "run call sc s = (r, s')" "op_script op = map_script f sc"
  shows "server_trace call s [(op, map_sum id f r)] s'"
  using server_trace.trace_step [OF server_trace.trace_empty, of call op s "map_sum id f r" s']
    run_map_script [of call f sc s] assms by simp

lemma executions_trace:
  assumes "op_script op = map_script f sc"
  shows "\<exists>tr. server_trace call s tr (executions call n sc s) \<and> (\<forall>ev \<in> set tr. fst ev = op)"
proof (induction n arbitrary: s)
  case (Suc n)
  obtain r s1 where r: "run call sc s = (r, s1)" by fastforce
  obtain tr where tr: "server_trace call s1 tr (executions call n sc s1)" "\<forall>ev \<in> set tr. fst ev = op"
    using Suc.IH [of s1] by (elim exE conjE)
  have "server_trace call s ([(op, map_sum id f r)] @ tr) (executions call n sc s1)"
    by (rule server_trace_append [OF tr(1) trace_one [OF r assms]])
  with r tr(2) show ?case by (intro exI [of _ "(op, map_sum id f r) # tr"]) simp
qed (simp add: exI [of _ "[]"])

text \<open>A call is some executions of one operation; if it answers, the last one gave the answer.\<close>

lemma rpc_trace:
  assumes "rpc call e sc s = (r, s')" "op_script op = map_script f sc"
  shows "\<exists>tr. server_trace call s tr s' \<and> (\<forall>ev \<in> set tr. fst ev = op) \<and>
    (\<forall>v. r = Inr v \<longrightarrow> (\<exists>tr'. tr = tr' @ [(op, Inr (f v))]))"
proof -
  let ?s1 = "executions call (lost e) sc s"
  obtain tr where tr: "server_trace call s tr ?s1" "\<forall>ev \<in> set tr. fst ev = op"
    using executions_trace [OF assms(2), of call s "lost e"] by (elim exE conjE)
  show ?thesis
  proof (cases "fate e")
    case (Some err)
    with assms(1) tr show ?thesis by (auto simp: rpc_def)
  next
    case None
    obtain x s2 where x: "run call sc ?s1 = (x, s2)" by fastforce
    have "server_trace call s (tr @ [(op, map_sum id f x)]) s2"
      by (rule server_trace_append [OF trace_one [OF x assms(2)] tr(1)])
    moreover have "s' = s2" "r = Inr v \<Longrightarrow> x = Inr v" for v
      using None x assms(1) by (auto simp: rpc_def Let_def split: sum.splits)
    ultimately show ?thesis
      using tr(2) by (intro exI [of _ "tr @ [(op, map_sum id f x)]"]) auto
  qed
qed

lemma on_reply_Pair: "on_reply f x = (r, s') \<Longrightarrow> \<exists>r0. x = (r0, s')"
  by (cases x) (auto simp: on_reply_def split: sum.splits)

text \<open>From one state to another by operations of one kind.\<close>

definition via :: "('s \<Rightarrow> event list \<Rightarrow> 's \<Rightarrow> bool) \<Rightarrow> (frontier_op \<Rightarrow> bool) \<Rightarrow> 's \<Rightarrow> 's \<Rightarrow> bool" where
  "via trace P s s' \<longleftrightarrow> (\<exists>tr. trace s tr s' \<and> (\<forall>ev \<in> set tr. P (fst ev)))"

lemma rpc_via:
  assumes "rpc call e sc s = (r, s')" "op_script op = map_script f sc"
  shows "via (server_trace call) (\<lambda>x. x = op) s s'"
  using rpc_trace [OF assms] by (auto simp: via_def)

lemma on_reply_via:
  assumes "on_reply g (rpc call e sc s) = (r, s')" "op_script op = map_script f sc"
  shows "via (server_trace call) (\<lambda>x. x = op) s s'"
  using on_reply_Pair [OF assms(1)] rpc_via [OF _ assms(2)] by metis

lemma via_mono: "via trace P s s' \<Longrightarrow> (\<And>op. P op \<Longrightarrow> Q op) \<Longrightarrow> via trace Q s s'"
  by (auto simp: via_def)

definition job_wf :: "Job \<Rightarrow> bool" where
  "job_wf j \<longleftrightarrow> splitMember (member j) = (ID j, URL j)"

definition fail_op :: "FrontierConfig \<Rightarrow> Job \<Rightarrow> frontier_op \<Rightarrow> bool" where
  "fail_op cfg j op \<longleftrightarrow> (\<exists>argv inc mx now r t. op = OFail argv (member j) (URL j) inc mx (unix now) r t \<and>
     r \<in> {''rate_limited'', ''strikes_exhausted''} \<and> t = quarantineUntil cfg (Class j) now)"

locale frontier_client =
  fixes F :: "'s frontier_methods"
    and cfg :: FrontierConfig
    and trace :: "'s \<Rightarrow> event list \<Rightarrow> 's \<Rightarrow> bool"
  assumes trace_refl: "trace s [] s"
    and trace_app: "trace s a s1 \<Longrightarrow> trace s1 b s2 \<Longrightarrow> trace s (a @ b) s2"
    and admit_video_via: "fr_AdmitVideo F e u s = (ra, s') \<Longrightarrow>
      via trace (\<lambda>op. op = OAdmitVideo u (unix (clock e))) s s'"
    and admit_listing_via: "fr_AdmitListing F e u s = (ra, s') \<Longrightarrow>
      via trace (\<lambda>op. op = OAdmitListing u (unix (clock e))) s s'"
    and seed_via: "fr_SeedListing F e u s = (ru, s') \<Longrightarrow> via trace (\<lambda>op. op = OSeedListing u) s s'"
    and lease_via: "fr_Lease F e s = (rj, s') \<Longrightarrow> via trace (\<lambda>op. \<exists>now t. op = OLease now t) s s'"
    and lease_wf: "fr_Lease F e s = (Inr (Some j), s') \<Longrightarrow> job_wf j"
    and lease_handed: "fr_Lease F e s = (Inr (Some j), s') \<Longrightarrow>
      \<exists>tr. trace s tr s' \<and> (\<forall>ev \<in> set tr. \<exists>now t. fst ev = OLease now t) \<and> member j \<in> set (handed tr)"
    and ack_via: "fr_Ack F e j s = (ru, s') \<Longrightarrow> via trace (\<lambda>op. op = OAck (member j) (URL j)) s s'"
    and nack_via: "fr_Nack F e j s = (ru, s') \<Longrightarrow> via trace (\<lambda>op. op = ONack (member j) (URL j)) s s'"
    and fail_via: "fr_Fail F e j c s = (rd, s') \<Longrightarrow> via trace (fail_op cfg j) s s'"
    and terminal_via: "fr_Terminal F e j reason until s = (ru, s') \<Longrightarrow>
      via trace (\<lambda>op. op = OTerminal (member j) (URL j) reason (unixOrZero until)) s s'"
    and complete_via: "fr_CompleteListing F e j n s = (ru, s') \<Longrightarrow>
      via trace (\<lambda>op. \<exists>now b mx. op = OComplete (member j) (URL j) n now b mx) s s'"
    and reap_via: "fr_Reap F e s = (ri, s') \<Longrightarrow> via trace (\<lambda>op. \<exists>now l. op = OReap now l) s s'"
    and sweep_via: "fr_Sweep F e s = (ri, s') \<Longrightarrow> via trace (\<lambda>op. \<exists>l. op = OSweep l) s s'"
    and promote_via: "fr_Promote F e s = (ri, s') \<Longrightarrow> via trace (\<lambda>op. \<exists>now l. op = OPromote now l) s s'"
    and schedule_via: "fr_RunListingScheduler F e s = (ri, s') \<Longrightarrow>
      via trace (\<lambda>op. \<exists>now l. op = OSchedule now l) s s'"
begin

lemma via_refl: "via trace P s s"
  using trace_refl by (force simp: via_def)

lemma via_trans: "via trace P s s1 \<Longrightarrow> via trace P s1 s2 \<Longrightarrow> via trace P s s2"
  unfolding via_def using trace_app by (metis Un_iff set_append)

end

lemma Lease_wf:
  assumes "Lease call cfg cl e s = (Inr (Some j), s')"
  shows "job_wf j"
  using assms
  by (auto simp: Lease_def on_reply_def job_wf_def Let_def split: prod.splits sum.splits option.splits)

lemma Lease_handed:
  assumes "Lease call cfg cl e s = (Inr (Some j), s')"
  shows "\<exists>tr. server_trace call s tr s' \<and> (\<forall>ev \<in> set tr. \<exists>now t. fst ev = OLease now t) \<and>
    member j \<in> set (handed tr)"
proof -
  let ?now = "unix (clock e)" and ?t = "whole_seconds (LeaseTimeout cfg)"
  obtain m where m: "rpc call e (luaLease ?now ?t) s = (Inr (Some m), s')" "member j = m"
    using assms by (auto simp: Lease_def on_reply_def Let_def split: prod.splits sum.splits option.splits)
  obtain tr where tr: "server_trace call s tr s'" "\<forall>ev \<in> set tr. fst ev = OLease ?now ?t"
    "\<forall>v. (Inr (Some m) :: go_error + member option) = Inr v \<longrightarrow> (\<exists>tr'. tr = tr' @ [(OLease ?now ?t, Inr (Item v))])"
    using rpc_trace [OF m(1), of "OLease ?now ?t" Item] by (auto simp del: split_paired_Ex)
  obtain tr' where "tr = tr' @ [(OLease ?now ?t, Inr (Item (Some m)))]"
    using tr(3) by blast
  then have "m \<in> set (handed tr)" by (simp add: handed_event_def)
  with tr(1,2) m(2) show ?thesis by blast
qed

lemma fail_script_via:
  assumes "on_reply g (rpc call e (fail_script cfg j c now) s) = (r, s')"
  shows "via (server_trace call) (fail_op cfg j) s s'"
proof -
  obtain argv inc mx r0 where f: "fail_script cfg j c now =
      luaFail argv (member j) (URL j) inc mx (unix now) r0 (quarantineUntil cfg (Class j) now)"
    "r0 \<in> {''rate_limited'', ''strikes_exhausted''}"
    by (cases c) (auto simp: fail_script_def Let_def)
  have "via (server_trace call)
      (\<lambda>x. x = OFail argv (member j) (URL j) inc mx (unix now) r0 (quarantineUntil cfg (Class j) now)) s s'"
    by (rule on_reply_via [OF assms, of _ Text]) (simp add: f(1))
  then show ?thesis
    by (rule via_mono) (use f(2) in \<open>auto simp: fail_op_def\<close>)
qed

lemmas method_defs =
  AdmitVideo_def AdmitListing_def SeedListing_def Lease_def Ack_def Nack_def Fail_def Terminal_def
  CompleteListing_def Reap_def Sweep_def Promote_def RunListingScheduler_def

interpretation new_frontier: frontier_client "NewFrontier call cfg cl" cfg "server_trace call"
proof unfold_locales
  fix s e u j reason until n
  show "server_trace call s [] s" by simp
  show "server_trace call s (a @ b) s2" if "server_trace call s a s1" "server_trace call s1 b s2" for a b s1 s2
    using server_trace_append [OF that(2,1)] .
  show "via (server_trace call) (\<lambda>op. op = OAdmitVideo u (unix (clock e))) s s'"
    if "fr_AdmitVideo (NewFrontier call cfg cl) e u s = (r, s')" for r s'
    using that by (auto simp: NewFrontier_def method_defs intro: on_reply_via [where f = Num])
  show "via (server_trace call) (\<lambda>op. op = OAdmitListing u (unix (clock e))) s s'"
    if "fr_AdmitListing (NewFrontier call cfg cl) e u s = (r, s')" for r s'
    using that by (auto simp: NewFrontier_def method_defs intro: on_reply_via [where f = Num])
  show "via (server_trace call) (\<lambda>op. op = OSeedListing u) s s'"
    if "fr_SeedListing (NewFrontier call cfg cl) e u s = (r, s')" for r s'
    using that by (auto simp: NewFrontier_def method_defs intro: on_reply_via [where f = Num])
  show "via (server_trace call) (\<lambda>op. \<exists>now t. op = OLease now t) s s'"
    if "fr_Lease (NewFrontier call cfg cl) e s = (r, s')" for r s'
    using that by (auto simp: NewFrontier_def method_defs
        intro!: via_mono [OF on_reply_via [where f = Item and op = "OLease now t" for now t]])
  show "job_wf j" if "fr_Lease (NewFrontier call cfg cl) e s = (Inr (Some j), s')" for s'
    using that Lease_wf by (auto simp: NewFrontier_def)
  show "\<exists>tr. server_trace call s tr s' \<and> (\<forall>ev \<in> set tr. \<exists>now t. fst ev = OLease now t) \<and> member j \<in> set (handed tr)"
    if "fr_Lease (NewFrontier call cfg cl) e s = (Inr (Some j), s')" for s'
    using that Lease_handed by (auto simp: NewFrontier_def)
  show "via (server_trace call) (\<lambda>op. op = OAck (member j) (URL j)) s s'"
    if "fr_Ack (NewFrontier call cfg cl) e j s = (r, s')" for r s'
    using that by (auto simp: NewFrontier_def method_defs intro: on_reply_via [where f = Text])
  show "via (server_trace call) (\<lambda>op. op = ONack (member j) (URL j)) s s'"
    if "fr_Nack (NewFrontier call cfg cl) e j s = (r, s')" for r s'
    using that by (auto simp: NewFrontier_def method_defs intro: on_reply_via [where f = Text])
  show "via (server_trace call) (fail_op cfg j) s s'"
    if "fr_Fail (NewFrontier call cfg cl) e j c s = (r, s')" for c r s'
    using that by (auto simp: NewFrontier_def method_defs intro: fail_script_via)
  show "via (server_trace call) (\<lambda>op. op = OTerminal (member j) (URL j) reason (unixOrZero until)) s s'"
    if "fr_Terminal (NewFrontier call cfg cl) e j reason until s = (r, s')" for r s'
    using that by (auto simp: NewFrontier_def method_defs intro: on_reply_via [where f = Text])
  show "via (server_trace call) (\<lambda>op. \<exists>now b mx. op = OComplete (member j) (URL j) n now b mx) s s'"
    if "fr_CompleteListing (NewFrontier call cfg cl) e j n s = (r, s')" for r s'
    using that by (auto simp: NewFrontier_def method_defs Let_def intro!: via_mono
        [OF on_reply_via [where f = Text and op = "OComplete (member j) (URL j) n now b mx" for now b mx]])
  show "via (server_trace call) (\<lambda>op. \<exists>now l. op = OReap now l) s s'"
    if "fr_Reap (NewFrontier call cfg cl) e s = (r, s')" for r s'
    using that by (auto simp: NewFrontier_def method_defs intro!: via_mono [OF rpc_via [where f = Num and op = "OReap now l" for now l]])
  show "via (server_trace call) (\<lambda>op. \<exists>l. op = OSweep l) s s'"
    if "fr_Sweep (NewFrontier call cfg cl) e s = (r, s')" for r s'
    using that by (auto simp: NewFrontier_def method_defs intro!: via_mono [OF rpc_via [where f = Num and op = "OSweep l" for l]])
  show "via (server_trace call) (\<lambda>op. \<exists>now l. op = OPromote now l) s s'"
    if "fr_Promote (NewFrontier call cfg cl) e s = (r, s')" for r s'
    using that by (auto simp: NewFrontier_def method_defs intro!: via_mono [OF rpc_via [where f = Num and op = "OPromote now l" for now l]])
  show "via (server_trace call) (\<lambda>op. \<exists>now l. op = OSchedule now l) s s'"
    if "fr_RunListingScheduler (NewFrontier call cfg cl) e s = (r, s')" for r s'
    using that by (auto simp: NewFrontier_def method_defs intro!: via_mono [OF rpc_via [where f = Num and op = "OSchedule now l" for now l]])
qed

section \<open>Delivered calls on a reliable server\<close>

text \<open>A state the scripts work on without errors, with room for \<open>k\<close> more identifiers.\<close>

definition healthy :: "nat \<Rightarrow> keyspace \<Rightarrow> bool" where
  "healthy k d \<longleftrightarrow> frontier_inv d \<and> values_inv d \<and> barred d \<and> job_seq d + int k \<le> id_limit"

lemma healthy_seq_room: "healthy k d \<Longrightarrow> seq_room k d"
  by (auto simp: healthy_def seq_room_def frontier_inv_def job_seq_def jobs_inv_def)

lemma healthy_mono: "healthy k d \<Longrightarrow> n \<le> k \<Longrightarrow> healthy n d"
  by (auto simp: healthy_def)

lemma healthy_less: "healthy (Suc k) d \<Longrightarrow> job_seq d < id_limit"
  by (simp add: healthy_def)

lemma healthy_distinct: "healthy (Suc k) d \<Longrightarrow> distinct (processing d) \<and> dom (lease d) \<subseteq> set (processing d)"
  by (auto simp: healthy_def frontier_inv_def jobs_inv_def job_seq_def)

lemma healthy_carries:
  assumes "healthy k d"
  shows "m \<in> set (ready d) \<Longrightarrow> carries_url m" "m \<in> set (processing d) \<Longrightarrow> carries_url m"
    "delayed d m = Some t \<Longrightarrow> carries_url m"
  using assms by (auto simp: healthy_def barred_def)

definition job_of :: "URLClassifier option \<Rightarrow> member \<Rightarrow> Job" where
  "job_of cl m = (let (id, u) = splitMember m in
     \<lparr>ID = id, URL = u, Class = (case cl of None \<Rightarrow> ClassListing | Some f \<Rightarrow> f u), member = m\<rparr>)"

lemma splitMember_url: "carries_url m \<Longrightarrow> snd (splitMember m) = url_of m"
  by (auto simp: carries_url_def url_of_def splitMember_def after_bar_def split: option.splits)

lemma Lease_reply:
  "Lease call cfg cl e s = on_reply (\<lambda>r. Inr (map_option (job_of cl) r))
     (rpc call e (luaLease (unix (clock e)) (whole_seconds (LeaseTimeout cfg))) s)"
  unfolding Lease_def
  by (rule arg_cong [where f = "\<lambda>g. on_reply g _"])
    (auto simp: fun_eq_iff job_of_def Let_def split: option.splits prod.splits)

context redis_reliable
begin

lemma rpc_total:
  assumes "delivered e" "wp False sc (data s) Q" "\<And>r d'. Q r d' \<Longrightarrow> \<exists>v. r = Inr v"
  obtains v s' where "rpc call e sc s = (Inr v, s')" "Q (Inr v) (data s')"
proof -
  have q: "Q (fst (run call sc s)) (data (snd (run call sc s)))"
    by (rule run_wp_total [OF assms(2)])
  then obtain v where v: "fst (run call sc s) = Inr v" using assms(3) by blast
  have "rpc call e sc s = (Inr v, snd (run call sc s))"
    using assms(1) v by (auto simp: rpc_def delivered_def split: prod.splits)
  with q v that show thesis by metis
qed

lemma rpc_exact:
  assumes "delivered e" "wp False sc (data s) (\<lambda>r e'. r = Inr x \<and> e' = d')"
  shows "\<exists>s'. rpc call e sc s = (Inr x, s') \<and> data s' = d'"
  by (rule rpc_total [OF assms]) auto

lemma method_exact:
  assumes "delivered e" "wp False sc (data s) (\<lambda>r e'. r = Inr x \<and> e' = d')"
  shows "\<exists>s'. on_reply f (rpc call e sc s) = (f x, s') \<and> data s' = d'"
  using rpc_exact [OF assms] by (auto simp: on_reply_def)

end

section \<open>Playing operations on a server\<close>

primrec play :: "'s server \<Rightarrow> frontier_op list \<Rightarrow> 's \<Rightarrow> event list \<times> 's" where
  "play call [] s = ([], s)"
| "play call (op # ops) s =
     (let x = run call (op_script op) s; rest = play call ops (snd x)
      in ((op, fst x) # fst rest, snd rest))"

definition replay :: "frontier_op list \<Rightarrow> rstore" where
  "replay ops = snd (play store_call ops empty_store)"

lemma play_trace: "server_trace call s (fst (play call ops s)) (snd (play call ops s))"
proof (induction ops arbitrary: s)
  case (Cons op ops)
  obtain r s1 where r: "run call (op_script op) s = (r, s1)" by fastforce
  have "server_trace call s ([] @ [(op, r)]) s1"
    by (rule server_trace.trace_step [OF server_trace.trace_empty r])
  from server_trace_append [OF Cons.IH [of s1] this] r show ?case
    by (simp add: Let_def)
qed simp

lemma play_ops: "map fst (fst (play call ops s)) = ops"
  by (induction ops arbitrary: s) (simp_all add: Let_def)

lemma empty_store_good:
  "frontier_inv (store_data empty_store)" "values_inv (store_data empty_store)"
  "barred (store_data empty_store)"
  by (simp_all add: empty_store_def frontier_inv_def jobs_inv_def values_inv_def barred_def)

lemma replay_healthy:
  assumes "\<forall>op \<in> set ops. op_args op" "job_seq (store_data (replay ops)) + int k \<le> id_limit"
  shows "healthy k (store_data (replay ops))"
proof -
  note tr = play_trace [of store_call empty_store ops]
  have "fst ` set (fst (play store_call ops empty_store)) = set ops"
    using play_ops [of store_call ops empty_store] by (metis list.set_map)
  then have "\<forall>ev \<in> set (fst (play store_call ops empty_store)). op_args (fst ev)"
    using assms(1) by blast
  then have "values_inv (store_data (replay ops))"
    using store.trace_values [OF tr empty_store_good(2)] by (simp add: replay_def)
  moreover have "barred (store_data (replay ops))"
    using store.trace_keeps [OF tr, of barred] op_barred empty_store_good(3)
    unfolding replay_def by blast
  ultimately show ?thesis
    using store.trace_inv [OF tr empty_store_good(1)] assms(2) by (simp add: healthy_def replay_def)
qed

end
