(* ===== verification/Frontier_Safety.thy ===== *)
theory Frontier_Safety
  imports Frontier_Contract
begin

text \<open>
  The safety properties of the frontier, over every server that obeys the documented behaviour of
  Redis commands, every interleaving of operations, and every mid-script failure or lost reply.
  Their witnesses play concrete operations on the reference servers.
\<close>

section \<open>Example runs\<close>

text \<open>A listing is admitted, leased, reaped after its lease expired, and leased again.\<close>

definition reap_run :: "frontier_op list" where
  "reap_run = [OAdmitListing ''http://l'' 100, OLease 100 600, OReap 800 100, OLease 800 600]"

text \<open>The same job acknowledged twice; a second worker holds the first lease no more.\<close>

definition ack_run :: "frontier_op list" where
  "ack_run = [OAdmitVideo ''http://v'' 100, OLease 100 600, OAck ''1|http://v'' ''http://v'',
     OAck ''1|http://v'' ''http://v'']"

section \<open>Jobs\<close>

text \<open>C1: A job is leased at most once. In whatever order scripts run, and wherever they fail, no
  member is handed out by two leases, as long as fewer than \<open>10 ^ 14\<close> identifiers were minted:
  every requeue carries a new identifier.\<close>

theorem lease_at_most_once:
  assumes "redis_server call data" "frontier_inv (data s)" "server_trace call s tr s'"
    "job_seq (data s') < id_limit"
  shows "distinct (handed tr)"
  using redis_server.trace_handed [OF assms(1,3,2)] assms(4) by blast

lemma lease_at_most_once_witness:
  "distinct (handed (fst (play store_call reap_run empty_store))) \<and>
   handed (fst (play store_call reap_run empty_store)) = [''1|http://l'', ''2|http://l'']"
proof
  show "distinct (handed (fst (play store_call reap_run empty_store)))"
    by (rule lease_at_most_once [OF store.redis_server_axioms empty_store_good(1) play_trace]) code_simp
  show "handed (fst (play store_call reap_run empty_store)) = [''1|http://l'', ''2|http://l'']"
    by code_simp
qed

text \<open>C2: A job is completed at most once. Of all the Ack, Nack, Fail, Terminal and CompleteListing
  executions that name a member, at most one is answered by anything but STALE.\<close>

theorem complete_at_most_once:
  assumes "redis_server call data" "frontier_inv (data s)" "server_trace call s tr s'"
    "job_seq (data s') < id_limit"
  shows "length (filter (completes m) tr) \<le> 1"
  using redis_server.trace_completes [OF assms(1,3,2)] assms(4) by blast

lemma complete_at_most_once_witness:
  "length (filter (completes ''1|http://v'') (fst (play store_call ack_run empty_store))) \<le> 1 \<and>
   map snd (drop 2 (fst (play store_call ack_run empty_store))) = [Inr (Text ''OK''), Inr (Text ''STALE'')]"
proof
  show "length (filter (completes ''1|http://v'') (fst (play store_call ack_run empty_store))) \<le> 1"
    by (rule complete_at_most_once [OF store.redis_server_axioms empty_store_good(1) play_trace]) code_simp
  show "map snd (drop 2 (fst (play store_call ack_run empty_store))) = [Inr (Text ''OK''), Inr (Text ''STALE'')]"
    by code_simp
qed

text \<open>The answer of a method that found no lease: an error, and nothing changed.\<close>

definition refused :: "('s \<Rightarrow> keyspace) \<Rightarrow> (go_error + 'a) \<times> 's \<Rightarrow> 's \<Rightarrow> bool" where
  "refused data x s \<longleftrightarrow> isl (fst x) \<and> data (snd x) = data s"

lemma run_unleased:
  assumes "redis_server call data" "op_script op = map_script Text sc" "target op = Some (m, u)"
    "lease (data s) m = None" "run call sc s = (r, s')"
  shows "data s' = data s" "\<And>v. r = Inr v \<Longrightarrow> v = ''STALE''"
proof -
  have "run call (op_script op) s = (map_sum id Text r, s')"
    using run_map_script [of call Text sc s] assms(2,5) by simp
  from redis_server.run_wp [OF assms(1) op_unleased [where op = op, OF assms(3,4)] this]
  show "data s' = data s" "\<And>v. r = Inr v \<Longrightarrow> v = ''STALE''"
    by (auto simp: stale_or_error_def)
qed

lemma executions_unleased:
  assumes "redis_server call data" "op_script op = map_script Text sc" "target op = Some (m, u)"
    "lease (data s) m = None"
  shows "data (executions call n sc s) = data s"
  using assms(4)
proof (induction n arbitrary: s)
  case (Suc n)
  obtain r s1 where r: "run call sc s = (r, s1)" by fastforce
  have "data s1 = data s" by (rule run_unleased(1) [OF assms(1-3) Suc.prems r])
  with Suc r show ?case by simp
qed simp

lemma rpc_refused:
  assumes "redis_server call data" "op_script op = map_script Text sc" "target op = Some (m, u)"
    "lease (data s) m = None" "\<And>v. v = ''STALE'' \<Longrightarrow> isl (f v)"
  shows "refused data (on_reply f (rpc call e sc s)) s"
proof -
  let ?s1 = "executions call (lost e) sc s"
  have d: "data ?s1 = data s" by (rule executions_unleased [OF assms(1-4)])
  obtain r s2 where r: "run call sc ?s1 = (r, s2)" by fastforce
  have l: "lease (data ?s1) m = None" using assms(4) d by simp
  note u = run_unleased [OF assms(1-3) l r]
  show ?thesis
    using d r u assms(5)
    by (cases "fate e"; cases r) (auto simp: rpc_def on_reply_def refused_def Let_def)
qed

lemma stale_refused: "v = ''STALE'' \<Longrightarrow> isl (stale_check v)" "v = ''STALE'' \<Longrightarrow> isl (fail_reply v)"
  by (simp_all add: stale_check_def fail_reply_def)

lemma fail_script_op:
  "\<exists>op. op_script op = map_script Text (fail_script cfg j c now) \<and> target op = Some (member j, URL j)"
proof -
  obtain argv inc mx r t where "fail_script cfg j c now = luaFail argv (member j) (URL j) inc mx (unix now) r t"
    by (cases c) (auto simp: fail_script_def Let_def)
  then show ?thesis
    by (intro exI [of _ "OFail argv (member j) (URL j) inc mx (unix now) r t"]) (simp add: target_def)
qed

lemma unleased_refused:
  assumes "redis_server call data" "lease (data s) (member j) = None"
  shows "refused data (Ack call e j s) s" "refused data (Nack call e j s) s"
    "refused data (Fail call cfg e j c s) s" "refused data (Terminal call e j reason until s) s"
    "refused data (CompleteListing call cfg e j n s) s"
proof -
  note r = rpc_refused [OF assms(1) _ _ assms(2)]
  show "refused data (Ack call e j s) s"
    unfolding Ack_def by (rule r [of "OAck (member j) (URL j)"]) (simp_all add: target_def stale_refused)
  show "refused data (Nack call e j s) s"
    unfolding Nack_def by (rule r [of "ONack (member j) (URL j)"]) (simp_all add: target_def stale_refused)
  show "refused data (Terminal call e j reason until s) s"
    unfolding Terminal_def
    by (rule r [of "OTerminal (member j) (URL j) reason (unixOrZero until)"])
      (simp_all add: target_def stale_refused)
  show "refused data (CompleteListing call cfg e j n s) s"
    unfolding CompleteListing_def Let_def
    by (rule r [of "OComplete (member j) (URL j) n (unix (clock e))
          (whole_seconds (if Class j = ClassSeed then SeedTTL cfg else ListingBaseTTL cfg))
          (whole_seconds (ListingMaxTTL cfg))"])
      (simp_all add: target_def stale_refused)
  obtain op where "op_script op = map_script Text (fail_script cfg j c (clock e))"
    "target op = Some (member j, URL j)" using fail_script_op by blast
  then show "refused data (Fail call cfg e j c s) s"
    unfolding Fail_def by (rule r) (rule stale_refused)
qed

text \<open>C3: A worker that lost its lease can never touch the job again. Once a member was handed out
  and its lease is gone (reaped, completed by someone else), then after any further operations each
  of the five completing methods returns an error and changes nothing, whether or not its own
  replies get lost and it is sent again.\<close>

theorem lost_lease_is_final:
  assumes "redis_server call data" "frontier_inv (data s0)"
    "server_trace call s0 tr1 s1" "member j \<in> set (handed tr1)" "lease (data s1) (member j) = None"
    "server_trace call s1 tr2 s2" "job_seq (data s2) < id_limit"
  shows "refused data (Ack call e j s2) s2 \<and> refused data (Nack call e j s2) s2 \<and>
    refused data (Fail call cfg e j c s2) s2 \<and> refused data (Terminal call e j reason until s2) s2 \<and>
    refused data (CompleteListing call cfg e j n s2) s2"
proof -
  have "fenced False (member j) (data s1)"
    using redis_server.trace_handed [OF assms(1,3,2)] assms(4) by blast
  then have "fenced True (member j) (data s2)"
    using redis_server.trace_fence [OF assms(1,6)] fenced_strengthen assms(5) by blast
  then have "lease (data s2) (member j) = None"
    using fenced_at(2) assms(7) by blast
  then show ?thesis
    by (simp add: unleased_refused [OF assms(1)])
qed

definition stale_job :: Job where
  "stale_job = \<lparr>ID = ''1'', URL = ''http://l'', Class = ClassListing, member = ''1|http://l''\<rparr>"

definition call_at :: "go_time \<Rightarrow> call_env" where
  "call_at t = \<lparr>clock = t, lost = 0, fate = None\<rparr>"

lemma lost_lease_is_final_witness:
  "refused store_data (Ack store_call (call_at (900 * second)) stale_job (replay reap_run)) (replay reap_run) \<and>
   fst (Ack store_call (call_at (900 * second)) stale_job (replay reap_run)) = Inl ErrStaleLease"
proof
  have 1: "member stale_job \<in> set (handed (fst (play store_call (take 3 reap_run) empty_store)))"
    "lease (store_data (snd (play store_call (take 3 reap_run) empty_store))) (member stale_job) = None"
    by code_simp+
  have 2: "job_seq (store_data (snd (play store_call (drop 3 reap_run)
      (snd (play store_call (take 3 reap_run) empty_store))))) < id_limit"
    by code_simp
  have "snd (play store_call (drop 3 reap_run) (snd (play store_call (take 3 reap_run) empty_store))) =
      replay reap_run"
    by (simp add: replay_def reap_run_def Let_def)
  then show "refused store_data (Ack store_call (call_at (900 * second)) stale_job (replay reap_run)) (replay reap_run)"
    using lost_lease_is_final [OF store.redis_server_axioms empty_store_good(1) play_trace 1 play_trace 2]
    by metis
  show "fst (Ack store_call (call_at (900 * second)) stale_job (replay reap_run)) = Inl ErrStaleLease"
    by code_simp
qed

section \<open>URLs\<close>

text \<open>C4: No URL is lost. A URL with a queued job keeps one along every sequence of operations, until
  an operation on a job of that URL retires it: an Ack, Terminal or CompleteListing, or a Fail that
  did not answer DELAYED. Reaping, sweeping, promoting, requeueing and stale calls never lose it.\<close>

theorem no_url_lost:
  assumes "redis_server call data" "server_trace call s tr s'" "live (data s) u"
    "\<forall>e \<in> set tr. op_wf (fst e)"
  shows "live (data s') u \<or> (\<exists>e \<in> set tr. retires u e)"
  by (rule redis_server.trace_live [OF assms])

definition requeue_run :: "frontier_op list" where
  "requeue_run = [OLease 100 600, ONack ''1|http://l'' ''http://l'', OLease 200 600, OReap 900 100, OSweep 100]"

text \<open>The two injected failures hit the Nack after its lease was removed, and the reaper.\<close>

definition faulty_server :: "bool list \<times> rstore" where
  "faulty_server = ([False, False, False, True, False, True],
     replay [OAdmitListing ''http://l'' 100])"

lemma no_url_lost_witness:
  "live (flaky_data (snd (play flaky_call requeue_run faulty_server))) ''http://l'' \<and>
   map snd (fst (play flaky_call requeue_run faulty_server)) =
     [Inr (Item (Some ''1|http://l'')), Inl ''ERR injected'', Inr (Item None), Inl ''ERR injected'', Inr (Num 1)]"
proof
  have l: "live (flaky_data faulty_server) ''http://l''"
  proof -
    have "ready (flaky_data faulty_server) = [''1|http://l'']"
      "after_bar ''1|http://l'' = Some ''http://l''"
      by code_simp+
    then show ?thesis unfolding live_def carries_def by (intro exI [of _ "''1|http://l''"]) simp
  qed
  have w: "\<forall>e \<in> set (fst (play flaky_call requeue_run faulty_server)). op_wf (fst e)" by code_simp
  have "\<not> (\<exists>e \<in> set (fst (play flaky_call requeue_run faulty_server)). retires ''http://l'' e)" by code_simp
  with no_url_lost [OF flaky.redis_server_axioms play_trace l w]
  show "live (flaky_data (snd (play flaky_call requeue_run faulty_server))) ''http://l''" by blast
  show "map snd (fst (play flaky_call requeue_run faulty_server)) =
     [Inr (Item (Some ''1|http://l'')), Inl ''ERR injected'', Inr (Item None), Inl ''ERR injected'', Inr (Num 1)]"
    by code_simp
qed

text \<open>C5: Destination first. Whatever command of an operation fails, a URL that had a queued job
  afterwards still has one, or is dead-listed or scheduled by the operation that retired it; only an
  Ack lets it go. A failure in the middle of a script means a duplicate, never a loss.\<close>

theorem destination_first:
  assumes "redis_server call data" "live (data s) u" "op_wf op" "run call (op_script op) s = (r, s')"
  shows "live (data s') u \<or> (retires u (op, r) \<and> (is_ack u op \<or> parked (data s') u))"
  by (rule redis_server.run_wp [OF assms(1) op_live_reply [OF assms(2,3)] assms(4)])

lemma replay_live_listing: "live (store_data (replay [OAdmitListing ''http://l'' 100, OLease 100 600])) ''http://l''"
proof -
  have "processing (store_data (replay [OAdmitListing ''http://l'' 100, OLease 100 600])) = [''1|http://l'']"
    "after_bar ''1|http://l'' = Some ''http://l''"
    by code_simp+
  then show ?thesis unfolding live_def carries_def by (intro exI [of _ "''1|http://l''"]) simp
qed

lemma destination_first_witness:
  "let s = ([False, False, True], replay [OAdmitListing ''http://l'' 100, OLease 100 600]);
       op = OTerminal ''1|http://l'' ''http://l'' ''gone'' 900;
       s' = snd (run flaky_call (op_script op) s)
   in (live (flaky_data s') ''http://l'' \<or> (retires ''http://l'' (op, fst (run flaky_call (op_script op) s)) \<and>
        (is_ack ''http://l'' op \<or> parked (flaky_data s') ''http://l''))) \<and>
      listing_next (flaky_data s') ''http://l'' = Some 900 \<and> dead (flaky_data s') ''http://l'' = None"
proof -
  let ?s = "([False, False, True], replay [OAdmitListing ''http://l'' 100, OLease 100 600])"
  let ?op = "OTerminal ''1|http://l'' ''http://l'' ''gone'' 900"
  have l: "live (flaky_data ?s) ''http://l''"
    using replay_live_listing by (simp add: flaky_data_def)
  have w: "op_wf ?op" by code_simp
  have e: "listing_next (flaky_data (snd (run flaky_call (op_script ?op) ?s))) ''http://l'' = Some 900"
    "dead (flaky_data (snd (run flaky_call (op_script ?op) ?s))) ''http://l'' = None" by code_simp+
  show ?thesis
    using destination_first [OF flaky.redis_server_axioms l w prod.collapse [of "run flaky_call (op_script ?op) ?s", symmetric]] e
    by (simp only: Let_def simp_thms)
qed

text \<open>C6: A video is reported new at most once, from any starting state: AdmitVideo claims it in the
  Bloom filter in the same script, and the claim is never withdrawn, not even by the rollback of a
  duplicate.\<close>

theorem video_new_at_most_once:
  assumes "redis_server call data" "server_trace call s tr s'"
  shows "length (filter (admits_new u) tr) \<le> 1"
  using redis_server.trace_admits [OF assms] by blast

definition video_run :: "frontier_op list" where
  "video_run = [OAdmitVideo ''http://v'' 100, OAdmitVideo ''http://v'' 101, OAdmitVideo ''http://v'' 102]"

lemma video_new_at_most_once_witness:
  "length (filter (admits_new ''http://v'') (fst (play store_call video_run empty_store))) \<le> 1 \<and>
   map snd (fst (play store_call video_run empty_store)) =
     [Inr (Num 1), Inr (Num 0), Inr (Num 0)]"
proof
  show "length (filter (admits_new ''http://v'') (fst (play store_call video_run empty_store))) \<le> 1"
    by (rule video_new_at_most_once [OF store.redis_server_axioms play_trace])
  show "map snd (fst (play store_call video_run empty_store)) =
     [Inr (Num 1), Inr (Num 0), Inr (Num 0)]"
    by code_simp
qed

section \<open>Invariants\<close>

text \<open>C7: The frontier stays well-formed. Along every sequence of operations, failures included, every
  queued member carries an identifier minted before, no member is queued twice, only members in
  processing are leased, every member carries a URL, and every stored reason, expiry and counter can
  be read back by the scripts.\<close>

theorem frontier_well_formed:
  assumes "redis_server call data" "server_trace call s tr s'" "\<forall>e \<in> set tr. op_args (fst e)"
    "frontier_inv (data s)" "values_inv (data s)" "barred (data s)"
  shows "frontier_inv (data s') \<and> values_inv (data s') \<and> barred (data s')"
  using redis_server.trace_inv [OF assms(1,2,4)] redis_server.trace_values [OF assms(1,2,5,3)]
    redis_server.trace_keeps [OF assms(1,2), of barred] op_barred assms(6) by blast

lemma frontier_well_formed_witness:
  "frontier_inv (store_data (replay reap_run)) \<and> values_inv (store_data (replay reap_run)) \<and>
   barred (store_data (replay reap_run)) \<and> processing (store_data (replay reap_run)) = [''2|http://l'']"
proof -
  have "\<forall>e \<in> set (fst (play store_call reap_run empty_store)). op_args (fst e)" by code_simp
  note inv = frontier_well_formed [OF store.redis_server_axioms play_trace this empty_store_good]
  have "processing (store_data (replay reap_run)) = [''2|http://l'']" by code_simp
  with inv show ?thesis unfolding replay_def by blast
qed

text \<open>C37: A pending listing has a job. An operation keeps it true that a listing marked pending (which
  the scheduler and admission skip) has a queued job that will release it, even if it fails half
  way, provided jobs of pending listings are not acknowledged or buried forever.\<close>

theorem pending_listing_has_job:
  assumes "redis_server call data" "values_inv (data s)" "pending_ok (data s) u" "op_wf op" "op_args op"
    "op_releases_mark (data s) op" "run call (op_script op) s = (r, s')"
  shows "pending_ok (data s') u"
  by (rule redis_server.run_wp [OF assms(1) op_pending [OF assms(2-6)] assms(7)])

lemma pending_listing_has_job_witness:
  "let s = replay [OAdmitListing ''http://l'' 100, OLease 100 600];
       op = OComplete ''1|http://l'' ''http://l'' 0 200 3600 7200;
       s' = snd (run store_call (op_script op) s)
   in pending_ok (store_data s') ''http://l'' \<and> listing_next (store_data s') ''http://l'' = Some 7400"
proof -
  let ?s = "replay [OAdmitListing ''http://l'' 100, OLease 100 600]"
  let ?op = "OComplete ''1|http://l'' ''http://l'' 0 200 3600 7200"
  have v: "values_inv (store_data ?s)"
  proof -
    have "job_seq (store_data ?s) + int 0 \<le> id_limit" by code_simp
    from replay_healthy [OF _ this] show ?thesis by (simp add: healthy_def)
  qed
  have p: "pending_ok (store_data ?s) ''http://l''"
    using replay_live_listing by (simp add: pending_ok_def)
  have o: "op_wf ?op" "op_args ?op" "op_releases_mark (store_data ?s) ?op" by code_simp+
  have "listing_next (store_data (snd (run store_call (op_script ?op) ?s))) ''http://l'' = Some 7400"
    by code_simp
  with pending_listing_has_job [OF store.redis_server_axioms v p o prod.collapse [of "run store_call (op_script ?op) ?s", symmetric]] show ?thesis
    by (simp only: Let_def simp_thms)
qed

end
