(* ===== verification/Frontier_Correct.thy ===== *)
theory Frontier_Correct
  imports Frontier_Safety
begin

text \<open>
  The functional properties of the Go methods of the frontier on a reliable server: each delivered
  call returns, and its answer and its effect are those of the specification in \<open>Frontier_Spec\<close>, on
  every branch. \<open>healthy k\<close> is the invariant of \<open>frontier_well_formed\<close> with room for \<open>k\<close> identifiers.
\<close>

section \<open>Leasing and admitting\<close>

text \<open>C28: Lease hands out the oldest ready job. With nothing ready it returns no job and changes
  nothing; otherwise it returns the job at the tail of the ready list, split into identifier and URL
  and classified, moves it to processing and leases it until now plus the lease timeout.\<close>

theorem Lease_refines:
  assumes "redis_reliable call data" "delivered e"
  shows "\<exists>s'. Lease call cfg cl e s =
      (Inr (map_option (job_of cl)
         (fst (spec_lease (unix (clock e)) (whole_seconds (LeaseTimeout cfg)) (data s)))), s') \<and>
    data s' = snd (spec_lease (unix (clock e)) (whole_seconds (LeaseTimeout cfg)) (data s))"
  unfolding Lease_reply
  by (rule redis_reliable.method_exact [OF assms]) (rule luaLease_total, simp)

definition listing_leased :: rstore where
  "listing_leased = replay [OAdmitListing ''http://l'' 100, OLease 100 600]"

definition listing_ready :: rstore where
  "listing_ready = replay [OAdmitListing ''http://l'' 100]"

lemma delivered_call_at [simp]: "delivered (call_at t)"
  by (simp add: delivered_def call_at_def)

lemma Lease_refines_witness:
  "(\<exists>s'. Lease store_call DefaultFrontierConfig None (call_at (100 * second)) listing_ready =
      (Inr (map_option (job_of None) (fst (spec_lease (unix (clock (call_at (100 * second))))
         (whole_seconds (LeaseTimeout DefaultFrontierConfig)) (store_data listing_ready)))), s') \<and>
    store_data s' = snd (spec_lease (unix (clock (call_at (100 * second))))
      (whole_seconds (LeaseTimeout DefaultFrontierConfig)) (store_data listing_ready))) \<and>
   fst (spec_lease (unix (clock (call_at (100 * second))))
      (whole_seconds (LeaseTimeout DefaultFrontierConfig)) (store_data listing_ready)) = Some ''1|http://l''"
  by (rule conjI, rule Lease_refines [OF store.redis_reliable_axioms delivered_call_at], code_simp)

text \<open>C29: AdmitVideo on a healthy state answers Suppressed and changes nothing while the URL is
  dead or quarantined; answers Suppressed and queues nothing when the Bloom filter knows the URL;
  otherwise answers New, and in one step queues the URL under a fresh identifier, claims it in the
  filter and lifts an expired quarantine.\<close>

theorem AdmitVideo_refines:
  assumes "redis_reliable call data" "delivered e" "healthy 1 (data s)"
  shows "\<exists>n s'. AdmitVideo call e u s = (Inr (admit_result n), s') \<and>
    admits_video u (unix (clock e)) (data s) n (data s')"
proof -
  have "job_seq (data s) < id_limit" using assms(3) by (simp add: healthy_def)
  with assms(3) have "wp False (luaAdmitVideo u (unix (clock e))) (data s)
      (\<lambda>r d'. \<exists>n. r = Inr n \<and> admits_video u (unix (clock e)) (data s) n d')"
    by (intro luaAdmitVideo_total) (auto simp: healthy_def)
  then obtain v s' where "rpc call e (luaAdmitVideo u (unix (clock e))) s = (Inr v, s')"
    "admits_video u (unix (clock e)) (data s) v (data s')"
    by (rule redis_reliable.rpc_total [OF assms(1,2)]) auto
  then show ?thesis by (auto simp: AdmitVideo_def on_reply_def)
qed

lemma replay_healthy_by:
  assumes "s = replay ops" "\<forall>op \<in> set ops. op_args op" "job_seq (store_data s) + int k \<le> id_limit"
  shows "healthy k (store_data s)"
  using replay_healthy [of ops k] assms by simp

lemma listing_leased_healthy: "healthy 50 (store_data listing_leased)"
proof -
  have "job_seq (store_data listing_leased) + int 50 \<le> id_limit" by code_simp
  then show ?thesis by (rule replay_healthy_by [OF listing_leased_def, rotated]) simp
qed

lemma AdmitVideo_refines_witness:
  "(\<exists>n s'. AdmitVideo store_call (call_at (100 * second)) ''http://v'' listing_leased = (Inr (admit_result n), s') \<and>
    admits_video ''http://v'' (unix (clock (call_at (100 * second)))) (store_data listing_leased) n (store_data s')) \<and>
   fst (AdmitVideo store_call (call_at (100 * second)) ''http://v'' listing_leased) = Inr New"
proof
  have "healthy 1 (store_data listing_leased)"
    by (rule healthy_mono [OF listing_leased_healthy]) simp
  then show "\<exists>n s'. AdmitVideo store_call (call_at (100 * second)) ''http://v'' listing_leased = (Inr (admit_result n), s') \<and>
    admits_video ''http://v'' (unix (clock (call_at (100 * second)))) (store_data listing_leased) n (store_data s')"
    by (rule AdmitVideo_refines [OF store.redis_reliable_axioms delivered_call_at])
  show "fst (AdmitVideo store_call (call_at (100 * second)) ''http://v'' listing_leased) = Inr New"
    by code_simp
qed

lemma AdmitListing_exact:
  assumes "redis_reliable call data" "delivered e" "healthy 1 (data s)"
  shows "\<exists>s'. AdmitListing call e u s =
      (Inr (admit_result (fst (spec_admit_listing u (unix (clock e)) (data s)))), s') \<and>
    data s' = snd (spec_admit_listing u (unix (clock e)) (data s))"
proof -
  have "job_seq (data s) < id_limit" using assms(3) by (simp add: healthy_def)
  with assms(3) have "wp False (luaAdmitListing u (unix (clock e)) PendingScore) (data s)
      (\<lambda>r d'. r = Inr (fst (spec_admit_listing u (unix (clock e)) (data s))) \<and>
        d' = snd (spec_admit_listing u (unix (clock e)) (data s)))"
    by (intro luaAdmitListing_total) (auto simp: healthy_def)
  from redis_reliable.method_exact [OF assms(1,2) this] show ?thesis by (simp add: AdmitListing_def)
qed

text \<open>C30: AdmitListing on a healthy state answers Suppressed while the URL is dead, quarantined,
  pending or not yet due; otherwise it queues the URL under a fresh identifier, marks it pending, and
  answers New for a listing never seen and DueRevisit for one whose time has come.\<close>

theorem AdmitListing_refines:
  assumes "redis_reliable call data" "delivered e" "healthy 1 (data s)"
  shows "\<exists>s'. AdmitListing call e u s =
      (Inr (admit_result (fst (spec_admit_listing u (unix (clock e)) (data s)))), s') \<and>
    data s' = snd (spec_admit_listing u (unix (clock e)) (data s))"
  by (rule AdmitListing_exact [OF assms])

lemma AdmitListing_refines_witness:
  "(\<exists>s'. AdmitListing store_call (call_at (100 * second)) ''http://l'' listing_leased =
      (Inr (admit_result (fst (spec_admit_listing ''http://l'' (unix (clock (call_at (100 * second))))
        (store_data listing_leased)))), s') \<and>
    store_data s' = snd (spec_admit_listing ''http://l'' (unix (clock (call_at (100 * second))))
      (store_data listing_leased))) \<and>
   fst (spec_admit_listing ''http://l'' (unix (clock (call_at (100 * second)))) (store_data listing_leased)) = 0 \<and>
   fst (spec_admit_listing ''http://m'' (unix (clock (call_at (100 * second)))) (store_data listing_leased)) = 1"
proof (intro conjI)
  have "healthy 1 (store_data listing_leased)"
    by (rule healthy_mono [OF listing_leased_healthy]) simp
  then show "\<exists>s'. AdmitListing store_call (call_at (100 * second)) ''http://l'' listing_leased =
      (Inr (admit_result (fst (spec_admit_listing ''http://l'' (unix (clock (call_at (100 * second))))
        (store_data listing_leased)))), s') \<and>
    store_data s' = snd (spec_admit_listing ''http://l'' (unix (clock (call_at (100 * second))))
      (store_data listing_leased))"
    by (rule AdmitListing_refines [OF store.redis_reliable_axioms delivered_call_at])
  show "fst (spec_admit_listing ''http://l'' (unix (clock (call_at (100 * second)))) (store_data listing_leased)) = 0"
    by code_simp
  show "fst (spec_admit_listing ''http://m'' (unix (clock (call_at (100 * second)))) (store_data listing_leased)) = 1"
    by code_simp
qed

section \<open>Completing a job\<close>

text \<open>The job leased in \<open>listing_leased\<close>.\<close>

definition the_job :: Job where
  "the_job = \<lparr>ID = ''1'', URL = ''http://l'', Class = ClassListing, member = ''1|http://l''\<rparr>"

text \<open>C31: Ack and Nack. Without a lease both return ErrStaleLease and change nothing. With one, Ack
  removes the job and forgets the failures of its URL; Nack removes it too and queues the URL again
  under a fresh identifier, keeping its failure counts.\<close>

theorem Ack_Nack_refine:
  assumes "redis_reliable call data" "delivered e" "healthy 1 (data s)"
  shows "(\<exists>s'. Ack call e j s = (stale_check (fst (spec_ack (member j) (URL j) (data s))), s') \<and>
      data s' = snd (spec_ack (member j) (URL j) (data s))) \<and>
    (\<exists>s'. Nack call e j s = (stale_check (fst (spec_nack (member j) (URL j) (data s))), s') \<and>
      data s' = snd (spec_nack (member j) (URL j) (data s)))"
proof
  show "\<exists>s'. Ack call e j s = (stale_check (fst (spec_ack (member j) (URL j) (data s))), s') \<and>
      data s' = snd (spec_ack (member j) (URL j) (data s))"
    unfolding Ack_def
    by (rule redis_reliable.method_exact [OF assms(1,2)]) (rule luaAck_total, simp)
  have "job_seq (data s) < id_limit" "frontier_inv (data s)" using assms(3) by (simp_all add: healthy_def)
  then show "\<exists>s'. Nack call e j s = (stale_check (fst (spec_nack (member j) (URL j) (data s))), s') \<and>
      data s' = snd (spec_nack (member j) (URL j) (data s))"
    unfolding Nack_def
    by (intro redis_reliable.method_exact [OF assms(1,2)] luaNack_total) simp_all
qed

lemma Ack_Nack_refine_witness:
  "(\<exists>s'. Ack store_call (call_at (100 * second)) the_job listing_leased =
       (stale_check (fst (spec_ack (member the_job) (URL the_job) (store_data listing_leased))), s') \<and>
     store_data s' = snd (spec_ack (member the_job) (URL the_job) (store_data listing_leased))) \<and>
   (\<exists>s'. Nack store_call (call_at (100 * second)) the_job listing_leased =
       (stale_check (fst (spec_nack (member the_job) (URL the_job) (store_data listing_leased))), s') \<and>
     store_data s' = snd (spec_nack (member the_job) (URL the_job) (store_data listing_leased))) \<and>
   ready (snd (spec_nack (member the_job) (URL the_job) (store_data listing_leased))) = [''2|http://l'']"
proof -
  have h: "healthy 1 (store_data listing_leased)"
    by (rule healthy_mono [OF listing_leased_healthy]) simp
  have "ready (snd (spec_nack (member the_job) (URL the_job) (store_data listing_leased))) = [''2|http://l'']"
    by code_simp
  with Ack_Nack_refine [OF store.redis_reliable_axioms delivered_call_at h] show ?thesis by blast
qed

text \<open>C32: CompleteListing, for a base TTL of at least a second. With a lease it schedules the next visit one
  interval from now, where the interval is the base TTL (the seed TTL for a seed), doubled by every visit
  in a row that found no new child and capped at the maximum; it resets or counts the barren visits, lifts the dead mark, removes the job
  and forgets the failures. Without a lease it returns ErrStaleLease and changes nothing.\<close>

theorem CompleteListing_refines:
  assumes "redis_reliable call data" "delivered e" "healthy 0 (data s)"
    "countable_up (barren (data s) (URL j))"
    "0 < whole_seconds (if Class j = ClassSeed then SeedTTL cfg else ListingBaseTTL cfg)"
  shows "let base = whole_seconds (if Class j = ClassSeed then SeedTTL cfg else ListingBaseTTL cfg);
      spec = spec_complete (member j) (URL j) n (unix (clock e)) base (whole_seconds (ListingMaxTTL cfg)) (data s)
    in \<exists>s'. CompleteListing call cfg e j n s = (stale_check (fst spec), s') \<and> data s' = snd spec"
  unfolding CompleteListing_def Let_def using assms(3-5)
  by (intro redis_reliable.method_exact [OF assms(1,2)] luaCompleteListing_total) (simp_all add: healthy_def)

lemma CompleteListing_refines_witness:
  "(let base = whole_seconds (if Class the_job = ClassSeed then SeedTTL DefaultFrontierConfig
         else ListingBaseTTL DefaultFrontierConfig);
      spec = spec_complete (member the_job) (URL the_job) 0 (unix (clock (call_at (200 * second)))) base
        (whole_seconds (ListingMaxTTL DefaultFrontierConfig)) (store_data listing_leased)
    in \<exists>s'. CompleteListing store_call DefaultFrontierConfig (call_at (200 * second)) the_job 0 listing_leased =
        (stale_check (fst spec), s') \<and> store_data s' = snd spec) \<and>
   listing_next (store_data (snd (CompleteListing store_call DefaultFrontierConfig (call_at (200 * second))
     the_job 0 listing_leased))) ''http://l'' = Some (200 + 2 * 72 * 3600)"
proof
  have "healthy 0 (store_data listing_leased)"
    by (rule healthy_mono [OF listing_leased_healthy]) simp
  moreover have "countable_up (barren (store_data listing_leased) (URL the_job))"
    "0 < whole_seconds (if Class the_job = ClassSeed then SeedTTL DefaultFrontierConfig
       else ListingBaseTTL DefaultFrontierConfig)"
    by code_simp+
  ultimately show "let base = whole_seconds (if Class the_job = ClassSeed then SeedTTL DefaultFrontierConfig
         else ListingBaseTTL DefaultFrontierConfig);
      spec = spec_complete (member the_job) (URL the_job) 0 (unix (clock (call_at (200 * second)))) base
        (whole_seconds (ListingMaxTTL DefaultFrontierConfig)) (store_data listing_leased)
    in \<exists>s'. CompleteListing store_call DefaultFrontierConfig (call_at (200 * second)) the_job 0 listing_leased =
        (stale_check (fst spec), s') \<and> store_data s' = snd spec"
    by (rule CompleteListing_refines [OF store.redis_reliable_axioms delivered_call_at])
  show "listing_next (store_data (snd (CompleteListing store_call DefaultFrontierConfig (call_at (200 * second))
     the_job 0 listing_leased))) ''http://l'' = Some (200 + 2 * 72 * 3600)"
    by code_simp
qed

text \<open>C33: Fail. Without a lease it returns ErrStaleLease. A rate-limited job is always delayed and
  never gets a strike; a strikeable failure counts one, and at MaxStrikes the URL is buried: dead
  forever for a video, quarantined and rescheduled for a listing or seed. Otherwise the URL goes to
  the delayed set under a fresh identifier, due after the rung of the backoff ladder that its
  attempts select, the last rung from there on.\<close>

theorem Fail_refines:
  assumes "redis_reliable call data" "delivered e" "healthy 1 (data s)"
    "countable_up (attempts (data s) (URL j))" "countable_up (strikes (data s) (URL j))"
    "StrikeBackoff cfg \<noteq> []" "RateLimitBackoff cfg \<noteq> []"
  shows "\<exists>s'. Fail call cfg e j c s = (fst (spec_fail cfg j c (clock e) (data s)), s') \<and>
    data s' = snd (spec_fail cfg j c (clock e) (data s))"
proof -
  have "job_seq (data s) < id_limit" using assms(3) by (simp add: healthy_def)
  then have "wp False (fail_script cfg j c (clock e)) (data s)
      (\<lambda>r d'. (\<exists>v. r = Inr v \<and> fail_reply v = fst (spec_fail cfg j c (clock e) (data s))) \<and>
        d' = snd (spec_fail cfg j c (clock e) (data s)))"
    using assms(3-7) by (intro fail_script_total) (auto simp: healthy_def)
  then obtain v s' where "rpc call e (fail_script cfg j c (clock e)) s = (Inr v, s')"
    "fail_reply v = fst (spec_fail cfg j c (clock e) (data s))"
    "data s' = snd (spec_fail cfg j c (clock e) (data s))"
    by (rule redis_reliable.rpc_total [OF assms(1,2)]) auto
  then show ?thesis by (auto simp: Fail_def on_reply_def)
qed

lemma Fail_refines_witness:
  "(\<exists>s'. Fail store_call DefaultFrontierConfig (call_at (200 * second)) the_job FailStrikeable listing_leased =
      (fst (spec_fail DefaultFrontierConfig the_job FailStrikeable (clock (call_at (200 * second)))
        (store_data listing_leased)), s') \<and>
    store_data s' = snd (spec_fail DefaultFrontierConfig the_job FailStrikeable (clock (call_at (200 * second)))
      (store_data listing_leased))) \<and>
   fst (spec_fail DefaultFrontierConfig the_job FailStrikeable (clock (call_at (200 * second)))
     (store_data listing_leased)) = Inr Delayed \<and>
   delayed (snd (spec_fail DefaultFrontierConfig the_job FailStrikeable (clock (call_at (200 * second)))
     (store_data listing_leased))) ''2|http://l'' = Some 260"
proof (intro conjI)
  have h: "healthy 1 (store_data listing_leased)"
    by (rule healthy_mono [OF listing_leased_healthy]) simp
  have c: "countable_up (attempts (store_data listing_leased) (URL the_job))"
    "countable_up (strikes (store_data listing_leased) (URL the_job))"
    "StrikeBackoff DefaultFrontierConfig \<noteq> []" "RateLimitBackoff DefaultFrontierConfig \<noteq> []" by code_simp+
  show "\<exists>s'. Fail store_call DefaultFrontierConfig (call_at (200 * second)) the_job FailStrikeable listing_leased =
      (fst (spec_fail DefaultFrontierConfig the_job FailStrikeable (clock (call_at (200 * second)))
        (store_data listing_leased)), s') \<and>
    store_data s' = snd (spec_fail DefaultFrontierConfig the_job FailStrikeable (clock (call_at (200 * second)))
      (store_data listing_leased))"
    by (rule Fail_refines [OF store.redis_reliable_axioms delivered_call_at h c])
  show "fst (spec_fail DefaultFrontierConfig the_job FailStrikeable (clock (call_at (200 * second)))
     (store_data listing_leased)) = Inr Delayed" by code_simp
  show "delayed (snd (spec_fail DefaultFrontierConfig the_job FailStrikeable (clock (call_at (200 * second)))
     (store_data listing_leased))) ''2|http://l'' = Some 260" by code_simp
qed

text \<open>C34: Terminal. With a lease it writes the reason and expiry to the dead list and removes the
  job, and with a positive expiry also schedules the URL for that moment; the zero time means
  forever. Without a lease it returns ErrStaleLease and changes nothing.\<close>

theorem Terminal_refines:
  assumes "redis_reliable call data" "delivered e"
  shows "\<exists>s'. Terminal call e j reason until s =
      (stale_check (fst (spec_terminal (member j) (URL j) reason (unixOrZero until) (data s))), s') \<and>
    data s' = snd (spec_terminal (member j) (URL j) reason (unixOrZero until) (data s))"
  unfolding Terminal_def
  by (rule redis_reliable.method_exact [OF assms]) (rule luaTerminal_total, simp)

lemma Terminal_refines_witness:
  "(\<exists>s'. Terminal store_call (call_at (100 * second)) the_job ''gone'' zero_time listing_leased =
      (stale_check (fst (spec_terminal (member the_job) (URL the_job) ''gone'' (unixOrZero zero_time)
        (store_data listing_leased))), s') \<and>
    store_data s' = snd (spec_terminal (member the_job) (URL the_job) ''gone'' (unixOrZero zero_time)
      (store_data listing_leased))) \<and>
   dead (snd (spec_terminal (member the_job) (URL the_job) ''gone'' (unixOrZero zero_time)
      (store_data listing_leased))) ''http://l'' = Some ''gone|0''"
  by (rule conjI, rule Terminal_refines [OF store.redis_reliable_axioms delivered_call_at], code_simp)

end
