(* ===== verification/Frontier_Reconcile.thy ===== *)
theory Frontier_Reconcile
  imports Frontier_Correct
begin

text \<open>
  The reconciler methods of the frontier (Reap, Sweep, Promote, RunListingScheduler) and its
  observers (Stats, Idle): what one pass does, and when it leaves nothing to do.
\<close>

section \<open>One pass\<close>

lemma length_due_members: "0 \<le> lim \<Longrightarrow> length (due_members z mx lim) \<le> nat lim"
  by (simp add: due_members_def Let_def)

definition due_set :: "(member \<rightharpoonup> int) \<Rightarrow> int \<Rightarrow> member set" where
  "due_set z now = {m. \<exists>t. z m = Some t \<and> t \<le> now}"

lemma due_subset: "finite (dom z) \<Longrightarrow> set (due_members z now lim) \<subseteq> due_set z now"
  using set_due_members by (simp add: due_set_def)

lemma due_complete:
  assumes "finite (dom z)" "card (due_set z now) \<le> nat lim"
  shows "set (due_members z now lim) = due_set z now"
  using set_due_members_all [OF assms(1), of lim now] assms(2) by (simp add: due_set_def)

lemma restrict_due:
  assumes "finite (dom z)" "card (due_set z now) \<le> nat lim"
    "(z |` (- set (due_members z now lim))) m = Some t"
  shows "now < t"
  using assms(3) due_complete [OF assms(1,2)]
  by (cases "m \<in> due_set z now") (auto simp: due_set_def restrict_map_def split: if_splits)

lemma reliable_server: "redis_reliable call data \<Longrightarrow> redis_server call data"
  by (simp add: redis_reliable_def)

context redis_reliable
begin

lemma reap_pass:
  assumes "delivered e" "healthy 101 (data s)"
  shows "let due = due_members (lease (data s)) (unix (clock e)) reapBatchLimit
    in \<exists>s'. Reap call e s = (Inr (int (length due)), s') \<and> data s' = fold requeue1 due (data s)"
proof -
  let ?due = "due_members (lease (data s)) (unix (clock e)) reapBatchLimit"
  have l: "length ?due \<le> 100"
    using length_due_members [of reapBatchLimit] by (simp add: reapBatchLimit_def)
  have sub: "set ?due \<subseteq> dom (lease (data s))"
    using due_subset [OF finite_zset] by (force simp: due_set_def)
  have h: "dom (lease (data s)) \<subseteq> set (processing (data s))"
    using healthy_distinct [of 100] assms(2) by simp
  have "\<forall>m \<in> set ?due. carries_url m \<and> lease (data s) m \<noteq> None"
    using sub h healthy_carries(2) [OF assms(2)] by blast
  moreover have "seq_room (length ?due) (data s)"
    by (rule healthy_seq_room [OF healthy_mono [OF assms(2)]]) (use l in simp)
  ultimately have "wp False (luaReap (unix (clock e)) reapBatchLimit) (data s)
      (\<lambda>r d'. r = Inr (int (length ?due)) \<and> d' = fold requeue1 ?due (data s))"
    unfolding luaReap_def using reap_expired_total [of ?due "data s" 0] by simp
  from rpc_exact [OF assms(1) this] show ?thesis by (simp add: Reap_def Let_def)
qed

lemma promote_pass:
  assumes "delivered e" "healthy 101 (data s)"
  shows "let due = due_members (delayed (data s)) (unix (clock e)) promoteBatchLimit
    in \<exists>s'. Promote call e s = (Inr (int (length due)), s') \<and> data s' = fold promote1 due (data s)"
proof -
  let ?due = "due_members (delayed (data s)) (unix (clock e)) promoteBatchLimit"
  have l: "length ?due \<le> 100"
    using length_due_members [of promoteBatchLimit] by (simp add: promoteBatchLimit_def)
  have "\<forall>m \<in> set ?due. carries_url m"
    using due_subset [OF finite_zset] healthy_carries(3) [OF assms(2)] by (force simp: due_set_def)
  moreover have "seq_room (length ?due) (data s)"
    by (rule healthy_seq_room [OF healthy_mono [OF assms(2)]]) (use l in simp)
  ultimately have "wp False (luaPromote (unix (clock e)) promoteBatchLimit) (data s)
      (\<lambda>r d'. r = Inr (int (length ?due)) \<and> d' = fold promote1 ?due (data s))"
    unfolding luaPromote_def using promote_due_total [of ?due "data s"] by simp
  from rpc_exact [OF assms(1) this] show ?thesis by (simp add: Promote_def Let_def)
qed

lemma sweep_pass:
  assumes "delivered e" "healthy 101 (data s)"
  shows "let orphans = filter (\<lambda>m. lease (data s) m = None)
      (list_range (processing (data s)) (- sweepBatchLimit) (- 1))
    in \<exists>s'. Sweep call e s = (Inr (int (length orphans)), s') \<and> data s' = fold requeue1 orphans (data s)"
proof -
  let ?items = "list_range (processing (data s)) (- sweepBatchLimit) (- 1)"
  have l: "length ?items \<le> 100" "set ?items \<subseteq> set (processing (data s))"
    by (auto simp: list_range_def Let_def sweepBatchLimit_def dest: in_set_takeD in_set_dropD)
  have "\<forall>m \<in> set ?items. carries_url m"
    using l(2) healthy_carries(2) [OF assms(2)] by blast
  moreover have "seq_room (length ?items) (data s)"
    by (rule healthy_seq_room [OF healthy_mono [OF assms(2)]]) (use l(1) in simp)
  ultimately have "wp False (luaSweep sweepBatchLimit) (data s)
      (\<lambda>r d'. r = Inr (int (length (filter (\<lambda>m. lease (data s) m = None) ?items))) \<and>
        d' = fold requeue1 (filter (\<lambda>m. lease (data s) m = None) ?items) (data s))"
    unfolding luaSweep_def using sweep_items_total [of ?items "data s" 0] by simp
  from rpc_exact [OF assms(1) this] show ?thesis by (simp add: Sweep_def Let_def)
qed

lemma schedule_pass:
  assumes "delivered e" "values_inv (data s)"
    "seq_room (length (due_members (listing_next (data s)) (unix (clock e)) (SchedulerBatchLimit cfg))) (data s)"
  shows "let due = due_members (listing_next (data s)) (unix (clock e)) (SchedulerBatchLimit cfg)
    in \<exists>s'. RunListingScheduler call cfg e s =
          (Inr (int (length (filter (\<lambda>u. \<not> blocked (data s) u (unix (clock e))) due))), s') \<and>
       data s' = fold (schedule1 (unix (clock e))) due (data s)"
proof -
  let ?due = "due_members (listing_next (data s)) (unix (clock e)) (SchedulerBatchLimit cfg)"
  have "wp False (luaListingScheduler (unix (clock e)) (SchedulerBatchLimit cfg) PendingScore) (data s)
      (\<lambda>r d'. r = Inr (int (length (filter (\<lambda>u. \<not> blocked (data s) u (unix (clock e))) ?due))) \<and>
        d' = fold (schedule1 (unix (clock e))) ?due (data s))"
    unfolding luaListingScheduler_def using assms(2,3) schedule_due_total [of ?due "data s" _ 0] by simp
  from rpc_exact [OF assms(1) this] show ?thesis by (simp add: RunListingScheduler_def Let_def)
qed

end

section \<open>Healthy example states\<close>

lemma listing_leased_healthy': "healthy 101 (store_data listing_leased)"
proof -
  have "job_seq (store_data listing_leased) + int 101 \<le> id_limit" by code_simp
  then show ?thesis by (rule replay_healthy_by [OF listing_leased_def, rotated]) simp
qed

text \<open>An operation keeps a state healthy, if fewer identifiers are left.\<close>

lemma run_healthy:
  assumes "redis_server call data" "run call sc s = (r, s')" "op_script op = map_script f sc"
    "op_args op" "healthy k (data s)" "job_seq (data s') + int n \<le> id_limit"
  shows "healthy n (data s')"
proof -
  have "run call (op_script op) s = (map_sum id f r, s')"
    using run_map_script [of call f sc s] assms(2,3) by simp
  note w = redis_server.run_wp [OF assms(1) _ this]
  show ?thesis
    using assms(4-6) w [OF op_inv] w [OF op_values] w [OF op_barred] by (auto simp: healthy_def)
qed

definition seeded :: rstore where
  "seeded = replay [OSeedListing ''http://s'', OAdmitVideo ''http://v'' 100]"

lemma seeded_healthy: "healthy 101 (store_data seeded)"
proof -
  have "job_seq (store_data seeded) + int 101 \<le> id_limit" by code_simp
  then show ?thesis by (rule replay_healthy_by [OF seeded_def, rotated]) simp
qed

section \<open>Reap, Promote, Sweep\<close>

text \<open>C35: Reap requeues the expired leases. A pass takes the earliest expired leases, at most 100, and
  returns their number: their members lose the lease and leave processing, and their URLs are queued
  again in that order; nothing else changes. If at most 100 leases were expired, none is left.\<close>

theorem Reap_requeues_expired:
  assumes "redis_reliable call data" "delivered e" "healthy 101 (data s)"
  shows "let now = unix (clock e); due = due_members (lease (data s)) now reapBatchLimit
    in \<exists>s'. Reap call e s = (Inr (int (length due)), s') \<and>
      lease (data s') = lease (data s) |` (- set due) \<and>
      processing (data s') = filter (\<lambda>m. m \<notin> set due) (processing (data s)) \<and>
      queue (data s') = queue (data s) @ map url_of due \<and>
      delayed (data s') = delayed (data s) \<and> hashes (data s') = hashes (data s) \<and>
      (card (due_set (lease (data s)) now) \<le> 100 \<longrightarrow> due_set (lease (data s')) now = {})"
proof -
  let ?now = "unix (clock e)"
  let ?due = "due_members (lease (data s)) ?now reapBatchLimit"
  obtain s' where s': "Reap call e s = (Inr (int (length ?due)), s')" "data s' = fold requeue1 ?due (data s)"
    using redis_reliable.reap_pass [OF assms] by (auto simp: Let_def)
  have "distinct (processing (data s))" using healthy_distinct [of 100] assms(3) by simp
  moreover have "finite (dom (lease (data s)))"
    by (rule redis_server.finite_zset [OF reliable_server [OF assms(1)]])
  then have "due_set (lease (data s')) ?now = {}" if "card (due_set (lease (data s)) ?now) \<le> 100"
    using that restrict_due [of "lease (data s)" ?now reapBatchLimit]
    by (fastforce simp: s'(2) fold_requeue1 due_set_def [of "_ |` _"] reapBatchLimit_def)
  ultimately show ?thesis
    using s' by (auto simp: Let_def fold_requeue1 fold_requeue1_processing)
qed

lemma Reap_requeues_expired_witness:
  "(let now = unix (clock (call_at (800 * second)));
        due = due_members (lease (store_data listing_leased)) now reapBatchLimit
    in \<exists>s'. Reap store_call (call_at (800 * second)) listing_leased = (Inr (int (length due)), s') \<and>
      lease (store_data s') = lease (store_data listing_leased) |` (- set due) \<and>
      processing (store_data s') = filter (\<lambda>m. m \<notin> set due) (processing (store_data listing_leased)) \<and>
      queue (store_data s') = queue (store_data listing_leased) @ map url_of due \<and>
      delayed (store_data s') = delayed (store_data listing_leased) \<and>
      hashes (store_data s') = hashes (store_data listing_leased) \<and>
      (card (due_set (lease (store_data listing_leased)) now) \<le> 100 \<longrightarrow>
        due_set (lease (store_data s')) now = {})) \<and>
   fst (Reap store_call (call_at (800 * second)) listing_leased) = Inr 1"
proof
  show "fst (Reap store_call (call_at (800 * second)) listing_leased) = Inr 1" by code_simp
qed (rule Reap_requeues_expired [OF store.redis_reliable_axioms delivered_call_at listing_leased_healthy'])

text \<open>Promote queues the delayed jobs that are due. A pass takes the earliest, at most 100, and
  returns their number; their URLs are queued in that order and leave the delayed set; nothing else
  changes. If at most 100 jobs were due, none is left.\<close>

theorem Promote_queues_due:
  assumes "redis_reliable call data" "delivered e" "healthy 101 (data s)"
  shows "let now = unix (clock e); due = due_members (delayed (data s)) now promoteBatchLimit
    in \<exists>s'. Promote call e s = (Inr (int (length due)), s') \<and>
      delayed (data s') = delayed (data s) |` (- set due) \<and>
      queue (data s') = queue (data s) @ map url_of due \<and>
      processing (data s') = processing (data s) \<and> lease (data s') = lease (data s) \<and>
      hashes (data s') = hashes (data s) \<and>
      (card (due_set (delayed (data s)) now) \<le> 100 \<longrightarrow> due_set (delayed (data s')) now = {})"
proof -
  let ?now = "unix (clock e)"
  let ?due = "due_members (delayed (data s)) ?now promoteBatchLimit"
  obtain s' where s': "Promote call e s = (Inr (int (length ?due)), s')" "data s' = fold promote1 ?due (data s)"
    using redis_reliable.promote_pass [OF assms] by (auto simp: Let_def)
  have "finite (dom (delayed (data s)))"
    by (rule redis_server.finite_zset [OF reliable_server [OF assms(1)]])
  then have "due_set (delayed (data s')) ?now = {}" if "card (due_set (delayed (data s)) ?now) \<le> 100"
    using that restrict_due [of "delayed (data s)" ?now promoteBatchLimit]
    by (fastforce simp: s'(2) fold_promote1 due_set_def [of "_ |` _"] promoteBatchLimit_def)
  then show ?thesis
    using s' by (auto simp: Let_def fold_promote1)
qed

definition listing_delayed :: rstore where
  "listing_delayed = snd (Fail store_call DefaultFrontierConfig (call_at (200 * second)) the_job
     FailRateLimited listing_leased)"

lemma listing_delayed_healthy: "healthy 101 (store_data listing_delayed)"
proof -
  let ?sc = "fail_script DefaultFrontierConfig the_job FailRateLimited (200 * second)"
  let ?op = "OFail [''1|http://l'', ''http://l'', ''0'', ''5'', ''200'', ''rate_limited'', ''605000'', ''300'', ''900'', ''2700'']
    ''1|http://l'' ''http://l'' ''0'' 5 200 ''rate_limited'' 605000"
  have s: "op_script ?op = map_script Text ?sc"
    by (simp add: fail_script_def the_job_def DefaultFrontierConfig_def quarantineUntil_def unix_def
        second_def hour_def backoffArgs_def Let_def) (simp add: show_int_def digit_char_def)
  have e: "snd (run store_call ?sc listing_leased) = listing_delayed"
    by (simp add: listing_delayed_def Fail_def rpc_def call_at_def on_reply_def split: prod.split sum.split)
  have "job_seq (store_data listing_delayed) + int 101 \<le> id_limit" by code_simp
  moreover have "op_args ?op" by code_simp
  ultimately show ?thesis
    using run_healthy [OF store.redis_server_axioms prod.collapse [of "run store_call ?sc listing_leased", symmetric] s _
        listing_leased_healthy'] e by simp
qed

lemma Promote_queues_due_witness:
  "(let now = unix (clock (call_at (600 * second)));
        due = due_members (delayed (store_data listing_delayed)) now promoteBatchLimit
    in \<exists>s'. Promote store_call (call_at (600 * second)) listing_delayed = (Inr (int (length due)), s') \<and>
      delayed (store_data s') = delayed (store_data listing_delayed) |` (- set due) \<and>
      queue (store_data s') = queue (store_data listing_delayed) @ map url_of due \<and>
      processing (store_data s') = processing (store_data listing_delayed) \<and>
      lease (store_data s') = lease (store_data listing_delayed) \<and>
      hashes (store_data s') = hashes (store_data listing_delayed) \<and>
      (card (due_set (delayed (store_data listing_delayed)) now) \<le> 100 \<longrightarrow>
        due_set (delayed (store_data s')) now = {})) \<and>
   fst (Promote store_call (call_at (600 * second)) listing_delayed) = Inr 1"
proof
  show "fst (Promote store_call (call_at (600 * second)) listing_delayed) = Inr 1" by code_simp
qed (rule Promote_queues_due [OF store.redis_reliable_axioms delivered_call_at listing_delayed_healthy])

text \<open>Sweep requeues the orphans. A pass scans the 100 oldest members in processing, returns how
  many of them have no lease, queues their URLs again in that order and drops them from processing;
  nothing else changes, and no leased member is touched.\<close>

theorem Sweep_requeues_orphans:
  assumes "redis_reliable call data" "delivered e" "healthy 101 (data s)"
  shows "let orphans = filter (\<lambda>m. lease (data s) m = None)
      (list_range (processing (data s)) (- sweepBatchLimit) (- 1))
    in \<exists>s'. Sweep call e s = (Inr (int (length orphans)), s') \<and>
      lease (data s') = lease (data s) \<and>
      processing (data s') = filter (\<lambda>m. m \<notin> set orphans) (processing (data s)) \<and>
      queue (data s') = queue (data s) @ map url_of orphans \<and>
      delayed (data s') = delayed (data s) \<and> hashes (data s') = hashes (data s) \<and>
      (length (processing (data s)) \<le> 100 \<longrightarrow> set (processing (data s')) = dom (lease (data s')))"
proof -
  let ?items = "list_range (processing (data s)) (- sweepBatchLimit) (- 1)"
  let ?orphans = "filter (\<lambda>m. lease (data s) m = None) ?items"
  obtain s' where s': "Sweep call e s = (Inr (int (length ?orphans)), s')" "data s' = fold requeue1 ?orphans (data s)"
    using redis_reliable.sweep_pass [OF assms] by (auto simp: Let_def)
  have d: "distinct (processing (data s))" "dom (lease (data s)) \<subseteq> set (processing (data s))"
    using healthy_distinct [of 100] assms(3) by simp_all
  have l: "lease (data s) |` (- set ?orphans) = lease (data s)"
    by (auto simp: restrict_map_def fun_eq_iff)
  have "?items = processing (data s)" if "length (processing (data s)) \<le> 100"
    using that by (simp add: list_range_def Let_def sweepBatchLimit_def)
  then have "set (processing (data s')) = dom (lease (data s'))" if "length (processing (data s)) \<le> 100"
    using that d unfolding s'(2) fold_requeue1 fold_requeue1_processing [OF d(1)] l by auto
  moreover have "lease (data s') = lease (data s)" unfolding s'(2) fold_requeue1(2) by (rule l)
  moreover have "processing (data s') = filter (\<lambda>m. m \<notin> set ?orphans) (processing (data s))"
    unfolding s'(2) by (rule fold_requeue1_processing [OF d(1)])
  moreover have "queue (data s') = queue (data s) @ map url_of ?orphans"
    "delayed (data s') = delayed (data s)" "hashes (data s') = hashes (data s)"
    unfolding s'(2) by (rule fold_requeue1)+
  ultimately show ?thesis
    unfolding Let_def using s'(1) by blast
qed

text \<open>A Nack that failed after its ZREM leaves an orphan in processing.\<close>

definition orphaned :: rstore where
  "orphaned = snd (snd (run flaky_call (luaNack ''1|http://l'' ''http://l'') ([False, True], listing_leased)))"

lemma orphaned_healthy: "healthy 101 (store_data orphaned)"
proof -
  let ?x = "run flaky_call (luaNack ''1|http://l'' ''http://l'') ([False, True], listing_leased)"
  have "job_seq (flaky_data (snd ?x)) + int 101 \<le> id_limit" by code_simp
  from run_healthy [OF flaky.redis_server_axioms prod.collapse [of ?x, symmetric], of "ONack ''1|http://l'' ''http://l''" Text 101 101,
      OF _ _ _ this] listing_leased_healthy'
  show ?thesis by (simp add: flaky_data_def orphaned_def)
qed

lemma Sweep_requeues_orphans_witness:
  "(let orphans = filter (\<lambda>m. lease (store_data orphaned) m = None)
      (list_range (processing (store_data orphaned)) (- sweepBatchLimit) (- 1))
    in \<exists>s'. Sweep store_call (call_at (300 * second)) orphaned = (Inr (int (length orphans)), s') \<and>
      lease (store_data s') = lease (store_data orphaned) \<and>
      processing (store_data s') = filter (\<lambda>m. m \<notin> set orphans) (processing (store_data orphaned)) \<and>
      queue (store_data s') = queue (store_data orphaned) @ map url_of orphans \<and>
      delayed (store_data s') = delayed (store_data orphaned) \<and> hashes (store_data s') = hashes (store_data orphaned) \<and>
      (length (processing (store_data orphaned)) \<le> 100 \<longrightarrow>
        set (processing (store_data s')) = dom (lease (store_data s')))) \<and>
   fst (Sweep store_call (call_at (300 * second)) orphaned) = Inr 1"
proof
  show "fst (Sweep store_call (call_at (300 * second)) orphaned) = Inr 1" by code_simp
qed (rule Sweep_requeues_orphans [OF store.redis_reliable_axioms delivered_call_at orphaned_healthy])

section \<open>The listing scheduler\<close>

lemma rescheduled_later:
  assumes "rescheduled now d u = Some t" "now < PendingScore"
  shows "now < t"
  using assms by (auto simp: rescheduled_def blocked_def split: if_splits option.splits)

lemma due_set_schedule:
  assumes "values_inv d" "distinct us" "now < PendingScore"
  shows "due_set (listing_next (fold (schedule1 now) us d)) now = due_set (listing_next d) now - set us"
proof -
  have "u \<notin> due_set (listing_next (fold (schedule1 now) us d)) now" if "u \<in> set us" for u
    using that fold_schedule1 [OF assms(1,2), of now] rescheduled_later [OF _ assms(3), of d u]
    by (fastforce simp: due_set_def)
  moreover have "u \<in> due_set (listing_next (fold (schedule1 now) us d)) now \<longleftrightarrow> u \<in> due_set (listing_next d) now"
    if "u \<notin> set us" for u
    using that by (simp add: due_set_def fold_schedule1_other)
  ultimately show ?thesis by blast
qed

text \<open>C36: A pass of the listing scheduler handles the earliest due listings, at most the batch limit,
  and returns how many it queued: a listing dead forever leaves the schedule, a quarantined one is
  put off until its quarantine ends, any other is queued in order and marked pending. Other listings
  and jobs are untouched, and none of the handled listings is due any more.\<close>

theorem RunListingScheduler_pass:
  assumes "redis_reliable call data" "delivered e" "0 \<le> SchedulerBatchLimit cfg"
    "healthy (nat (SchedulerBatchLimit cfg)) (data s)" "unix (clock e) < PendingScore"
  shows "let now = unix (clock e); d = data s; due = due_members (listing_next d) now (SchedulerBatchLimit cfg)
    in \<exists>s'. RunListingScheduler call cfg e s =
          (Inr (int (length (filter (\<lambda>u. \<not> blocked d u now) due))), s') \<and>
       queue (data s') = queue d @ filter (\<lambda>u. \<not> blocked d u now) due \<and>
       (\<forall>u. listing_next (data s') u = (if u \<in> set due then rescheduled now d u else listing_next d u)) \<and>
       processing (data s') = processing d \<and> lease (data s') = lease d \<and> delayed (data s') = delayed d \<and>
       due_set (listing_next (data s')) now = due_set (listing_next d) now - set due"
proof -
  let ?now = "unix (clock e)"
  let ?due = "due_members (listing_next (data s)) ?now (SchedulerBatchLimit cfg)"
  have v: "values_inv (data s)" using assms(4) by (simp add: healthy_def)
  have r: "seq_room (length ?due) (data s)"
    by (rule healthy_seq_room [OF healthy_mono [OF assms(4)]]) (rule length_due_members [OF assms(3)])
  obtain s' where s': "RunListingScheduler call cfg e s =
      (Inr (int (length (filter (\<lambda>u. \<not> blocked (data s) u ?now) ?due))), s')"
    "data s' = fold (schedule1 ?now) ?due (data s)"
    using redis_reliable.schedule_pass [OF assms(1,2) v r] by (auto simp: Let_def)
  show ?thesis
    unfolding Let_def
    using s'(1) fold_schedule1 [OF v distinct_due_members, of ?now] due_set_schedule [OF v distinct_due_members assms(5)]
    by (intro exI [of _ s']) (simp add: s'(2) fold_schedule1_other)
qed

lemma RunListingScheduler_pass_witness:
  "(let now = unix (clock (call_at (300000 * second))); d = store_data seeded;
        due = due_members (listing_next d) now (SchedulerBatchLimit DefaultFrontierConfig)
    in \<exists>s'. RunListingScheduler store_call DefaultFrontierConfig (call_at (300000 * second)) seeded =
          (Inr (int (length (filter (\<lambda>u. \<not> blocked d u now) due))), s') \<and>
       queue (store_data s') = queue d @ filter (\<lambda>u. \<not> blocked d u now) due \<and>
       (\<forall>u. listing_next (store_data s') u = (if u \<in> set due then rescheduled now d u else listing_next d u)) \<and>
       processing (store_data s') = processing d \<and> lease (store_data s') = lease d \<and>
       delayed (store_data s') = delayed d \<and>
       due_set (listing_next (store_data s')) now = due_set (listing_next d) now - set due) \<and>
   fst (RunListingScheduler store_call DefaultFrontierConfig (call_at (300000 * second)) seeded) = Inr 1"
proof
  have "0 \<le> SchedulerBatchLimit DefaultFrontierConfig"
    "unix (clock (call_at (300000 * second))) < PendingScore" by code_simp+
  moreover have "healthy (nat (SchedulerBatchLimit DefaultFrontierConfig)) (store_data seeded)"
    by (rule healthy_mono [OF seeded_healthy]) (simp add: DefaultFrontierConfig_def)
  ultimately show "let now = unix (clock (call_at (300000 * second))); d = store_data seeded;
        due = due_members (listing_next d) now (SchedulerBatchLimit DefaultFrontierConfig)
    in \<exists>s'. RunListingScheduler store_call DefaultFrontierConfig (call_at (300000 * second)) seeded =
          (Inr (int (length (filter (\<lambda>u. \<not> blocked d u now) due))), s') \<and>
       queue (store_data s') = queue d @ filter (\<lambda>u. \<not> blocked d u now) due \<and>
       (\<forall>u. listing_next (store_data s') u = (if u \<in> set due then rescheduled now d u else listing_next d u)) \<and>
       processing (store_data s') = processing d \<and> lease (store_data s') = lease d \<and>
       delayed (store_data s') = delayed d \<and>
       due_set (listing_next (store_data s')) now = due_set (listing_next d) now - set due"
    by (intro RunListingScheduler_pass [OF store.redis_reliable_axioms delivered_call_at])
  show "fst (RunListingScheduler store_call DefaultFrontierConfig (call_at (300000 * second)) seeded) = Inr 1"
    by code_simp
qed

section \<open>Observing the frontier\<close>

lemma wp_int_cmd [simp]:
  "wp False (int_cmd c f) d Q \<longleftrightarrow> redis_applicable c d \<and> (\<forall>v d'. redis_doc c d v d' \<longrightarrow> wp False (int_reply f v) d' Q)"
  by (simp add: int_cmd_def)

definition stats_of :: "keyspace \<Rightarrow> FrontierStats" where
  "stats_of d =
     \<lparr>Ready = int (length (ready d)), Processing = int (length (processing d)),
      DelayedCount = int (card (dom (delayed d))),
      ListingsScheduled = int (score_count (listing_next d) None (PendingScore - 1)),
      ListingsPending = int (score_count (listing_next d) (Some PendingScore) PendingScore),
      DeadCount = int (card (dom (dead d))), Strikes = int (card (dom (strikes d)))\<rparr>"

lemma stats_total: "wp False stats_pipeline d (\<lambda>r d'. r = Inr (stats_of d) \<and> d' = d)"
  by (simp add: stats_pipeline_def stats_of_def)

lemma live_iff:
  assumes "barred d"
  shows "(\<exists>u. live d u) \<longleftrightarrow> ready d \<noteq> [] \<or> processing d \<noteq> [] \<or> dom (delayed d) \<noteq> {}"
proof
  assume "ready d \<noteq> [] \<or> processing d \<noteq> [] \<or> dom (delayed d) \<noteq> {}"
  then obtain m where "m \<in> set (ready d) \<union> set (processing d) \<union> dom (delayed d)"
    by (metis Un_iff all_not_in_conv set_empty)
  with assms show "\<exists>u. live d u"
    unfolding barred_def carries_url_def live_def carries_def by fastforce
qed (auto simp: live_def carries_def)

text \<open>Idle is exact. On a healthy state it changes nothing and answers true exactly when no URL
  has a queued job: nothing ready, in processing or delayed. Stats returns the sizes of all seven
  collections.\<close>

theorem Idle_exact:
  assumes "redis_reliable call data" "delivered e" "healthy 0 (data s)"
  shows "(\<exists>s'. Stats call e s = (Inr (stats_of (data s)), s') \<and> data s' = data s) \<and>
    (\<exists>s'. Idle call e s = (Inr (\<not> (\<exists>u. live (data s) u)), s') \<and> data s' = data s)"
proof -
  obtain s' where s': "Stats call e s = (Inr (stats_of (data s)), s')" "data s' = data s"
    using redis_reliable.rpc_exact [OF assms(1,2) stats_total] by (auto simp: Stats_def)
  have "finite (dom (delayed (data s)))"
    by (rule redis_server.finite_zset [OF reliable_server [OF assms(1)]])
  then have "(Ready (stats_of (data s)) = 0 \<and> Processing (stats_of (data s)) = 0 \<and>
      DelayedCount (stats_of (data s)) = 0) = (\<not> (\<exists>u. live (data s) u))"
    using live_iff [of "data s"] assms(3) by (auto simp: healthy_def stats_of_def)
  with s' show ?thesis by (simp add: Idle_def on_reply_def)
qed

lemma Idle_exact_witness:
  "(\<exists>s'. Stats store_call (call_at 0) listing_leased = (Inr (stats_of (store_data listing_leased)), s') \<and>
      store_data s' = store_data listing_leased) \<and>
   (\<exists>s'. Idle store_call (call_at 0) listing_leased = (Inr (\<not> (\<exists>u. live (store_data listing_leased) u)), s') \<and>
      store_data s' = store_data listing_leased) \<and>
   fst (Idle store_call (call_at 0) listing_leased) = Inr False"
proof -
  have h: "healthy 0 (store_data listing_leased)"
    by (rule healthy_mono [OF listing_leased_healthy]) simp
  have "fst (Idle store_call (call_at 0) listing_leased) = Inr False" by code_simp
  with Idle_exact [OF store.redis_reliable_axioms delivered_call_at h] show ?thesis by blast
qed

end
