(* ===== verification/Scheduler.thy ===== *)
theory Scheduler
  imports Frontier_Reconcile Complex_Main
begin

text \<open>
  The reconcilers of \<open>src/internal/scheduler/scheduler.go\<close>: the tick loop, the four reconciler bodies,
  the Bloom monitor, the heartbeat, and their metrics. The reconcilers rely on the frontier through
  the locale \<open>page_scheduler\<close>; it is proved for the frontier of this development.
\<close>

section \<open>Metrics and the tick loop\<close>

record metrics =
  ReconcileErrors :: nat
  ListingsAdmittedTotal :: int
  PromotedTotal :: int
  ReapedTotal :: int
  SweptTotal :: int
  BloomFillGauge :: "rat option"
  StatsGauge :: "FrontierStats option"
  IdleGauge :: "int option"

definition count_error :: "metrics \<Rightarrow> metrics" where
  "count_error mt = mt\<lparr>ReconcileErrors := ReconcileErrors mt + 1\<rparr>"

datatype wake = CtxDone | TickerFired

text \<open>
  \<open>everyTick\<close> on an observed run: per turn, whether the context was cancelled at the check, what
  the body's calls meet (\<open>'e\<close>), and which case of the select fired. A run that ends without a
  cancellation is a prefix of a longer one.
\<close>

fun everyTick :: "('e \<Rightarrow> 'x \<Rightarrow> 'x) \<Rightarrow> (bool \<times> 'e \<times> wake) list \<Rightarrow> 'x \<Rightarrow> 'x" where
  "everyTick fn [] x = x"
| "everyTick fn ((cancelled, e, w) # ws) x =
     (if cancelled then x
      else let y = fn e x in (case w of CtxDone \<Rightarrow> y | TickerFired \<Rightarrow> everyTick fn ws y))"

section \<open>The reconcilers\<close>

text \<open>The body of \<open>runListingScheduler\<close>: pages until one is short. \<open>None\<close> when the fuel is used up.\<close>

fun listing_tick :: "'s frontier_methods \<Rightarrow> int \<Rightarrow> (nat \<Rightarrow> call_env) \<Rightarrow> nat \<Rightarrow> metrics \<times> 's \<Rightarrow>
    (metrics \<times> 's) option" where
  "listing_tick F limit es 0 (mt, s) = None"
| "listing_tick F limit es (Suc k) (mt, s) =
     (case fr_RunListingScheduler F (es 0) s of
        (Inl err, s') \<Rightarrow> Some (count_error mt, s')
      | (Inr n, s') \<Rightarrow>
          (let mt' = mt\<lparr>ListingsAdmittedTotal := ListingsAdmittedTotal mt + n\<rparr>
           in if n < limit then Some (mt', s')
              else listing_tick F limit (\<lambda>i. es (Suc i)) k (mt', s')))"

definition promoter_tick :: "'s frontier_methods \<Rightarrow> call_env \<Rightarrow> metrics \<times> 's \<Rightarrow> metrics \<times> 's" where
  "promoter_tick F e x = (case fr_Promote F e (snd x) of
     (Inl err, s) \<Rightarrow> (count_error (fst x), s)
   | (Inr n, s) \<Rightarrow> ((fst x)\<lparr>PromotedTotal := PromotedTotal (fst x) + n\<rparr>, s))"

definition reaper_tick :: "'s frontier_methods \<Rightarrow> call_env \<Rightarrow> metrics \<times> 's \<Rightarrow> metrics \<times> 's" where
  "reaper_tick F e x = (case fr_Reap F e (snd x) of
     (Inl err, s) \<Rightarrow> (count_error (fst x), s)
   | (Inr n, s) \<Rightarrow> ((fst x)\<lparr>ReapedTotal := ReapedTotal (fst x) + n\<rparr>, s))"

definition sweeper_tick :: "'s frontier_methods \<Rightarrow> call_env \<Rightarrow> metrics \<times> 's \<Rightarrow> metrics \<times> 's" where
  "sweeper_tick F e x = (case fr_Sweep F e (snd x) of
     (Inl err, s) \<Rightarrow> (count_error (fst x), s)
   | (Inr n, s) \<Rightarrow> ((fst x)\<lparr>SweptTotal := SweptTotal (fst x) + n\<rparr>, s))"

definition heartbeat_tick :: "'s frontier_methods \<Rightarrow> call_env \<times> call_env \<Rightarrow> metrics \<times> 's \<Rightarrow> metrics \<times> 's" where
  "heartbeat_tick F e x = (case fr_Stats F (fst e) (snd x) of
     (Inl err, s) \<Rightarrow> (count_error (fst x), s)
   | (Inr stats, s) \<Rightarrow>
       (let mt = (fst x)\<lparr>StatsGauge := Some stats\<rparr>
        in case fr_Idle F (snd e) s of
             (Inl err, s') \<Rightarrow> (mt, s')
           | (Inr idle, s') \<Rightarrow> (mt\<lparr>IdleGauge := Some (if idle then 1 else 0)\<rparr>, s')))"

section \<open>The Bloom monitor\<close>

definition bloomFillAlerts :: "rat list" where
  "bloomFillAlerts = [4 / 5, 9 / 10, 19 / 20]"

function bloom_warn :: "rat \<Rightarrow> nat \<Rightarrow> nat list \<Rightarrow> nat \<times> nat list" where
  "bloom_warn ratio warned logged =
     (if warned < length bloomFillAlerts \<and> ratio \<ge> bloomFillAlerts ! warned
      then bloom_warn ratio (warned + 1) (logged @ [warned])
      else (warned, logged))"
  by auto
termination
  by (relation "measure (\<lambda>(ratio, warned, logged). length bloomFillAlerts - warned)") auto

declare bloom_warn.simps [simp del]

record monitor =
  warned :: nat
  logged :: "nat list"
  stopped :: bool
  mon_metrics :: metrics

text \<open>One tick: what \<open>BloomVerify\<close> and \<open>BloomFillRatio\<close> answered comes from the server.\<close>

definition bloom_tick :: "bool \<times> (go_error + rat) \<Rightarrow> monitor \<Rightarrow> monitor" where
  "bloom_tick e x =
     (if \<not> fst e then x\<lparr>stopped := True\<rparr>
      else case snd e of
        Inl err \<Rightarrow> x\<lparr>mon_metrics := count_error (mon_metrics x)\<rparr>
      | Inr ratio \<Rightarrow>
          (let (w, l) = bloom_warn ratio (warned x) (logged x)
           in x\<lparr>warned := w, logged := l,
                mon_metrics := (mon_metrics x)\<lparr>BloomFillGauge := Some ratio\<rparr>\<rparr>))"

section \<open>Warnings are given once, in order\<close>

definition reached :: "rat \<Rightarrow> nat" where
  "reached ratio = length (filter (\<lambda>t. t \<le> ratio) bloomFillAlerts)"

lemma bloom_warn_spec:
  assumes "k \<le> 3"
  shows "bloom_warn ratio k l = (max k (reached ratio), l @ [k ..< max k (reached ratio)])"
proof -
  note u = bloom_warn.simps [of ratio]
  from assms consider "k = 0" | "k = 1" | "k = 2" | "k = 3" by linarith
  then show ?thesis
    by cases (auto simp: bloomFillAlerts_def reached_def u numeral_2_eq_2 numeral_3_eq_3 upt_rec)
qed

lemma reached_le: "reached ratio \<le> 3"
  unfolding reached_def by (rule order_trans [OF length_filter_le]) (simp add: bloomFillAlerts_def)

definition monitor_start :: "metrics \<Rightarrow> monitor" where
  "monitor_start mt = \<lparr>warned = 0, logged = [], stopped = False, mon_metrics = mt\<rparr>"

lemma upt_join [simp]: "[0 ..< i] @ [i ..< max i j] = [0 ..< max i j]" for i j :: nat
  using upt_add_eq_append [of 0 i "max i j - i"] by simp

lemma bloom_tick_inv:
  assumes "warned x \<le> 3" "logged x = [0 ..< warned x]"
  shows "warned (bloom_tick e x) \<le> 3 \<and> logged (bloom_tick e x) = [0 ..< warned (bloom_tick e x)] \<and>
    warned x \<le> warned (bloom_tick e x)"
  using assms reached_le upt_join
  by (auto simp: bloom_tick_def bloom_warn_spec split: sum.split)

definition ratio_of :: "bool \<times> (go_error + rat) \<Rightarrow> nat" where
  "ratio_of e = (if fst e then (case snd e of Inl err \<Rightarrow> 0 | Inr r \<Rightarrow> reached r) else 0)"

lemma ratio_of_le [simp]: "ratio_of e \<le> 3"
  using reached_le by (auto simp: ratio_of_def split: sum.split)

lemma bloom_tick_warned: "warned x \<le> 3 \<Longrightarrow> warned (bloom_tick e x) = max (warned x) (ratio_of e)"
  by (auto simp: bloom_tick_def bloom_warn_spec ratio_of_def split: sum.split)

text \<open>The Bloom monitor warns once per threshold, in ascending order, and never again. After any
  sequence of checks, failed ones included, the warnings logged are exactly those for the thresholds
  0.80, 0.90 and 0.95 that the fill ratio has reached so far, each one once.\<close>

theorem bloom_warnings_once:
  "let x = fold bloom_tick es (monitor_start mt)
   in logged x = [0 ..< warned x] \<and> warned x = Max (insert 0 (ratio_of ` set es))"
proof -
  have "warned (fold bloom_tick es x) \<le> 3 \<and>
      logged (fold bloom_tick es x) = [0 ..< warned (fold bloom_tick es x)] \<and>
      warned (fold bloom_tick es x) = Max (insert (warned x) (ratio_of ` set es))"
    if "warned x \<le> 3" "logged x = [0 ..< warned x]" for x
    using that
  proof (induction es arbitrary: x)
    case (Cons e es)
    have "Max (insert (warned x) (ratio_of ` set (e # es))) =
        Max (insert (max (warned x) (ratio_of e)) (ratio_of ` set es))"
      by (cases "es = []") (auto simp: Max_insert max.assoc)
    with Cons bloom_tick_inv [OF Cons.prems, of e] bloom_tick_warned [OF Cons.prems(1), of e]
    show ?case by simp
  qed simp
  from this [of "monitor_start mt"] show ?thesis
    by (simp add: monitor_start_def Let_def)
qed

section \<open>Draining the listing schedule\<close>

text \<open>
  What the drain loop needs of a page: it answers, and each listing it reports is one listing less
  in a finite amount of work.
\<close>

locale page_scheduler =
  fixes F :: "'s frontier_methods"
    and fit :: "call_env \<Rightarrow> bool"
    and good :: "'s \<Rightarrow> bool"
    and work :: "'s \<Rightarrow> nat"
  assumes page_step: "fit e \<Longrightarrow> good s \<Longrightarrow>
    \<exists>n s'. fr_RunListingScheduler F e s = (Inr n, s') \<and> 0 \<le> n \<and> good s' \<and> work s' + nat n \<le> work s"
begin

lemma drain_ends:
  assumes "1 \<le> limit" "\<And>i. fit (es i)" "good s" "work s < k"
  shows "\<exists>mt' s'. listing_tick F limit es k (mt, s) = Some (mt', s') \<and> good s' \<and>
    ReconcileErrors mt' = ReconcileErrors mt"
  using assms(2-4)
proof (induction k arbitrary: es mt s)
  case (Suc k)
  obtain n s1 where n: "fr_RunListingScheduler F (es 0) s = (Inr n, s1)" "0 \<le> n" "good s1"
    "work s1 + nat n \<le> work s"
    using page_step [OF Suc.prems(1) Suc.prems(2)] by blast
  show ?case
  proof (cases "n < limit")
    case False
    with assms(1) n Suc.prems(3) have "work s1 < k" by linarith
    with Suc.IH [of "\<lambda>i. es (Suc i)" s1 "mt\<lparr>ListingsAdmittedTotal := ListingsAdmittedTotal mt + n\<rparr>"]
      Suc.prems(1) n(3) False n(1) show ?thesis by (auto simp: Let_def)
  qed (use n in simp)
qed simp

lemma drain_spins:
  assumes "limit \<le> 0" "\<And>i. fit (es i)" "good s"
  shows "listing_tick F limit es k (mt, s) = None"
  using assms(2,3)
proof (induction k arbitrary: es mt s)
  case (Suc k)
  obtain n s1 where n: "fr_RunListingScheduler F (es 0) s = (Inr n, s1)" "0 \<le> n" "good s1"
    using page_step [OF Suc.prems(1) Suc.prems(2)] by blast
  with assms(1) Suc.IH [of "\<lambda>i. es (Suc i)" s1] Suc.prems(1) show ?case by (simp add: Let_def)
qed simp

end

text \<open>The listings with a due time, not pending: what there is to drain.\<close>

definition scheduled :: "keyspace \<Rightarrow> url set" where
  "scheduled d = {u. \<exists>t. listing_next d u = Some t \<and> t < PendingScore}"

lemma job_seq_schedule1:
  assumes "values_inv d" "seq_room (Suc k) d"
  shows "job_seq (schedule1 now u d) = job_seq d + (if blocked d u now then 0 else 1)"
proof -
  have "in_int64 (job_seq d + 1)" using seq_room_push [OF assms(2)] by simp
  then have "job_seq (push_job u d) = job_seq d + 1" "job_seq (push_job u (thaw u d)) = job_seq d + 1"
    using job_seq_bump [of d] job_seq_bump [of "thaw u d"] by (simp_all add: push_job_def)
  then show ?thesis
    using dead_until [OF assms(1), of u] by (cases "dead d u") (auto simp: schedule1_def blocked_def)
qed

lemma job_seq_fold_schedule1:
  "values_inv d \<Longrightarrow> seq_room (length us) d \<Longrightarrow> distinct us \<Longrightarrow>
     job_seq (fold (schedule1 now) us d) = job_seq d + int (length (filter (\<lambda>u. \<not> blocked d u now) us))"
proof (induction us arbitrary: d)
  case (Cons v us)
  let ?d = "schedule1 now v d"
  have "dead ?d x = dead d x" if "x \<in> set us" for x
    using Cons.prems(3) that schedule1_other(5) [of x v now d] by auto
  then have "filter (\<lambda>u. \<not> blocked ?d u now) us = filter (\<lambda>u. \<not> blocked d u now) us"
    using blocked_cong by (intro filter_cong refl) metis
  with Cons.IH [of ?d] Cons.prems schedule1_room schedule1_self(3) job_seq_schedule1 show ?case by simp
qed simp

lemma scheduled_after:
  assumes "values_inv d" "distinct us" "set us \<subseteq> scheduled d"
  shows "scheduled (fold (schedule1 now) us d) \<subseteq> scheduled d - set (filter (\<lambda>u. \<not> blocked d u now) us)"
proof
  fix u
  assume "u \<in> scheduled (fold (schedule1 now) us d)"
  then obtain t where t: "listing_next (fold (schedule1 now) us d) u = Some t" "t < PendingScore"
    by (auto simp: scheduled_def)
  show "u \<in> scheduled d - set (filter (\<lambda>u. \<not> blocked d u now) us)"
  proof (cases "u \<in> set us")
    case True
    with t fold_schedule1 [OF assms(1,2), of now] have "rescheduled now d u = Some t" by simp
    with t(2) True assms(3) show ?thesis by (auto simp: rescheduled_def split: if_splits)
  next
    case False
    with t show ?thesis by (auto simp: scheduled_def fold_schedule1_other)
  qed
qed

definition drain_fit :: "call_env \<Rightarrow> bool" where
  "drain_fit e \<longleftrightarrow> delivered e \<and> unix (clock e) < PendingScore"

context redis_reliable
begin

lemma page:
  assumes "drain_fit e" "healthy (card (scheduled (data s))) (data s)"
  shows "\<exists>n s'. RunListingScheduler call cfg e s = (Inr n, s') \<and> 0 \<le> n \<and>
    healthy (card (scheduled (data s'))) (data s') \<and>
    card (scheduled (data s')) + nat n \<le> card (scheduled (data s))"
proof -
  let ?now = "unix (clock e)" and ?d = "data s"
  let ?due = "due_members (listing_next ?d) ?now (SchedulerBatchLimit cfg)"
  let ?new = "filter (\<lambda>u. \<not> blocked ?d u ?now) ?due"
  have fin: "finite (scheduled ?d)"
    by (rule finite_subset [OF _ finite_zset [of s keyListingNext]]) (auto simp: scheduled_def)
  have v: "values_inv ?d" using assms(2) by (simp add: healthy_def)
  have sub: "set ?due \<subseteq> scheduled ?d"
    using due_subset [OF finite_zset, of s keyListingNext ?now "SchedulerBatchLimit cfg"] assms(1)
    by (force simp: due_set_def scheduled_def drain_fit_def)
  have "length ?due \<le> card (scheduled ?d)"
    using distinct_card [OF distinct_due_members] card_mono [OF fin sub] by metis
  then have r: "seq_room (length ?due) ?d"
    using healthy_seq_room healthy_mono assms(2) by blast
  obtain s' where s': "RunListingScheduler call cfg e s = (Inr (int (length ?new)), s')"
    "data s' = fold (schedule1 ?now) ?due ?d"
    using schedule_pass [OF _ v r] assms(1) by (auto simp: drain_fit_def Let_def)
  have "card (scheduled (data s')) + length ?new \<le> card (scheduled ?d)"
  proof -
    have new: "set ?new \<subseteq> scheduled ?d" "length ?new = card (set ?new)"
      using sub distinct_card [of ?new] by auto
    have "card (scheduled (data s')) \<le> card (scheduled ?d - set ?new)"
      unfolding s'(2) using scheduled_after [OF v distinct_due_members sub] fin
      by (intro card_mono) auto
    also have "\<dots> = card (scheduled ?d) - length ?new"
      unfolding new(2) by (rule card_Diff_subset [OF finite_set new(1)])
    finally show ?thesis
      using card_mono [OF fin new(1)] new(2) by linarith
  qed
  moreover have "job_seq (data s') = job_seq ?d + int (length ?new)"
    unfolding s'(2) by (rule job_seq_fold_schedule1 [OF v r distinct_due_members])
  moreover have "frontier_inv (data s') \<and> values_inv (data s') \<and> barred (data s')"
  proof -
    obtain tr where "server_trace call s tr s'" "\<forall>ev \<in> set tr. fst ev = OSchedule ?now (SchedulerBatchLimit cfg)"
      using s'(1) rpc_via [of call e _ s _ s' "OSchedule ?now (SchedulerBatchLimit cfg)" Num]
      by (fastforce simp: RunListingScheduler_def via_def)
    then show ?thesis
      using trace_inv trace_values trace_keeps [of s tr s' barred] op_barred assms(2)
      by (fastforce simp: healthy_def)
  qed
  ultimately show ?thesis
    using s'(1) assms(2) by (intro exI [of _ "int (length ?new)"] exI [of _ s']) (auto simp: healthy_def)
qed

end

sublocale redis_reliable \<subseteq> pages: page_scheduler "NewFrontier call cfg cl" drain_fit
  "\<lambda>s. healthy (card (scheduled (data s))) (data s)" "\<lambda>s. card (scheduled (data s))" for cfg cl
  by unfold_locales (simp add: NewFrontier_def page)

context redis_reliable
begin

lemmas drain_pages_ends = pages.drain_ends
lemmas drain_pages_spins = pages.drain_spins

end

text \<open>C38: Draining the listing schedule ends. With a batch limit of at least one, on a reliable server,
  a tick of the listing scheduler returns after at most one page more than there are scheduled
  listings, whatever the clock does between pages, without counting an error.\<close>

theorem listing_drain_terminates:
  assumes "redis_reliable call data" "1 \<le> limit" "\<forall>i. drain_fit (es i)"
    "healthy (card (scheduled (data s))) (data s)" "card (scheduled (data s)) < k"
  shows "\<exists>mt' s'. listing_tick (NewFrontier call cfg cl) limit es k (mt, s) = Some (mt', s') \<and>
    ReconcileErrors mt' = ReconcileErrors mt"
  using redis_reliable.drain_pages_ends [OF assms(1,2) _ assms(4,5)] assms(3) by blast

definition no_metrics :: metrics where
  "no_metrics = \<lparr>ReconcileErrors = 0, ListingsAdmittedTotal = 0, PromotedTotal = 0, ReapedTotal = 0,
     SweptTotal = 0, BloomFillGauge = None, StatsGauge = None, IdleGauge = None\<rparr>"

lemma scheduled_seeded: "scheduled (store_data seeded) = {''http://s''}"
proof -
  have "r_zsets seeded keyListingNext = [(''http://s'', 0)]" by code_simp
  then show ?thesis by (auto simp: scheduled_def PendingScore_def split: if_splits)
qed

lemma seeded_drainable: "healthy (card (scheduled (store_data seeded))) (store_data seeded)"
  by (rule healthy_mono [OF seeded_healthy]) (simp add: scheduled_seeded)

lemma drain_fit_1000: "\<forall>i. drain_fit ((\<lambda>_. call_at (1000 * second)) i)"
  by (simp add: drain_fit_def call_at_def unix_def PendingScore_def second_def delivered_def)

lemma listing_drain_terminates_witness:
  "(\<exists>mt' s'. listing_tick (NewFrontier store_call DefaultFrontierConfig None) 1 (\<lambda>_. call_at (1000 * second)) 2
      (no_metrics, seeded) = Some (mt', s') \<and> ReconcileErrors mt' = ReconcileErrors no_metrics) \<and>
   map_option (\<lambda>x. ListingsAdmittedTotal (fst x)) (listing_tick (NewFrontier store_call DefaultFrontierConfig None) 1
     (\<lambda>_. call_at (1000 * second)) 2 (no_metrics, seeded)) = Some 1"
proof
  have "card (scheduled (store_data seeded)) < 2" by (simp add: scheduled_seeded)
  then show "\<exists>mt' s'. listing_tick (NewFrontier store_call DefaultFrontierConfig None) 1 (\<lambda>_. call_at (1000 * second)) 2
      (no_metrics, seeded) = Some (mt', s') \<and> ReconcileErrors mt' = ReconcileErrors no_metrics"
    by (intro listing_drain_terminates [OF store.redis_reliable_axioms _ drain_fit_1000 seeded_drainable]) simp_all
  show "map_option (\<lambda>x. ListingsAdmittedTotal (fst x)) (listing_tick (NewFrontier store_call DefaultFrontierConfig None) 1
     (\<lambda>_. call_at (1000 * second)) 2 (no_metrics, seeded)) = Some 1"
    by code_simp
qed

text \<open>A batch limit of zero or below never drains. The page count is then never below the limit,
  so on a server where nothing fails the loop never returns, whatever the fuel: a value the
  configuration accepts makes the listing scheduler spin.\<close>

theorem listing_drain_spins:
  assumes "redis_reliable call data" "limit \<le> 0" "\<forall>i. drain_fit (es i)"
    "healthy (card (scheduled (data s))) (data s)"
  shows "listing_tick (NewFrontier call cfg cl) limit es k (mt, s) = None"
  using redis_reliable.drain_pages_spins [OF assms(1,2) _ assms(4)] assms(3) by blast

lemma listing_drain_spins_witness:
  "listing_tick (NewFrontier store_call (DefaultFrontierConfig\<lparr>SchedulerBatchLimit := 0\<rparr>) None) 0
     (\<lambda>_. call_at (1000 * second)) 1000000 (no_metrics, seeded) = None"
  by (rule listing_drain_spins [OF store.redis_reliable_axioms _ drain_fit_1000 seeded_drainable]) simp

end
