(* ===== verification/Go_Strings.thy ===== *)
theory Go_Strings
  imports Gfap_Prelude
begin

text \<open>
  What the program uses of Go's string handling beyond bytes: decoding a string into runes as the
  range loop does, and the functions of package \<open>strings\<close> that work on runes (TrimSpace, Fields,
  ToLower and EqualFold against ASCII text).
\<close>

section \<open>Runes\<close>

definition byte :: "char \<Rightarrow> int" where
  "byte c = of_char c"

definition runeError :: int where
  "runeError = 65533"

definition cont :: "int \<Rightarrow> bool" where
  "cont b \<longleftrightarrow> 128 \<le> b \<and> b \<le> 191"

text \<open>\<open>utf8.DecodeRuneInString\<close> on the leading bytes: the rune and its width, 1 for an invalid byte.\<close>

fun decode_rune :: "int list \<Rightarrow> int \<times> nat" where
  "decode_rune [] = (runeError, 0)"
| "decode_rune (b0 # bs) =
     (if b0 < 128 then (b0, 1)
      else if 194 \<le> b0 \<and> b0 \<le> 223 then
        (case bs of
           b1 # _ \<Rightarrow> if cont b1 then ((b0 - 192) * 64 + (b1 - 128), 2) else (runeError, 1)
         | [] \<Rightarrow> (runeError, 1))
      else if 224 \<le> b0 \<and> b0 \<le> 239 then
        (case bs of
           b1 # b2 # _ \<Rightarrow>
             if (if b0 = 224 then 160 else 128) \<le> b1 \<and> b1 \<le> (if b0 = 237 then 159 else 191) \<and> cont b2
             then ((b0 - 224) * 4096 + (b1 - 128) * 64 + (b2 - 128), 3) else (runeError, 1)
         | _ \<Rightarrow> (runeError, 1))
      else if 240 \<le> b0 \<and> b0 \<le> 244 then
        (case bs of
           b1 # b2 # b3 # _ \<Rightarrow>
             if (if b0 = 240 then 144 else 128) \<le> b1 \<and> b1 \<le> (if b0 = 244 then 143 else 191) \<and>
                cont b2 \<and> cont b3
             then ((b0 - 240) * 262144 + (b1 - 128) * 4096 + (b2 - 128) * 64 + (b3 - 128), 4)
             else (runeError, 1)
         | _ \<Rightarrow> (runeError, 1))
      else (runeError, 1))"

lemma decode_rune_width: "bs \<noteq> [] \<Longrightarrow> 1 \<le> snd (decode_rune bs)"
  by (cases bs) (auto split: list.splits)

text \<open>\<open>for _, ch := range s\<close>\<close>

function runes :: "int list \<Rightarrow> int list" where
  "runes [] = []"
| "runes (b # bs) = (case decode_rune (b # bs) of (r, w) \<Rightarrow> r # runes (drop w (b # bs)))"
  by pat_completeness auto
termination
proof (relation "measure length")
  fix b bs r w
  assume "(r, w) = decode_rune (b # bs)"
  then have "1 \<le> w" using decode_rune_width [of "b # bs"] by (metis list.distinct(1) snd_conv)
  then show "(drop w (b # bs), b # bs) \<in> measure length" by simp
qed simp

definition runes_of :: "string \<Rightarrow> int list" where
  "runes_of s = runes (map byte s)"

section \<open>Decoding what was encoded\<close>

definition scalar :: "int \<Rightarrow> bool" where
  "scalar c \<longleftrightarrow> 0 \<le> c \<and> c \<le> 0x10FFFF \<and> \<not> (0xD800 \<le> c \<and> c \<le> 0xDFFF)"

text \<open>The UTF-8 encoding of a code point.\<close>

definition utf8 :: "int \<Rightarrow> int list" where
  "utf8 c =
     (if c < 128 then [c]
      else if c < 2048 then [192 + c div 64, 128 + c mod 64]
      else if c < 65536 then [224 + c div 4096, 128 + c div 64 mod 64, 128 + c mod 64]
      else [240 + c div 262144, 128 + c div 4096 mod 64, 128 + c div 64 mod 64, 128 + c mod 64])"

lemma cont_mod [simp]: "cont (128 + x mod 64)"
  using pos_mod_bound [of 64 x] pos_mod_sign [of 64 x] by (simp add: cont_def)

lemma base64: "c div 64 * 64 + c mod 64 = (c::int)"
  by simp

lemma base64_3: "c div 4096 * 4096 + c div 64 mod 64 * 64 + c mod 64 = (c::int)"
proof -
  have "c div 4096 = c div 64 div 64" by (simp add: zdiv_zmult2_eq [symmetric])
  then have "c div 4096 * 64 + c div 64 mod 64 = c div 64" by simp
  then show ?thesis using base64 [of c] by linarith
qed

lemma base64_4: "c div 262144 * 262144 + c div 4096 mod 64 * 4096 + c div 64 mod 64 * 64 + c mod 64 = (c::int)"
proof -
  have "c div 262144 = c div 4096 div 64" by (simp add: zdiv_zmult2_eq [symmetric])
  then have "c div 262144 * 64 + c div 4096 mod 64 = c div 4096" by simp
  then show ?thesis using base64_3 [of c] by linarith
qed

lemma decode_two:
  assumes "2 \<le> a" "a \<le> 31" "0 \<le> r" "r < 64"
  shows "decode_rune ([192 + a, 128 + r] @ rest) = (a * 64 + r, 2)"
  using assms by (simp add: cont_def)

lemma decode_three:
  assumes "0 \<le> a" "a \<le> 15" "0 \<le> b" "b < 64" "0 \<le> r" "r < 64" "a = 0 \<Longrightarrow> 32 \<le> b" "a = 13 \<Longrightarrow> b \<le> 31"
  shows "decode_rune ([224 + a, 128 + b, 128 + r] @ rest) = (a * 4096 + b * 64 + r, 3)"
  using assms by (simp add: cont_def)

lemma decode_four:
  assumes "0 \<le> a" "a \<le> 4" "0 \<le> b" "b < 64" "0 \<le> q" "q < 64" "0 \<le> r" "r < 64"
    "a = 0 \<Longrightarrow> 16 \<le> b" "a = 4 \<Longrightarrow> b \<le> 15"
  shows "decode_rune ([240 + a, 128 + b, 128 + q, 128 + r] @ rest) = (a * 262144 + b * 4096 + q * 64 + r, 4)"
  using assms by (simp add: cont_def)

lemma three_bounds:
  fixes a b r c :: int
  assumes "a * 4096 + b * 64 + r = c" "0 \<le> b" "b < 64" "0 \<le> r" "r < 64" "2048 \<le> c" "c < 65536"
    "\<not> (0xD800 \<le> c \<and> c \<le> 0xDFFF)"
  shows "0 \<le> a" "a \<le> 15" "a = 0 \<Longrightarrow> 32 \<le> b" "a = 13 \<Longrightarrow> b \<le> 31"
  using assms by linarith+

lemma four_bounds:
  fixes a b q r c :: int
  assumes "a * 262144 + b * 4096 + q * 64 + r = c" "0 \<le> b" "b < 64" "0 \<le> q" "q < 64" "0 \<le> r" "r < 64"
    "65536 \<le> c" "c \<le> 0x10FFFF"
  shows "0 \<le> a" "a \<le> 4" "a = 0 \<Longrightarrow> 16 \<le> b" "a = 4 \<Longrightarrow> b \<le> 15"
  using assms by linarith+

lemma mod64: "0 \<le> x mod 64" "x mod 64 < 64" for x :: int
  by simp_all

lemma decode_utf8:
  assumes "scalar c"
  shows "decode_rune (utf8 c @ rest) = (c, length (utf8 c))"
proof -
  consider "c < 128" | "128 \<le> c" "c < 2048" | "2048 \<le> c" "c < 65536" | "65536 \<le> c" by linarith
  then show ?thesis
  proof cases
    case 1
    then show ?thesis by (simp add: utf8_def)
  next
    case 2
    then have "2 \<le> c div 64" "c div 64 \<le> 31" by linarith+
    from decode_two [OF this mod64 [of c], unfolded base64] 2 show ?thesis
      by (simp add: utf8_def del: decode_rune.simps)
  next
    case 3
    have n: "\<not> (0xD800 \<le> c \<and> c \<le> 0xDFFF)" using assms by (simp add: scalar_def)
    note b = three_bounds [OF base64_3 mod64 [of "c div 64"] mod64 [of c] 3 n]
    from decode_three [OF b(1,2) mod64 [of "c div 64"] mod64 [of c] b(3,4), unfolded base64_3] 3
    show ?thesis by (simp add: utf8_def del: decode_rune.simps)
  next
    case 4
    have n: "c \<le> 0x10FFFF" using assms by (simp add: scalar_def)
    note b = four_bounds [OF base64_4 mod64 [of "c div 4096"] mod64 [of "c div 64"] mod64 [of c] 4 n]
    from decode_four [OF b(1,2) mod64 [of "c div 4096"] mod64 [of "c div 64"] mod64 [of c] b(3,4), unfolded base64_4] 4
    show ?thesis by (simp add: utf8_def del: decode_rune.simps)
  qed
qed

lemma utf8_nonempty [simp]: "utf8 c \<noteq> []"
  by (simp add: utf8_def)

lemma runes_unfold: "bs \<noteq> [] \<Longrightarrow> runes bs = (case decode_rune bs of (r, w) \<Rightarrow> r # runes (drop w bs))"
  by (cases bs) simp_all

lemma runes_utf8_append: "scalar c \<Longrightarrow> runes (utf8 c @ rest) = c # runes rest"
  by (simp add: runes_unfold decode_utf8)

lemma runes_concat_utf8: "\<forall>c \<in> set cps. scalar c \<Longrightarrow> runes (concat (map utf8 cps)) = cps"
  by (induction cps) (simp_all add: runes_utf8_append)

section \<open>White space\<close>

text \<open>\<open>unicode.IsSpace\<close>\<close>

definition isSpace :: "int \<Rightarrow> bool" where
  "isSpace c \<longleftrightarrow> 9 \<le> c \<and> c \<le> 13 \<or> c = 32 \<or> c = 0x85 \<or> c = 0xA0 \<or> c = 0x1680 \<or>
     0x2000 \<le> c \<and> c \<le> 0x200A \<or> c = 0x2028 \<or> c = 0x2029 \<or> c = 0x202F \<or> c = 0x205F \<or> c = 0x3000"

text \<open>A string cut into its runes, each with its bytes.\<close>

function segments :: "string \<Rightarrow> (int \<times> string) list" where
  "segments [] = []"
| "segments (c # cs) =
     (case decode_rune (map byte (c # cs)) of (r, w) \<Rightarrow> (r, take w (c # cs)) # segments (drop w (c # cs)))"
  by pat_completeness auto
termination
proof (relation "measure length")
  fix c cs r w
  assume "(r, w) = decode_rune (map byte (c # cs))"
  then have "1 \<le> w" using decode_rune_width [of "map byte (c # cs)"] by (metis list.distinct(1) list.simps(9) snd_conv)
  then show "(drop w (c # cs), c # cs) \<in> measure length" by simp
qed simp

definition trim_runes :: "(int \<times> 'a) list \<Rightarrow> (int \<times> 'a) list" where
  "trim_runes xs = rev (dropWhile (\<lambda>x. isSpace (fst x)) (rev (dropWhile (\<lambda>x. isSpace (fst x)) xs)))"

definition TrimSpace :: "string \<Rightarrow> string" where
  "TrimSpace s = concat (map snd (trim_runes (segments s)))"

text \<open>\<open>strings.Join(strings.Fields(s), " ")\<close> on runes: runs of white space become one blank.\<close>

fun squeeze :: "bool \<Rightarrow> int list \<Rightarrow> int list" where
  "squeeze gap [] = []"
| "squeeze gap (r # rs) =
     (if isSpace r then squeeze True rs else (if gap then [32, r] else [r]) @ squeeze False rs)"

definition join_fields :: "int list \<Rightarrow> int list" where
  "join_fields rs = squeeze False (dropWhile isSpace rs)"

text \<open>
  Lower case, exact wherever the result is ASCII: the capital letters, and the two other runes
  whose lower case is an ASCII letter. Other runes stay, which no ASCII phrase can tell.
\<close>

definition lower_rune :: "int \<Rightarrow> int" where
  "lower_rune r = (if 65 \<le> r \<and> r \<le> 90 then r + 32 else if r = 0x130 then 105 else if r = 0x212A then 107 else r)"

text \<open>\<open>strings.EqualFold\<close> against ASCII text: case, and the two other runes that fold to ASCII.\<close>

definition fold_rune :: "int \<Rightarrow> int" where
  "fold_rune r = (if 65 \<le> r \<and> r \<le> 90 then r + 32 else if r = 0x212A then 107 else if r = 0x17F then 115 else r)"

definition EqualFold :: "string \<Rightarrow> string \<Rightarrow> bool" where
  "EqualFold s t \<longleftrightarrow> map fold_rune (runes_of s) = map fold_rune (runes_of t)"

text \<open>\<open>strings.TrimRight\<close> for one byte, and \<open>strings.ContainsAny\<close> for ASCII characters.\<close>

definition trim_right :: "char \<Rightarrow> string \<Rightarrow> string" where
  "trim_right c s = rev (dropWhile (\<lambda>x. x = c) (rev s))"

definition contains_any :: "string \<Rightarrow> string \<Rightarrow> bool" where
  "contains_any s chars \<longleftrightarrow> list_ex (\<lambda>c. c \<in> set chars) s"

section \<open>ASCII text\<close>

lemma decode_ascii [simp]: "byte c < 128 \<Longrightarrow> decode_rune (byte c # bs) = (byte c, 1)"
  by simp

lemma segments_ascii: "\<forall>c \<in> set s. byte c < 128 \<Longrightarrow> segments s = map (\<lambda>c. (byte c, [c])) s"
  by (induction s) (simp_all del: decode_rune.simps)

lemma TrimSpace_id:
  assumes "\<forall>c \<in> set s. byte c < 128 \<and> \<not> isSpace (byte c)"
  shows "TrimSpace s = s"
proof -
  have seg: "segments s = map (\<lambda>c. (byte c, [c])) s" using assms by (simp add: segments_ascii)
  have keep: "dropWhile (\<lambda>x. isSpace (fst x)) (map (\<lambda>c. (byte c, [c])) t) = map (\<lambda>c. (byte c, [c])) t"
    if "set t \<subseteq> set s" for t
    using that assms by (cases t) auto
  have "trim_runes (segments s) = map (\<lambda>c. (byte c, [c])) s"
    using keep [of s] keep [of "rev s"] by (simp add: trim_runes_def seg rev_map)
  then show ?thesis by (simp add: TrimSpace_def comp_def)
qed

end
