(* ===== verification/Video_Model.thy ===== *)
theory Video_Model
  imports Go_Strings
begin

text \<open>
  The video record and its match flags, \<open>src/internal/model/video.go\<close>, with what it uses of the Go
  library: the CJK script tables and \<open>time.Parse\<close> on the three date layouts. \<open>unicode.IsLetter\<close> is an argument: its table is data of the Unicode standard, and nothing
  below depends on it.
\<close>

section \<open>Scripts\<close>

definition in_ranges :: "(int \<times> int) list \<Rightarrow> int \<Rightarrow> bool" where
  "in_ranges rs c \<longleftrightarrow> (\<exists>(lo, hi) \<in> set rs. lo \<le> c \<and> c \<le> hi)"

text \<open>The script tables of Unicode 15: Han, Hiragana, Katakana, Hangul.\<close>

definition Han :: "(int \<times> int) list" where
  "Han = [(0x2E80, 0x2E99), (0x2E9B, 0x2EF3), (0x2F00, 0x2FD5), (0x3005, 0x3005), (0x3007, 0x3007),
     (0x3021, 0x3029), (0x3038, 0x303B), (0x3400, 0x4DBF), (0x4E00, 0x9FFF), (0xF900, 0xFA6D),
     (0xFA70, 0xFAD9), (0x16FE2, 0x16FE3), (0x16FF0, 0x16FF1), (0x20000, 0x2A6DF), (0x2A700, 0x2B739),
     (0x2B740, 0x2B81D), (0x2B820, 0x2CEA1), (0x2CEB0, 0x2EBE0), (0x2F800, 0x2FA1D), (0x30000, 0x3134A),
     (0x31350, 0x323AF)]"

definition Hiragana :: "(int \<times> int) list" where
  "Hiragana = [(0x3041, 0x3096), (0x309D, 0x309F), (0x1B001, 0x1B11F), (0x1B132, 0x1B132),
     (0x1B150, 0x1B152), (0x1F200, 0x1F200)]"

definition Katakana :: "(int \<times> int) list" where
  "Katakana = [(0x30A1, 0x30FA), (0x30FD, 0x30FF), (0x31F0, 0x31FF), (0x32D0, 0x32FE), (0x3300, 0x3357),
     (0xFF66, 0xFF6F), (0xFF71, 0xFF9D), (0x1AFF0, 0x1AFF3), (0x1AFF5, 0x1AFFB), (0x1AFFD, 0x1AFFE),
     (0x1B000, 0x1B000), (0x1B120, 0x1B122), (0x1B155, 0x1B155), (0x1B164, 0x1B167)]"

definition Hangul :: "(int \<times> int) list" where
  "Hangul = [(0x1100, 0x11FF), (0x302E, 0x302F), (0x3131, 0x318E), (0x3200, 0x321E), (0x3260, 0x327E),
     (0xA960, 0xA97C), (0xAC00, 0xD7A3), (0xD7B0, 0xD7C6), (0xD7CB, 0xD7FB), (0xFFA0, 0xFFBE),
     (0xFFC2, 0xFFC7), (0xFFCA, 0xFFCF), (0xFFD2, 0xFFD7), (0xFFDA, 0xFFDC)]"

definition is_CJK :: "int \<Rightarrow> bool" where
  "is_CJK ch \<longleftrightarrow> in_ranges Han ch \<or> in_ranges Hiragana ch \<or> in_ranges Katakana ch \<or> in_ranges Hangul ch"

fun any_rune :: "(int \<Rightarrow> bool) \<Rightarrow> int list \<Rightarrow> bool" where
  "any_rune P [] = False"
| "any_rune P (ch # chs) = (if P ch then True else any_rune P chs)"

definition hasCJK :: "string \<Rightarrow> bool" where
  "hasCJK title = any_rune is_CJK (runes_of title)"

definition hasNonLatin :: "(int \<Rightarrow> bool) \<Rightarrow> string \<Rightarrow> bool" where
  "hasNonLatin isLetter title = any_rune (\<lambda>ch. isLetter ch \<and> ch > 0x24F) (runes_of title)"

section \<open>Dates\<close>

datatype chunk = StdMonth | StdLongMonth | StdDay | StdLongYear | StdZeroMonth | StdZeroDay | Lit string

text \<open>The layouts of the program, as \<open>time.nextStdChunk\<close> splits them.\<close>

definition formats :: "chunk list list" where
  "formats =
     [[StdMonth, Lit '' '', StdDay, Lit '', '', StdLongYear],
      [StdLongMonth, Lit '' '', StdDay, Lit '', '', StdLongYear],
      [StdLongYear, Lit ''-'', StdZeroMonth, Lit ''-'', StdZeroDay]]"

definition shortMonthNames :: "string list" where
  "shortMonthNames = [''Jan'', ''Feb'', ''Mar'', ''Apr'', ''May'', ''Jun'', ''Jul'', ''Aug'', ''Sep'',
     ''Oct'', ''Nov'', ''Dec'']"

definition longMonthNames :: "string list" where
  "longMonthNames = [''January'', ''February'', ''March'', ''April'', ''May'', ''June'', ''July'',
     ''August'', ''September'', ''October'', ''November'', ''December'']"

text \<open>Letters match up to case: equal bytes, or equal letters once the case bit is set.\<close>

definition lower_bit :: "int \<Rightarrow> int" where
  "lower_bit b = (if (b div 32) mod 2 = 1 then b else b + 32)"

definition match_char :: "char \<Rightarrow> char \<Rightarrow> bool" where
  "match_char a b \<longleftrightarrow> a = b \<or>
     (lower_bit (byte a) = lower_bit (byte b) \<and> 97 \<le> lower_bit (byte a) \<and> lower_bit (byte a) \<le> 122)"

fun lookup_from :: "int \<Rightarrow> string list \<Rightarrow> string \<Rightarrow> (int \<times> string) option" where
  "lookup_from i [] val = None"
| "lookup_from i (v # tab) val =
     (if length v \<le> length val \<and> list_all2 match_char (take (length v) val) v
      then Some (i, drop (length v) val) else lookup_from (i + 1) tab val)"

fun cutspace :: "string \<Rightarrow> string" where
  "cutspace [] = []"
| "cutspace (c # cs) = (if c = CHR '' '' then cutspace cs else c # cs)"

lemma length_cutspace: "length (cutspace s) \<le> length s"
  by (induction s) auto

function skip :: "string \<Rightarrow> string \<Rightarrow> string option" where
  "skip value [] = Some value"
| "skip value (p # pre) =
     (if p = CHR '' '' then
        (case value of
           [] \<Rightarrow> skip [] (cutspace (p # pre))
         | v # _ \<Rightarrow> if v \<noteq> CHR '' '' then None else skip (cutspace value) (cutspace (p # pre)))
      else (case value of
              [] \<Rightarrow> None
            | v # vs \<Rightarrow> if v \<noteq> p then None else skip vs pre))"
  by pat_completeness auto

termination
  by (relation "measure (\<lambda>(value, pre). length pre)") (auto simp: less_Suc_eq_le length_cutspace)

fun getnum :: "string \<Rightarrow> bool \<Rightarrow> (int \<times> string) option" where
  "getnum [] fixed = None"
| "getnum (c # cs) fixed =
     (case digit_val c of
        None \<Rightarrow> None
      | Some a \<Rightarrow>
          (case cs of
             [] \<Rightarrow> if fixed then None else Some (int a, cs)
           | c2 # cs2 \<Rightarrow> (case digit_val c2 of
               None \<Rightarrow> if fixed then None else Some (int a, cs)
             | Some b \<Rightarrow> Some (int a * 10 + int b, cs2))))"

record ymd =
  year :: int
  month :: int
  day :: int

definition parse_chunk :: "chunk \<Rightarrow> string \<Rightarrow> ymd \<Rightarrow> (string \<times> ymd) option" where
  "parse_chunk c value t = (case c of
     Lit pre \<Rightarrow> map_option (\<lambda>v. (v, t)) (skip value pre)
   | StdMonth \<Rightarrow> map_option (\<lambda>(m, v). (v, t\<lparr>month := m\<rparr>)) (lookup_from 1 shortMonthNames value)
   | StdLongMonth \<Rightarrow> map_option (\<lambda>(m, v). (v, t\<lparr>month := m\<rparr>)) (lookup_from 1 longMonthNames value)
   | StdDay \<Rightarrow> map_option (\<lambda>(n, v). (v, t\<lparr>day := n\<rparr>)) (getnum value False)
   | StdZeroDay \<Rightarrow> map_option (\<lambda>(n, v). (v, t\<lparr>day := n\<rparr>)) (getnum value True)
   | StdZeroMonth \<Rightarrow> (case getnum value True of
       None \<Rightarrow> None
     | Some (n, v) \<Rightarrow> if n \<le> 0 \<or> 12 < n then None else Some (v, t\<lparr>month := n\<rparr>))
   | StdLongYear \<Rightarrow>
       (if length value < 4 then None
        else map_option (\<lambda>n. (drop 4 value, t\<lparr>year := int n\<rparr>)) (parse_nat (take 4 value))))"

fun parse_chunks :: "chunk list \<Rightarrow> string \<Rightarrow> ymd \<Rightarrow> ymd option" where
  "parse_chunks [] value t = (if value = [] then Some t else None)"
| "parse_chunks (c # cs) value t =
     (case parse_chunk c value t of None \<Rightarrow> None | Some (v, t') \<Rightarrow> parse_chunks cs v t')"

definition is_leap :: "int \<Rightarrow> bool" where
  "is_leap y \<longleftrightarrow> y mod 4 = 0 \<and> (y mod 100 \<noteq> 0 \<or> y mod 400 = 0)"

definition month_days :: "int list" where
  "month_days = [31, 28, 31, 30, 31, 30, 31, 31, 30, 31, 30, 31]"

definition daysIn :: "int \<Rightarrow> int \<Rightarrow> int" where
  "daysIn m y = (if m = 2 \<and> is_leap y then 29 else month_days ! nat (m - 1))"

text \<open>Days from 1 January 1970, in the proleptic Gregorian calendar.\<close>

definition civil_days :: "int \<Rightarrow> int \<Rightarrow> int \<Rightarrow> int" where
  "civil_days y m d =
     (let p = y - 1
      in 365 * p + p div 4 - p div 100 + p div 400 +
         sum_list (take (nat (m - 1)) month_days) + (if m > 2 \<and> is_leap y then 1 else 0) + (d - 1) - 719162)"

definition civil_time :: "int \<Rightarrow> int \<Rightarrow> int \<Rightarrow> go_time" where
  "civil_time y m d = civil_days y m d * 86400 * second"

text \<open>\<open>time.Parse\<close> on a layout without a time of day: midnight UTC, the day checked at the end.\<close>

definition time_parse :: "chunk list \<Rightarrow> string \<Rightarrow> go_time option" where
  "time_parse fmt value = (case parse_chunks fmt value \<lparr>year = 0, month = 1, day = 1\<rparr> of
     None \<Rightarrow> None
   | Some t \<Rightarrow> if day t < 1 \<or> day t > daysIn (month t) (year t) then None
       else Some (civil_time (year t) (month t) (day t)))"

section \<open>The video\<close>

definition DurationThreshold :: int where
  "DurationThreshold = 10 * 60 - 1"

record Video =
  vURL :: url
  Title :: string
  Date :: string
  Duration :: int
  MatchDate :: bool
  MatchDuration :: bool
  HasCJKChar :: bool
  HasNonEnglishChar :: bool
  IsTarget :: bool

fun cutoff_from :: "chunk list list \<Rightarrow> string \<Rightarrow> go_time \<Rightarrow> bool" where
  "cutoff_from [] date cutoff = False"
| "cutoff_from (fmt # fmts) date cutoff =
     (case time_parse fmt date of
        Some t \<Rightarrow> \<not> t > cutoff
      | None \<Rightarrow> cutoff_from fmts date cutoff)"

definition matchesCutoffDate :: "Video \<Rightarrow> go_time \<Rightarrow> bool" where
  "matchesCutoffDate v cutoff = (if Date v = [] then False else cutoff_from formats (Date v) cutoff)"

definition Match :: "(int \<Rightarrow> bool) \<Rightarrow> go_time \<Rightarrow> Video \<Rightarrow> Video" where
  "Match isLetter cutoff v =
     (let md = matchesCutoffDate v cutoff; mdur = Duration v > DurationThreshold;
          cjk = hasCJK (Title v); nonlatin = hasNonLatin isLetter (Title v)
      in v\<lparr>MatchDate := md, MatchDuration := mdur, HasCJKChar := cjk, HasNonEnglishChar := nonlatin,
           IsTarget := md \<and> mdur \<and> (cjk \<or> nonlatin)\<rparr>)"

section \<open>Dates that were written\<close>

definition pad2 :: "nat \<Rightarrow> string" where
  "pad2 n = [digit_char (n div 10), digit_char (n mod 10)]"

definition pad4 :: "nat \<Rightarrow> string" where
  "pad4 n = pad2 (n div 100) @ pad2 (n mod 100)"

text \<open>A day in the two styles the site uses: ISO, and month name, day, year.\<close>

definition iso_date :: "nat \<Rightarrow> nat \<Rightarrow> nat \<Rightarrow> string" where
  "iso_date y m d = pad4 y @ ''-'' @ pad2 m @ ''-'' @ pad2 d"

definition named_date :: "string list \<Rightarrow> nat \<Rightarrow> nat \<Rightarrow> nat \<Rightarrow> string" where
  "named_date names y m d = names ! (m - 1) @ '' '' @ show_nat d @ '', '' @ pad4 y"

definition valid_day :: "nat \<Rightarrow> nat \<Rightarrow> nat \<Rightarrow> bool" where
  "valid_day y m d \<longleftrightarrow> y < 10000 \<and> 1 \<le> m \<and> m \<le> 12 \<and> 1 \<le> d \<and> int d \<le> daysIn (int m) (int y)"

lemma getnum_pad2: "n < 100 \<Longrightarrow> getnum (pad2 n @ rest) f = Some (int n, rest)"
  by (simp add: pad2_def of_nat_div of_nat_mod)

lemma digits_pad2: "n < 100 \<Longrightarrow> digits_val acc (pad2 n) = Some (100 * acc + n)"
  by (simp add: pad2_def)

lemma parse_nat_pad4: "n < 10000 \<Longrightarrow> parse_nat (pad4 n) = Some n"
  by (simp add: parse_nat_def pad4_def digits_val_append digits_pad2) (simp add: pad2_def)

lemma length_pad [simp]: "length (pad2 n) = 2" "length (pad4 n) = 4"
  by (simp_all add: pad2_def pad4_def)

lemma year_chunk:
  "n < 10000 \<Longrightarrow> parse_chunk StdLongYear (pad4 n @ rest) t = Some (rest, t\<lparr>year := int n\<rparr>)"
  by (simp add: parse_chunk_def parse_nat_pad4)

lemma month_cases:
  fixes m :: nat
  assumes "1 \<le> m" "m \<le> 12"
  shows "m = 1 \<or> m = 2 \<or> m = 3 \<or> m = 4 \<or> m = 5 \<or> m = 6 \<or> m = 7 \<or> m = 8 \<or> m = 9 \<or> m = 10 \<or> m = 11 \<or> m = 12"
  using assms by presburger

lemma daysIn_le: "1 \<le> m \<Longrightarrow> m \<le> 12 \<Longrightarrow> daysIn (int m) y \<le> 31"
proof -
  assume "1 \<le> m" "m \<le> 12"
  from month_cases [OF this] show ?thesis by (auto simp: daysIn_def month_days_def)
qed

lemma valid_day_bounds: "valid_day y m d \<Longrightarrow> y < 10000 \<and> m < 100 \<and> d < 100 \<and> d \<le> 31"
  using daysIn_le [of m "int y"] by (auto simp: valid_day_def)

lemma iso_parses:
  assumes "valid_day y m d"
  shows "time_parse (formats ! 2) (iso_date y m d) = Some (civil_time (int y) (int m) (int d))"
proof -
  note b = valid_day_bounds [OF assms]
  have "parse_chunks (formats ! 2) (iso_date y m d) \<lparr>year = 0, month = 1, day = 1\<rparr> =
      Some \<lparr>year = int y, month = int m, day = int d\<rparr>"
    using b assms getnum_pad2 [of d "[]"]
    by (simp add: formats_def iso_date_def year_chunk getnum_pad2 valid_day_def)
      (simp add: parse_chunk_def getnum_pad2)
  with assms show ?thesis by (simp add: time_parse_def valid_day_def)
qed

lemma byte_digit: "n < 10 \<Longrightarrow> byte (digit_char n) = 48 + int n"
proof -
  assume "n < 10"
  then have "n \<in> {0, 1, 2, 3, 4, 5, 6, 7, 8, 9}" by auto
  then show ?thesis by (auto simp: byte_def digit_char_def)
qed

lemma match_digit:
  assumes "n < 10" "65 \<le> byte c"
  shows "\<not> match_char (digit_char n) c"
proof -
  have "lower_bit (byte (digit_char n)) = 48 + int n"
    using byte_digit [OF assms(1)] assms(1) by (simp add: lower_bit_def)
  moreover have "digit_char n \<noteq> c" using byte_digit [OF assms(1)] assms by auto
  ultimately show ?thesis using assms(1) by (simp add: match_char_def)
qed

lemma lookup_digit:
  assumes "n < 10" "\<forall>v \<in> set tab. \<exists>c cs. v = c # cs \<and> 65 \<le> byte c"
  shows "lookup_from i tab (digit_char n # rest) = None"
  using assms(2)
proof (induction tab arbitrary: i)
  case (Cons v tab)
  then obtain c cs where "v = c # cs" "65 \<le> byte c" by auto
  with Cons match_digit [OF assms(1)] show ?case by auto
qed simp

lemma names_capital:
  "\<forall>v \<in> set shortMonthNames. \<exists>c cs. v = c # cs \<and> 65 \<le> byte c"
  "\<forall>v \<in> set longMonthNames. \<exists>c cs. v = c # cs \<and> 65 \<le> byte c"
  by (simp_all add: shortMonthNames_def longMonthNames_def byte_def)

lemma iso_not_named:
  assumes "y < 10000"
  shows "time_parse (formats ! 0) (iso_date y m d) = None" "time_parse (formats ! 1) (iso_date y m d) = None"
proof -
  have d: "y div 100 div 10 < 10" using assms by simp
  obtain rest where "iso_date y m d = digit_char (y div 100 div 10) # rest"
    by (simp add: iso_date_def pad4_def pad2_def)
  with lookup_digit [OF d names_capital(1)] lookup_digit [OF d names_capital(2)]
  show "time_parse (formats ! 0) (iso_date y m d) = None" "time_parse (formats ! 1) (iso_date y m d) = None"
    by (simp_all add: time_parse_def formats_def parse_chunk_def)
qed

lemma cutoff_formats:
  "cutoff_from formats date cutoff =
     (case time_parse (formats ! 0) date of
        Some t \<Rightarrow> t \<le> cutoff
      | None \<Rightarrow> (case time_parse (formats ! 1) date of
          Some t \<Rightarrow> t \<le> cutoff
        | None \<Rightarrow> (case time_parse (formats ! 2) date of Some t \<Rightarrow> t \<le> cutoff | None \<Rightarrow> False)))"
  by (simp add: formats_def not_less split: option.split)

lemma iso_cutoff:
  assumes "valid_day y m d"
  shows "cutoff_from formats (iso_date y m d) cutoff \<longleftrightarrow> civil_time (int y) (int m) (int d) \<le> cutoff"
  using iso_parses [OF assms] iso_not_named [of y m d] valid_day_bounds [OF assms]
  by (simp add: cutoff_formats)

lemma getnum_day:
  assumes "1 \<le> d" "d \<le> 31"
  shows "getnum (show_nat d @ '', '' @ rest) False = Some (int d, '', '' @ rest)"
proof -
  have c: "digit_val CHR '','' = None" by (simp add: digit_val_def)
  show ?thesis
  proof (cases "d < 10")
    case True
    with c show ?thesis by (simp add: show_nat.simps [of d])
  next
    case False
    then have "show_nat d = pad2 d" and "d < 100"
      using assms by (simp_all add: show_nat.simps [of d] show_nat.simps [of "d div 10"] pad2_def)
    then show ?thesis using getnum_pad2 [of d "'', '' @ rest"] by simp
  qed
qed

lemma day_year_parse:
  assumes "valid_day y m d"
  shows "parse_chunks [Lit '' '', StdDay, Lit '', '', StdLongYear] ('' '' @ show_nat d @ '', '' @ pad4 y) t =
    Some (t\<lparr>day := int d, year := int y\<rparr>)"
proof -
  have d: "1 \<le> d" "d \<le> 31" "y < 10000"
    using assms valid_day_bounds [OF assms] by (simp_all add: valid_day_def)
  obtain c cs where c: "show_nat d = c # cs" by (cases "show_nat d") auto
  have "c \<noteq> CHR '' ''"
    using show_nat_no [of "CHR '' ''" d] c by (auto simp: digit_val_def)
  then have 1: "parse_chunk (Lit '' '') ('' '' @ show_nat d @ rest) t = Some (show_nat d @ rest, t)" for rest t
    using c by (simp add: parse_chunk_def)
  obtain a as where a: "pad4 y = a # as" "a = digit_char (y div 100 div 10)"
    by (simp add: pad4_def pad2_def)
  have "a \<noteq> CHR '' ''"
  proof -
    have "y div 100 div 10 < 10" using d(3) by simp
    from byte_digit [OF this] a(2) show ?thesis by (auto simp: byte_def)
  qed
  then have 2: "parse_chunk (Lit '', '') ('', '' @ pad4 y) t = Some (pad4 y, t)" for t
    using a(1) by (simp add: parse_chunk_def)
  have 3: "parse_chunk StdDay (show_nat d @ '', '' @ pad4 y) t = Some ('', '' @ pad4 y, t\<lparr>day := int d\<rparr>)" for t
    using getnum_day [OF d(1,2), of "pad4 y"] by (simp add: parse_chunk_def)
  show ?thesis
    using 1 [of "'', '' @ pad4 y"] 2 3 year_chunk [OF d(3), of "[]"] by simp
qed

lemma short_month:
  assumes "1 \<le> m" "m \<le> 12"
  shows "parse_chunk StdMonth (shortMonthNames ! (m - 1) @ rest) t = Some (rest, t\<lparr>month := int m\<rparr>)"
  using month_cases [OF assms]
  by (elim disjE) (simp_all add: parse_chunk_def shortMonthNames_def match_char_def lower_bit_def byte_def)

lemma long_month:
  assumes "1 \<le> m" "m \<le> 12"
  shows "parse_chunk StdLongMonth (longMonthNames ! (m - 1) @ rest) t = Some (rest, t\<lparr>month := int m\<rparr>)"
  using month_cases [OF assms]
  by (elim disjE) (simp_all add: parse_chunk_def longMonthNames_def match_char_def lower_bit_def byte_def)

text \<open>The short layout stops at the fourth letter of a long name; May is both.\<close>

lemma long_not_short:
  assumes "1 \<le> m" "m \<le> 12" "m \<noteq> 5"
  shows "parse_chunks (formats ! 0) (longMonthNames ! (m - 1) @ rest) t = None"
  using month_cases [OF assms(1,2)] assms(3)
  by (elim disjE) (simp_all add: formats_def parse_chunk_def shortMonthNames_def longMonthNames_def
      match_char_def lower_bit_def byte_def)

lemma named_short_parses:
  assumes "valid_day y m d"
  shows "time_parse (formats ! 0) (named_date shortMonthNames y m d) = Some (civil_time (int y) (int m) (int d))"
proof -
  have "1 \<le> m" "m \<le> 12" using assms by (simp_all add: valid_day_def)
  from short_month [OF this] day_year_parse [OF assms]
  have "parse_chunks (formats ! 0) (named_date shortMonthNames y m d) \<lparr>year = 0, month = 1, day = 1\<rparr> =
      Some \<lparr>year = int y, month = int m, day = int d\<rparr>"
    by (simp add: formats_def named_date_def)
  with assms show ?thesis by (simp add: time_parse_def valid_day_def)
qed

lemma named_long_parses:
  assumes "valid_day y m d"
  shows "time_parse (formats ! 1) (named_date longMonthNames y m d) = Some (civil_time (int y) (int m) (int d))"
proof -
  have "1 \<le> m" "m \<le> 12" using assms by (simp_all add: valid_day_def)
  from long_month [OF this] day_year_parse [OF assms]
  have "parse_chunks (formats ! 1) (named_date longMonthNames y m d) \<lparr>year = 0, month = 1, day = 1\<rparr> =
      Some \<lparr>year = int y, month = int m, day = int d\<rparr>"
    by (simp add: formats_def named_date_def)
  with assms show ?thesis by (simp add: time_parse_def valid_day_def)
qed

lemma named_cutoff:
  assumes "valid_day y m d" "names = shortMonthNames \<or> names = longMonthNames"
  shows "cutoff_from formats (named_date names y m d) cutoff \<longleftrightarrow> civil_time (int y) (int m) (int d) \<le> cutoff"
proof (cases "names = shortMonthNames \<or> m = 5")
  case True
  then have "named_date names y m d = named_date shortMonthNames y m d"
    using assms(2) by (auto simp: named_date_def shortMonthNames_def longMonthNames_def)
  then show ?thesis using named_short_parses [OF assms(1)] by (simp add: cutoff_formats)
next
  case False
  have "1 \<le> m" "m \<le> 12" using assms(1) by (simp_all add: valid_day_def)
  then have "time_parse (formats ! 0) (named_date longMonthNames y m d) = None"
    using long_not_short [of m] False by (simp add: time_parse_def named_date_def)
  then show ?thesis
    using named_long_parses [OF assms(1)] False assms(2) by (simp add: cutoff_formats)
qed

lemma any_rune_iff: "any_rune P cs \<longleftrightarrow> (\<exists>c \<in> set cs. P c)"
  by (induction cs) auto

text \<open>The dates the crawler understands.\<close>

definition date_strings :: "nat \<Rightarrow> nat \<Rightarrow> nat \<Rightarrow> string set" where
  "date_strings y m d = {iso_date y m d, named_date shortMonthNames y m d, named_date longMonthNames y m d}"

lemma date_cutoff:
  assumes "valid_day y m d" "s \<in> date_strings y m d"
  shows "s \<noteq> [] \<and> (cutoff_from formats s cutoff \<longleftrightarrow> civil_time (int y) (int m) (int d) \<le> cutoff)"
  using assms(2) iso_cutoff [OF assms(1)] named_cutoff [OF assms(1)]
  by (auto simp: date_strings_def iso_date_def named_date_def)

text \<open>C39: Match marks exactly the target videos. For a video dated by a day of the calendar, written in
  any of the three layouts, and titled by a list of code points in UTF-8, Match sets IsTarget exactly
  when the day is not after the cutoff, the video lasts at least ten minutes, and some code point of
  the title is CJK or a letter beyond Latin Extended-B.\<close>

theorem Match_marks_targets:
  assumes "valid_day y m d" "Date v \<in> date_strings y m d"
    "map byte (Title v) = concat (map utf8 cps)" "\<forall>c \<in> set cps. scalar c"
  shows "IsTarget (Match isLetter cutoff v) \<longleftrightarrow>
    civil_time (int y) (int m) (int d) \<le> cutoff \<and> 600 \<le> Duration v \<and>
    (\<exists>c \<in> set cps. is_CJK c \<or> isLetter c \<and> c > 0x24F)"
proof -
  have "runes_of (Title v) = cps"
    using runes_concat_utf8 [OF assms(4)] assms(3) by (simp add: runes_of_def)
  then show ?thesis
    using date_cutoff [OF assms(1,2)]
    by (auto simp: Match_def Let_def matchesCutoffDate_def hasCJK_def hasNonLatin_def any_rune_iff
        DurationThreshold_def)
qed

definition tokyo :: Video where
  "tokyo = \<lparr>vURL = ''https://www.vidlii.com/watch?v=a'', Title = [CHR 0xE6, CHR 0x9D, CHR 0xB1],
     Date = ''Dec 31, 2023'', Duration = 600, MatchDate = False, MatchDuration = False, HasCJKChar = False,
     HasNonEnglishChar = False, IsTarget = False\<rparr>"

lemma Match_marks_targets_witness:
  "(IsTarget (Match (\<lambda>_. False) (civil_time 2023 12 31 + 86399 * second) tokyo) \<longleftrightarrow>
     civil_time 2023 12 31 \<le> civil_time 2023 12 31 + 86399 * second \<and> 600 \<le> Duration tokyo \<and>
     list_ex (\<lambda>c. is_CJK c \<or> False \<and> c > 0x24F) [0x6771]) \<and>
   IsTarget (Match (\<lambda>_. False) (civil_time 2023 12 31 + 86399 * second) tokyo) \<and>
   civil_time 2023 12 31 = 1703980800 * second"
proof (intro conjI)
  have v: "valid_day 2023 12 31" by code_simp
  have "Date tokyo = named_date shortMonthNames 2023 12 31" by code_simp
  then have d: "Date tokyo \<in> date_strings 2023 12 31" by (simp add: date_strings_def)
  have t: "map byte (Title tokyo) = concat (map utf8 [0x6771])" by code_simp
  have c: "\<forall>c \<in> set [0x6771]. scalar c" by (simp add: scalar_def)
  show "IsTarget (Match (\<lambda>_. False) (civil_time 2023 12 31 + 86399 * second) tokyo) \<longleftrightarrow>
     civil_time 2023 12 31 \<le> civil_time 2023 12 31 + 86399 * second \<and> 600 \<le> Duration tokyo \<and>
     list_ex (\<lambda>c. is_CJK c \<or> False \<and> c > 0x24F) [0x6771]"
    using Match_marks_targets [OF v d t c, of "\<lambda>_. False" "civil_time 2023 12 31 + 86399 * second"]
    by (simp add: list_ex_iff)
  show "IsTarget (Match (\<lambda>_. False) (civil_time 2023 12 31 + 86399 * second) tokyo)" by code_simp
  show "civil_time 2023 12 31 = 1703980800 * second" by code_simp
qed

end
