(* ===== verification/Config.thy ===== *)
theory Config
  imports Frontier Video_Model
begin

text \<open>
  The configuration, \<open>src/internal/config/config.go\<close>, and its conversion for the frontier in
  \<open>src/cmd/crawler/main.go\<close>. The environment after \<open>godotenv.Load\<close> is an argument: a function from
  names to values, the empty string for an unset name, as \<open>os.Getenv\<close> reads it.
\<close>

type_synonym environment = "string \<Rightarrow> string"

record Config =
  Workers :: int
  BaseUrl :: string
  TestUrl :: string
  VideoPattern :: string
  TitleSuffix :: string
  OutputFile :: string
  RateLimit :: duration
  CutoffDate :: go_time
  RedisAddr :: string
  MongoURI :: string
  MongoDB :: string
  MongoCol :: string
  LoginURL :: string
  Username :: string
  Password :: string
  MetricsPort :: string
  StaticProxyURLs :: "string list"
  RotatingProxyURL :: string
  LeaseTimeoutSec :: int
  cfgMaxStrikes :: int
  cfgSchedulerBatchLimit :: int
  RateLimitBackoffSec :: "int list"
  StrikeBackoffSec :: "int list"
  ListingBaseTTLHours :: int
  SeedTTLHours :: int
  ListingMaxTTLHours :: int
  QuarantineListingHours :: int

definition getEnvStr :: "environment \<Rightarrow> string \<Rightarrow> string \<Rightarrow> string" where
  "getEnvStr env key def = (if env key \<noteq> [] then env key else def)"

definition getEnvInt :: "environment \<Rightarrow> string \<Rightarrow> int \<Rightarrow> int" where
  "getEnvInt env key def =
     (let v = env key
      in if v = [] then def else (case atoi v of None \<Rightarrow> def | Some n \<Rightarrow> n))"

fun atoi_all :: "string list \<Rightarrow> int list \<Rightarrow> int list option" where
  "atoi_all [] out = Some out"
| "atoi_all (p # parts) out =
     (case atoi (TrimSpace p) of None \<Rightarrow> None | Some n \<Rightarrow> atoi_all parts (out @ [n]))"

definition getEnvIntSlice :: "environment \<Rightarrow> string \<Rightarrow> int list \<Rightarrow> int list" where
  "getEnvIntSlice env key def =
     (let raw = env key
      in if raw = [] then def
         else (case atoi_all (split_on CHR '','' raw) [] of None \<Rightarrow> def | Some out \<Rightarrow> out))"

definition Load :: "environment \<Rightarrow> Config" where
  "Load env =
     \<lparr>Workers = getEnvInt env ''WORKERS'' 20,
      BaseUrl = ''https://www.vidlii.com'',
      TestUrl = getEnvStr env ''TEST_URL'' ''https://www.vidlii.com/user/rinkomania'',
      VideoPattern = ''/watch?v='',
      TitleSuffix = '' - VidLii'',
      OutputFile = ''targets.json'',
      RateLimit = wrap64 (getEnvInt env ''RATE_LIMIT_SEC'' 15 * second),
      CutoffDate = civil_time 2023 12 31 + 86399 * second,
      RedisAddr = (if env ''REDIS_ADDR'' \<noteq> [] then env ''REDIS_ADDR'' else ''localhost:6379''),
      MongoURI = (if env ''MONGO_URI'' \<noteq> [] then env ''MONGO_URI'' else ''mongodb://localhost:27017''),
      MongoDB = ''vidlii'',
      MongoCol = ''videos'',
      LoginURL = ''https://www.vidlii.com/login'',
      Username = env ''VIDLII_USERNAME'',
      Password = env ''VIDLII_PASSWORD'',
      MetricsPort = ''2112'',
      StaticProxyURLs = (if env ''STATIC_PROXY_URLS'' \<noteq> [] then split_on CHR '','' (env ''STATIC_PROXY_URLS'') else []),
      RotatingProxyURL = env ''ROTATING_PROXY_URL'',
      LeaseTimeoutSec = getEnvInt env ''LEASE_TIMEOUT_SEC'' 600,
      cfgMaxStrikes = getEnvInt env ''MAX_STRIKES'' 5,
      cfgSchedulerBatchLimit = getEnvInt env ''SCHEDULER_BATCH_LIMIT'' 100,
      RateLimitBackoffSec = getEnvIntSlice env ''RATE_LIMIT_BACKOFF_SEC'' [300, 900, 2700],
      StrikeBackoffSec = getEnvIntSlice env ''STRIKE_BACKOFF_SEC'' [60, 300, 1500],
      ListingBaseTTLHours = getEnvInt env ''LISTING_BASE_TTL_HOURS'' 72,
      SeedTTLHours = getEnvInt env ''SEED_TTL_HOURS'' 24,
      ListingMaxTTLHours = getEnvInt env ''LISTING_MAX_TTL_HOURS'' (21 * 24),
      QuarantineListingHours = getEnvInt env ''QUARANTINE_LISTING_HOURS'' (7 * 24)\<rparr>"

definition LoadTest :: "environment \<Rightarrow> Config" where
  "LoadTest env =
     (let cfg = (Load env)
        \<lparr>RedisAddr := ''127.0.0.1:16379'',
         MongoURI := ''mongodb://127.0.0.1:37017'',
         MongoDB := ''gfap_test'',
         MetricsPort := ''2113'',
         OutputFile := ''targets.test.json'',
         Workers := 100\<rparr>
      in if RateLimit cfg < 30 * second then cfg\<lparr>RateLimit := 30 * second\<rparr> else cfg)"

text \<open>\<open>time.Duration(n) * time.Second\<close> is a 64-bit product.\<close>

definition frontierConfig :: "Config \<Rightarrow> FrontierConfig" where
  "frontierConfig cfg =
     \<lparr>LeaseTimeout = wrap64 (LeaseTimeoutSec cfg * second),
      MaxStrikes = cfgMaxStrikes cfg,
      RateLimitBackoff = RateLimitBackoffSec cfg,
      StrikeBackoff = StrikeBackoffSec cfg,
      ListingBaseTTL = wrap64 (ListingBaseTTLHours cfg * hour),
      SeedTTL = wrap64 (SeedTTLHours cfg * hour),
      ListingMaxTTL = wrap64 (ListingMaxTTLHours cfg * hour),
      QuarantineListing = wrap64 (QuarantineListingHours cfg * hour),
      SchedulerBatchLimit = cfgSchedulerBatchLimit cfg\<rparr>"

text \<open>\<open>readSeedURLs\<close> on the contents of the seeds file, \<open>None\<close> when it cannot be read.\<close>

definition readSeedURLs :: "string option \<Rightarrow> string \<Rightarrow> string list" where
  "readSeedURLs contents baseURL = (case contents of
     None \<Rightarrow> [baseURL]
   | Some text \<Rightarrow> baseURL # filter (\<lambda>l. l \<noteq> []) (map TrimSpace (split_on (CHR 0x0A) text)))"

section \<open>Integer lists\<close>

lemma atoi_all_append: "atoi_all ps out = map_option (\<lambda>ns. out @ ns) (those (map (\<lambda>p. atoi (TrimSpace p)) ps))"
proof (induction ps arbitrary: out)
  case (Cons p ps)
  then show ?case
    by (cases "atoi (TrimSpace p)"; cases "those (map (\<lambda>p. atoi (TrimSpace p)) ps)") simp_all
qed simp

lemma those_length: "those xs = Some ys \<Longrightarrow> length ys = length xs"
  by (induction xs arbitrary: ys) (auto split: option.splits)

lemma getEnvIntSlice_nonempty: "def \<noteq> [] \<Longrightarrow> getEnvIntSlice env key def \<noteq> []"
proof -
  assume d: "def \<noteq> []"
  have "out \<noteq> []" if "atoi_all (split_on CHR '','' raw) [] = Some out" for raw out
    using that those_length [of "map (\<lambda>p. atoi (TrimSpace p)) (split_on CHR '','' raw)" out]
    by (auto simp: atoi_all_append)
  with d show ?thesis by (auto simp: getEnvIntSlice_def Let_def split: option.split)
qed

text \<open>A comma-separated list of numerals.\<close>

fun join_ints :: "int list \<Rightarrow> string" where
  "join_ints [] = []"
| "join_ints [n] = show_int n"
| "join_ints (n # m # ns) = show_int n @ '','' @ join_ints (m # ns)"

lemma show_int_no_comma [simp]: "CHR '','' \<notin> set (show_int n)"
  by (auto simp: show_int_def digit_val_def)

lemma split_on_no: "c \<notin> set s \<Longrightarrow> split_on c s = [s]"
  by (induction s) auto

lemma split_on_append: "c \<notin> set a \<Longrightarrow> split_on c (a @ c # b) = a # split_on c b"
  by (induction a) auto

lemma split_join: "ns \<noteq> [] \<Longrightarrow> split_on CHR '','' (join_ints ns) = map show_int ns"
  by (induction ns rule: join_ints.induct) (simp_all add: split_on_no split_on_append)

lemma join_ints_nonempty: "ns \<noteq> [] \<Longrightarrow> join_ints ns \<noteq> []"
  by (cases ns rule: join_ints.cases) simp_all

lemma show_int_ascii: "c \<in> set (show_int n) \<Longrightarrow> byte c < 128 \<and> \<not> isSpace (byte c)"
proof -
  assume "c \<in> set (show_int n)"
  then have "c = CHR ''-'' \<or> digit_val c \<noteq> None"
    using show_nat_digits by (auto simp: show_int_def split: if_splits)
  then consider "c = CHR ''-''" | k where "(of_char c :: nat) = k" "48 \<le> k" "k \<le> 57"
    by (auto simp: digit_val_def Let_def split: if_splits)
  then show ?thesis
  proof cases
    case 2
    then have "byte c = int k" using of_nat_of_char [of c, where 'a = int] by (simp add: byte_def)
    with 2 show ?thesis by (simp add: isSpace_def)
  qed (simp add: byte_def isSpace_def)
qed

lemma trim_show_int [simp]: "TrimSpace (show_int n) = show_int n"
  by (rule TrimSpace_id) (use show_int_ascii in blast)

lemma those_atoi: "\<forall>n \<in> set ns. in_int64 n \<Longrightarrow> those (map (\<lambda>n. atoi (TrimSpace (show_int n))) ns) = Some ns"
  by (induction ns) simp_all

section \<open>Properties\<close>

lemma those_None: "None \<in> set xs \<Longrightarrow> those xs = None"
  by (induction xs) (auto split: option.splits)

text \<open>A backoff ladder is read whole or not at all. The comma-separated numerals of a nonempty list
  of 64-bit integers are read back as that list; if one part is not a numeral, the default is used.\<close>

theorem getEnvIntSlice_whole:
  "(ns \<noteq> [] \<and> (\<forall>n \<in> set ns. in_int64 n) \<and> env key = join_ints ns \<longrightarrow> getEnvIntSlice env key def = ns) \<and>
   ((\<exists>p \<in> set (split_on CHR '','' (env key)). atoi (TrimSpace p) = None) \<longrightarrow> getEnvIntSlice env key def = def)"
proof (intro conjI impI)
  assume "ns \<noteq> [] \<and> (\<forall>n \<in> set ns. in_int64 n) \<and> env key = join_ints ns"
  then show "getEnvIntSlice env key def = ns"
    using those_atoi [of ns]
    by (simp add: getEnvIntSlice_def join_ints_nonempty split_join atoi_all_append comp_def)
next
  assume "\<exists>p \<in> set (split_on CHR '','' (env key)). atoi (TrimSpace p) = None"
  then have "None \<in> set (map (\<lambda>p. atoi (TrimSpace p)) (split_on CHR '','' (env key)))"
    by (metis image_eqI list.set_map)
  then have "atoi_all (split_on CHR '','' (env key)) [] = None"
    unfolding atoi_all_append by (simp only: those_None option.map)
  then show "getEnvIntSlice env key def = def" by (simp add: getEnvIntSlice_def Let_def)
qed

definition ladder_env :: environment where
  "ladder_env = (\<lambda>k. if k = ''STRIKE_BACKOFF_SEC'' then join_ints [30, 90] else if k = ''MAX_STRIKES'' then ''3x'' else [])"

lemma getEnvIntSlice_whole_witness:
  "getEnvIntSlice ladder_env ''STRIKE_BACKOFF_SEC'' [60, 300, 1500] = [30, 90] \<and>
   getEnvIntSlice ladder_env ''MAX_STRIKES'' [1, 2] = [1, 2] \<and> join_ints [30, 90] = ''30,90''"
proof (intro conjI)
  have 1: "[30, 90] \<noteq> ([] :: int list) \<and> (\<forall>n \<in> set [30, 90]. in_int64 n) \<and>
      ladder_env ''STRIKE_BACKOFF_SEC'' = join_ints [30, 90]"
    by (simp add: in_int64_def ladder_env_def)
  show "getEnvIntSlice ladder_env ''STRIKE_BACKOFF_SEC'' [60, 300, 1500] = [30, 90]"
    using getEnvIntSlice_whole [of "[30, 90]" ladder_env "''STRIKE_BACKOFF_SEC''" "[60, 300, 1500]"] 1 by blast
  have 2: "\<exists>p \<in> set (split_on CHR '','' (ladder_env ''MAX_STRIKES'')). atoi (TrimSpace p) = None" by code_simp
  show "getEnvIntSlice ladder_env ''MAX_STRIKES'' [1, 2] = [1, 2]"
    using getEnvIntSlice_whole [of "[]" ladder_env "''MAX_STRIKES''" "[1, 2]"] 2 by blast
  show "join_ints [30, 90] = ''30,90''" by code_simp
qed

text \<open>What an operator wrote: a variable holds the numeral of \<open>n\<close>, or nothing that is a numeral, and then \<open>n\<close> is the
  default; a ladder is a list of numerals between commas, with spaces around them if one likes, and one bad part
  makes it the default ladder.\<close>

definition int_setting :: "environment \<Rightarrow> string \<Rightarrow> int \<Rightarrow> int \<Rightarrow> bool" where
  "int_setting env key d n \<longleftrightarrow> env key = show_int n \<and> in_int64 n \<or> atoi (env key) = None \<and> n = d"

definition ladder_setting :: "environment \<Rightarrow> string \<Rightarrow> int list \<Rightarrow> int list \<Rightarrow> bool" where
  "ladder_setting env key d ns \<longleftrightarrow>
     map TrimSpace (split_on CHR '','' (env key)) = map show_int ns \<and> (\<forall>n \<in> set ns. in_int64 n) \<or>
     (\<exists>p \<in> set (split_on CHR '','' (env key)). atoi (TrimSpace p) = None) \<and> ns = d"

lemma atoi_empty: "atoi [] = None"
  by code_simp

lemma getEnvInt_setting: "int_setting env key d n \<Longrightarrow> getEnvInt env key d = n"
  unfolding int_setting_def getEnvInt_def Let_def by (elim disjE conjE) simp_all

lemma getEnvIntSlice_setting:
  assumes "ladder_setting env key d ns"
  shows "getEnvIntSlice env key d = ns"
proof (cases "\<exists>p \<in> set (split_on CHR '','' (env key)). atoi (TrimSpace p) = None")
  case False
  with assms have ns: "map TrimSpace (split_on CHR '','' (env key)) = map show_int ns" "\<forall>n \<in> set ns. in_int64 n"
    by (auto simp: ladder_setting_def)
  have "env key \<noteq> []"
  proof
    assume "env key = []"
    moreover have "TrimSpace [] = []" by code_simp
    ultimately have "map show_int ns = [[]]" using ns(1) by simp
    then show False by (auto simp: map_eq_Cons_conv)
  qed
  moreover have "map (\<lambda>p. atoi (TrimSpace p)) (split_on CHR '','' (env key)) = map (\<lambda>n. atoi (TrimSpace (show_int n))) ns"
    using arg_cong [OF ns(1), of "map atoi"] by (simp add: comp_def)
  ultimately show ?thesis
    using those_atoi [OF ns(2)] by (simp add: getEnvIntSlice_def Let_def atoi_all_append)
next
  case True
  then have bad: "getEnvIntSlice env key d = d" using getEnvIntSlice_whole [of "[]" env key d] by blast
  have "\<not> map TrimSpace (split_on CHR '','' (env key)) = map show_int ns" if "\<forall>n \<in> set ns. in_int64 n"
  proof
    assume eq: "map TrimSpace (split_on CHR '','' (env key)) = map show_int ns"
    obtain p where "p \<in> set (split_on CHR '','' (env key))" "atoi (TrimSpace p) = None" using True by blast
    then have "TrimSpace p \<in> set (map show_int ns)" using eq [symmetric] by simp
    with \<open>atoi (TrimSpace p) = None\<close> that show False by auto
  qed
  with assms bad show ?thesis by (auto simp: ladder_setting_def)
qed

lemma exact_seconds: "\<bar>n\<bar> \<le> 9223372036 \<Longrightarrow> wrap64 (n * second) = n * second"
  unfolding second_def by (rule wrap64_id) (simp add: in_int64_def, linarith)

lemma exact_hours: "\<bar>n\<bar> \<le> 2562047 \<Longrightarrow> wrap64 (n * hour) = n * hour"
  unfolding hour_def second_def by (rule wrap64_id) (simp add: in_int64_def, linarith)

text \<open>C40: The frontier runs with the configuration the operator wrote. Every one of the nine parameters is the
  number, or ladder, in its own environment variable, or the documented default where the variable is unset or malformed,
  in the unit it is documented in; a ladder is taken whole or not at all, and is never empty. This holds for
  lease timeouts up to 9223372036 seconds and TTLs up to 2562047 hours, where no 64-bit duration overflows; a test
  run has the same frontier configuration.\<close>

theorem frontier_config_from_env:
  assumes "int_setting env ''LEASE_TIMEOUT_SEC'' 600 leaseSec" "int_setting env ''MAX_STRIKES'' 5 strikeLimit"
    "ladder_setting env ''RATE_LIMIT_BACKOFF_SEC'' [300, 900, 2700] rateLadder"
    "ladder_setting env ''STRIKE_BACKOFF_SEC'' [60, 300, 1500] strikeLadder"
    "int_setting env ''LISTING_BASE_TTL_HOURS'' 72 baseHours" "int_setting env ''SEED_TTL_HOURS'' 24 seedHours"
    "int_setting env ''LISTING_MAX_TTL_HOURS'' 504 maxHours"
    "int_setting env ''QUARANTINE_LISTING_HOURS'' 168 quarantineHours"
    "int_setting env ''SCHEDULER_BATCH_LIMIT'' 100 batch"
    "\<bar>leaseSec\<bar> \<le> 9223372036" "\<forall>h \<in> {baseHours, seedHours, maxHours, quarantineHours}. \<bar>h\<bar> \<le> 2562047"
  shows "frontierConfig (Load env) =
      \<lparr>LeaseTimeout = leaseSec * second, MaxStrikes = strikeLimit, RateLimitBackoff = rateLadder, StrikeBackoff = strikeLadder,
       ListingBaseTTL = baseHours * hour, SeedTTL = seedHours * hour, ListingMaxTTL = maxHours * hour,
       QuarantineListing = quarantineHours * hour, SchedulerBatchLimit = batch\<rparr> \<and>
    frontierConfig (LoadTest env) = frontierConfig (Load env) \<and> rateLadder \<noteq> [] \<and> strikeLadder \<noteq> []"
proof -
  have "getEnvInt env ''LISTING_MAX_TTL_HOURS'' (21 * 24) = maxHours" "getEnvInt env ''QUARANTINE_LISTING_HOURS'' (7 * 24) = quarantineHours"
    using assms(7,8) by (simp_all add: getEnvInt_setting)
  moreover have "rateLadder \<noteq> []" "strikeLadder \<noteq> []"
    using getEnvIntSlice_setting [OF assms(3)] getEnvIntSlice_setting [OF assms(4)]
      getEnvIntSlice_nonempty [of "[300, 900, 2700]" env] getEnvIntSlice_nonempty [of "[60, 300, 1500]" env] by force+
  ultimately show ?thesis
    using assms(10,11) getEnvInt_setting [OF assms(1)] getEnvInt_setting [OF assms(2)] getEnvInt_setting [OF assms(5)]
      getEnvInt_setting [OF assms(6)] getEnvInt_setting [OF assms(9)] getEnvIntSlice_setting [OF assms(3)]
      getEnvIntSlice_setting [OF assms(4)]
    by (simp add: frontierConfig_def LoadTest_def Let_def Load_def exact_seconds exact_hours)
qed

text \<open>Two variables written, one malformed, the others unset.\<close>

definition tuned_env :: environment where
  "tuned_env = (\<lambda>k. if k = ''STRIKE_BACKOFF_SEC'' then ''30, 90'' else if k = ''LISTING_MAX_TTL_HOURS'' then ''1000''
     else if k = ''RATE_LIMIT_BACKOFF_SEC'' then ''10,x'' else [])"

theorem frontier_config_from_env_witness:
  "frontierConfig (Load tuned_env) = DefaultFrontierConfig\<lparr>StrikeBackoff := [30, 90], ListingMaxTTL := 1000 * hour\<rparr>"
proof -
  have i: "int_setting tuned_env k d d" if "tuned_env k = []" for k d
    using that atoi_empty by (simp add: int_setting_def)
  have m: "int_setting tuned_env ''LISTING_MAX_TTL_HOURS'' 504 1000" unfolding int_setting_def by code_simp
  have l: "ladder_setting tuned_env ''STRIKE_BACKOFF_SEC'' [60, 300, 1500] [30, 90]"
    "ladder_setting tuned_env ''RATE_LIMIT_BACKOFF_SEC'' [300, 900, 2700] [300, 900, 2700]"
    unfolding ladder_setting_def by code_simp+
  note c = frontier_config_from_env [OF i i l(2) l(1) i i m i i, simplified tuned_env_def, simplified]
  show ?thesis using c by (simp add: tuned_env_def DefaultFrontierConfig_def)
qed

text \<open>A test run cannot reach production storage. Whatever the environment says, LoadTest fixes the
  test Redis and Mongo endpoints and the test database, keeps at least 30 seconds between requests of
  a worker, and leaves the frontier tuning of Load.\<close>

theorem LoadTest_isolated:
  "RedisAddr (LoadTest env) = ''127.0.0.1:16379'' \<and> MongoURI (LoadTest env) = ''mongodb://127.0.0.1:37017'' \<and>
   MongoDB (LoadTest env) = ''gfap_test'' \<and> MongoDB (LoadTest env) \<noteq> MongoDB (Load env) \<and>
   30 * second \<le> RateLimit (LoadTest env) \<and> frontierConfig (LoadTest env) = frontierConfig (Load env)"
  by (simp add: LoadTest_def Let_def frontierConfig_def) (simp add: Load_def)

lemma in_int64I: "- 9223372036854775808 \<le> i \<Longrightarrow> i \<le> 9223372036854775807 \<Longrightarrow> in_int64 i"
  by (simp add: in_int64_def)

text \<open>Durations are exact up to the 64-bit range. A lease timeout of at most 9223372036 seconds and
  a TTL of at most 2562047 hours reach the frontier unchanged; one second or hour more overflows, and
  the lease is over before it begins.\<close>

theorem frontier_durations_exact:
  "(\<bar>LeaseTimeoutSec cfg\<bar> \<le> 9223372036 \<longrightarrow>
      whole_seconds (LeaseTimeout (frontierConfig cfg)) = LeaseTimeoutSec cfg) \<and>
   (\<bar>ListingMaxTTLHours cfg\<bar> \<le> 2562047 \<longrightarrow>
      whole_seconds (ListingMaxTTL (frontierConfig cfg)) = 3600 * ListingMaxTTLHours cfg) \<and>
   (LeaseTimeoutSec cfg = 9223372037 \<longrightarrow> whole_seconds (LeaseTimeout (frontierConfig cfg)) < 0)"
proof (intro conjI impI)
  have ws: "whole_seconds (n * second) = n" for n
    by (simp add: whole_seconds_def second_def abs_mult sgn_mult) (simp add: mult.commute [of "sgn n"] abs_mult_sgn)
  show "whole_seconds (LeaseTimeout (frontierConfig cfg)) = LeaseTimeoutSec cfg"
    if "\<bar>LeaseTimeoutSec cfg\<bar> \<le> 9223372036"
  proof -
    have "in_int64 (LeaseTimeoutSec cfg * second)"
      unfolding second_def by (rule in_int64I) (use that in linarith)+
    then show ?thesis by (simp add: frontierConfig_def ws)
  qed
  show "whole_seconds (ListingMaxTTL (frontierConfig cfg)) = 3600 * ListingMaxTTLHours cfg"
    if "\<bar>ListingMaxTTLHours cfg\<bar> \<le> 2562047"
  proof -
    have "in_int64 (ListingMaxTTLHours cfg * hour)"
      unfolding second_def hour_def by (rule in_int64I) (use that in linarith)+
    moreover have "ListingMaxTTLHours cfg * hour = (3600 * ListingMaxTTLHours cfg) * second"
      by (simp add: hour_def)
    ultimately have "wrap64 (ListingMaxTTLHours cfg * hour) = (3600 * ListingMaxTTLHours cfg) * second"
      by (metis wrap64_id)
    then show ?thesis using ws [of "3600 * ListingMaxTTLHours cfg"] by (simp add: frontierConfig_def)
  qed
  show "whole_seconds (LeaseTimeout (frontierConfig cfg)) < 0" if "LeaseTimeoutSec cfg = 9223372037"
    using that by (simp add: frontierConfig_def wrap64_def second_def whole_seconds_def)
qed

lemma frontier_durations_exact_witness:
  "whole_seconds (LeaseTimeout (frontierConfig (Load (\<lambda>_. [])))) = 600 \<and>
   whole_seconds (ListingMaxTTL (frontierConfig (Load (\<lambda>_. [])))) = 3600 * 504 \<and>
   whole_seconds (LeaseTimeout (frontierConfig ((Load (\<lambda>_. []))\<lparr>LeaseTimeoutSec := 9223372037\<rparr>))) < 0"
proof -
  have "LeaseTimeoutSec (Load (\<lambda>_. [])) = 600" "ListingMaxTTLHours (Load (\<lambda>_. [])) = 504" by code_simp+
  then show ?thesis
    using frontier_durations_exact [of "Load (\<lambda>_. [])"]
      frontier_durations_exact [of "(Load (\<lambda>_. []))\<lparr>LeaseTimeoutSec := 9223372037\<rparr>"] by simp
qed

end
