(* ===== verification/Net_URL.thy ===== *)
theory Net_URL
  imports Go_Strings
begin

text \<open>
  What the program uses of package \<open>net/url\<close>. A record \<open>net_url\<close> holds the five functions it calls;
  its callers take it as an argument. \<open>go_url\<close> is the package's own behaviour (Go 1.25): parsing with
  its escapes, printing, and query parameters. Hosts with a bracket, which go through an address
  parser, are handled by the argument \<open>ip\<close>.
\<close>

section \<open>Parsed URLs\<close>

record URLrec =
  Scheme :: string
  Opaque :: string
  HasUser :: bool
  Host :: string
  Path :: string
  RawPath :: string
  OmitHost :: bool
  ForceQuery :: bool
  RawQuery :: string
  Fragment :: string

record net_url =
  url_Parse :: "string \<Rightarrow> URLrec option"
  url_String :: "URLrec \<Rightarrow> string"
  url_Hostname :: "URLrec \<Rightarrow> string"
  query_Get :: "URLrec \<Rightarrow> string \<Rightarrow> string"
  QueryEscape :: "string \<Rightarrow> string"

section \<open>Escapes\<close>

datatype encoding = encodePath | encodeHost | encodeUserPassword | encodeQueryComponent | encodeFragment

definition letter_byte :: "char \<Rightarrow> bool" where
  "letter_byte c \<longleftrightarrow> (let k = of_char c :: nat in 97 \<le> k \<and> k \<le> 122 \<or> 65 \<le> k \<and> k \<le> 90)"

definition digit_byte :: "char \<Rightarrow> bool" where
  "digit_byte c \<longleftrightarrow> (let k = of_char c :: nat in 48 \<le> k \<and> k \<le> 57)"

definition shouldEscape :: "char \<Rightarrow> encoding \<Rightarrow> bool" where
  "shouldEscape c mode =
     (if letter_byte c \<or> digit_byte c then False
      else if mode = encodeHost \<and> c \<in> set (CHR 0x27 # ''!$&()*+,;=:[]<>'' @ [CHR 0x22]) then False
      else if c \<in> set ''-_.~'' then False
      else if c \<in> set ''$&+,/:;=?@'' then
        (case mode of
           encodePath \<Rightarrow> c = CHR ''?''
         | encodeUserPassword \<Rightarrow> c \<in> set ''@/?:''
         | encodeQueryComponent \<Rightarrow> True
         | encodeFragment \<Rightarrow> False
         | encodeHost \<Rightarrow> True)
      else if mode = encodeFragment \<and> c \<in> set ''!()*'' then False
      else True)"

definition unhex :: "char \<Rightarrow> nat option" where
  "unhex c = (let k = of_char c :: nat in
     if 48 \<le> k \<and> k \<le> 57 then Some (k - 48)
     else if 97 \<le> k \<and> k \<le> 102 then Some (k - 87)
     else if 65 \<le> k \<and> k \<le> 70 then Some (k - 55)
     else None)"

definition upperhex :: "nat \<Rightarrow> char" where
  "upperhex n = ''0123456789ABCDEF'' ! n"

fun unescape :: "encoding \<Rightarrow> string \<Rightarrow> string option" where
  "unescape mode [] = Some []"
| "unescape mode (c # cs) =
     (if c = CHR ''%'' then
        (case cs of
           a # b # rest \<Rightarrow>
             (case (unhex a, unhex b) of
                (Some h, Some l) \<Rightarrow>
                  if mode = encodeHost \<and> h < 8 \<and> \<not> (a = CHR ''2'' \<and> b = CHR ''5'') then None
                  else map_option (\<lambda>t. char_of (16 * h + l) # t) (unescape mode rest)
              | _ \<Rightarrow> None)
         | _ \<Rightarrow> None)
      else if mode = encodeHost \<and> (of_char c :: nat) < 128 \<and> shouldEscape c mode then None
      else map_option (\<lambda>t. (if c = CHR ''+'' \<and> mode = encodeQueryComponent then CHR '' '' else c) # t) (unescape mode cs))"

definition escape_char :: "encoding \<Rightarrow> char \<Rightarrow> string" where
  "escape_char mode c =
     (if c = CHR '' '' \<and> mode = encodeQueryComponent then ''+''
      else if shouldEscape c mode then [CHR ''%'', upperhex (of_char c div 16), upperhex (of_char c mod 16)]
      else [c])"

definition escape :: "encoding \<Rightarrow> string \<Rightarrow> string" where
  "escape mode s = concat (map (escape_char mode) s)"

section \<open>Parsing\<close>

definition ctl_byte :: "char \<Rightarrow> bool" where
  "ctl_byte c \<longleftrightarrow> (let k = of_char c :: nat in k < 32 \<or> k = 127)"

text \<open>The scheme and the rest; \<open>None\<close> for a missing scheme before a colon.\<close>

fun scheme_from :: "string \<Rightarrow> string \<Rightarrow> (string \<times> string) option" where
  "scheme_from acc [] = None"
| "scheme_from acc (c # cs) =
     (if letter_byte c then scheme_from (acc @ [c]) cs
      else if digit_byte c \<or> c \<in> set ''+-.'' then (if acc = [] then None else scheme_from (acc @ [c]) cs)
      else if c = CHR '':'' then Some (acc, cs)
      else None)"

definition getScheme :: "string \<Rightarrow> (string \<times> string) option" where
  "getScheme s = (case scheme_from [] s of
     Some (scheme, rest) \<Rightarrow> if scheme = [] then None else Some (scheme, rest)
   | None \<Rightarrow> Some ([], s))"

definition to_lower :: "string \<Rightarrow> string" where
  "to_lower = map (\<lambda>c. let k = of_char c :: nat in if 65 \<le> k \<and> k \<le> 90 then char_of (k + 32) else c)"

text \<open>The parts before and after the last occurrence of a byte.\<close>

definition cut_last :: "char \<Rightarrow> string \<Rightarrow> (string \<times> string) option" where
  "cut_last c s = map_option (\<lambda>(a, b). (rev b, rev a)) (cut c (rev s))"

definition valid_port :: "string \<Rightarrow> bool" where
  "valid_port p \<longleftrightarrow> list_all digit_byte p"

definition parseHost :: "(string \<Rightarrow> string option) \<Rightarrow> string \<Rightarrow> string option" where
  "parseHost ip host =
     (if CHR ''['' \<in> set host then ip host
      else case cut_last CHR '':'' host of
        Some (_, port) \<Rightarrow> if valid_port port then unescape encodeHost host else None
      | None \<Rightarrow> unescape encodeHost host)"

definition validUserinfo :: "string \<Rightarrow> bool" where
  "validUserinfo s \<longleftrightarrow> list_all (\<lambda>c. letter_byte c \<or> digit_byte c \<or> c \<in> set (CHR 0x27 # ''-._:~!$&()*+,;=%@'')) s"

text \<open>Whether there is a user, and the host.\<close>

definition parseAuthority :: "(string \<Rightarrow> string option) \<Rightarrow> string \<Rightarrow> (bool \<times> string) option" where
  "parseAuthority ip s = (case cut_last CHR ''@'' s of
     None \<Rightarrow> map_option (Pair False) (parseHost ip s)
   | Some (user, host) \<Rightarrow> (case parseHost ip host of
       None \<Rightarrow> None
     | Some h \<Rightarrow>
         if validUserinfo user \<and>
           (case cut CHR '':'' user of
              None \<Rightarrow> unescape encodeUserPassword user \<noteq> None
            | Some (name, pass) \<Rightarrow> unescape encodeUserPassword name \<noteq> None \<and> unescape encodeUserPassword pass \<noteq> None)
         then Some (True, h) else None))"

text \<open>\<open>strings.Cut\<close> as Go returns it: all of the string where the byte is missing.\<close>

definition Cut :: "char \<Rightarrow> string \<Rightarrow> string \<times> string" where
  "Cut c s = (case cut c s of None \<Rightarrow> (s, []) | Some p \<Rightarrow> p)"

definition no_url :: URLrec where
  "no_url = \<lparr>Scheme = [], Opaque = [], HasUser = False, Host = [], Path = [], RawPath = [],
     OmitHost = False, ForceQuery = False, RawQuery = [], Fragment = []\<rparr>"

definition setPath :: "string \<Rightarrow> URLrec \<Rightarrow> URLrec option" where
  "setPath p u = map_option (\<lambda>path. u\<lparr>Path := path, RawPath := (if p = escape encodePath path then [] else p)\<rparr>)
     (unescape encodePath p)"

text \<open>After the query was cut off: authority and path.\<close>

definition parse_rest :: "(string \<Rightarrow> string option) \<Rightarrow> string \<Rightarrow> URLrec \<Rightarrow> URLrec option" where
  "parse_rest ip rest u =
     (if \<not> prefix ''/'' rest \<and> Scheme u \<noteq> [] then Some (u\<lparr>Opaque := rest\<rparr>)
      else if \<not> prefix ''/'' rest \<and> CHR '':'' \<in> set (fst (Cut CHR ''/'' rest)) then None
      else if (Scheme u \<noteq> [] \<or> \<not> prefix ''///'' rest) \<and> prefix ''//'' rest then
        (let after = drop 2 rest; authority = takeWhile (\<lambda>c. c \<noteq> CHR ''/'') after
         in case parseAuthority ip authority of
              None \<Rightarrow> None
            | Some (user, host) \<Rightarrow> setPath (drop (length authority) after) (u\<lparr>HasUser := user, Host := host\<rparr>))
      else setPath rest (u\<lparr>OmitHost := (Scheme u \<noteq> [] \<and> prefix ''/'' rest)\<rparr>))"

definition parse_url :: "(string \<Rightarrow> string option) \<Rightarrow> string \<Rightarrow> URLrec option" where
  "parse_url ip s =
     (if list_ex ctl_byte s then None
      else if s = ''*'' then Some (no_url\<lparr>Path := ''*''\<rparr>)
      else case getScheme s of
        None \<Rightarrow> None
      | Some (scheme, rest) \<Rightarrow>
          (let u = no_url\<lparr>Scheme := to_lower scheme\<rparr>
           in if suffix ''?'' rest \<and> count_list rest CHR ''?'' = 1 then parse_rest ip (butlast rest) (u\<lparr>ForceQuery := True\<rparr>)
              else parse_rest ip (fst (Cut CHR ''?'' rest)) (u\<lparr>RawQuery := snd (Cut CHR ''?'' rest)\<rparr>)))"

definition go_Parse :: "(string \<Rightarrow> string option) \<Rightarrow> string \<Rightarrow> URLrec option" where
  "go_Parse ip s =
     (case Cut CHR ''#'' s of (uri, frag) \<Rightarrow>
        (case parse_url ip uri of
           None \<Rightarrow> None
         | Some u \<Rightarrow> if frag = [] then Some u
             else map_option (\<lambda>f. u\<lparr>Fragment := f\<rparr>) (unescape encodeFragment frag)))"

section \<open>Printing and queries\<close>

definition validEncoded :: "string \<Rightarrow> bool" where
  "validEncoded s \<longleftrightarrow> list_all (\<lambda>c. c \<in> set (CHR 0x27 # ''!$&()*+,;=:@[]%'') \<or> \<not> shouldEscape c encodePath) s"

definition EscapedPath :: "URLrec \<Rightarrow> string" where
  "EscapedPath u =
     (if RawPath u \<noteq> [] \<and> validEncoded (RawPath u) \<and> unescape encodePath (RawPath u) = Some (Path u) then RawPath u
      else if Path u = ''*'' then ''*''
      else escape encodePath (Path u))"

text \<open>Printed by the program only for URLs without a user and a fragment.\<close>

definition go_String :: "URLrec \<Rightarrow> string" where
  "go_String u =
     (let scheme = (if Scheme u = [] then [] else Scheme u @ '':'');
          query = (if ForceQuery u \<or> RawQuery u \<noteq> [] then CHR ''?'' # RawQuery u else [])
      in if Opaque u \<noteq> [] then scheme @ Opaque u @ query
         else
           (let host = (if (Scheme u \<noteq> [] \<or> Host u \<noteq> []) \<and> \<not> (OmitHost u \<and> Host u = [])
                  then (if Host u \<noteq> [] \<or> Path u \<noteq> [] then ''//'' else []) @ escape encodeHost (Host u) else []);
                path = EscapedPath u;
                slash = (if path \<noteq> [] \<and> \<not> prefix ''/'' path \<and> Host u \<noteq> [] then ''/'' else []);
                dot = (if scheme @ host @ slash = [] \<and> CHR '':'' \<in> set (fst (Cut CHR ''/'' path)) then ''./'' else [])
            in scheme @ host @ slash @ dot @ path @ query))"

definition go_Hostname :: "URLrec \<Rightarrow> string" where
  "go_Hostname u =
     (let h = (case cut_last CHR '':'' (Host u) of
                 Some (host, port) \<Rightarrow> if valid_port port then host else Host u
               | None \<Rightarrow> Host u)
      in if prefix ''['' h \<and> suffix '']'' h then butlast (tl h) else h)"

text \<open>The first value of a parameter; a query of more than 10000 parameters has none.\<close>

definition parameter :: "string \<Rightarrow> (string \<times> string) option" where
  "parameter s =
     (if CHR '';'' \<in> set s \<or> s = [] then None
      else case Cut CHR ''='' s of (k, v) \<Rightarrow>
        (case (unescape encodeQueryComponent k, unescape encodeQueryComponent v) of
           (Some k', Some v') \<Rightarrow> Some (k', v')
         | _ \<Rightarrow> None))"

definition go_Get :: "URLrec \<Rightarrow> string \<Rightarrow> string" where
  "go_Get u key =
     (let parts = split_on CHR ''&'' (RawQuery u)
      in if length parts > 10000 then []
         else case map_of (List.map_filter parameter parts) key of None \<Rightarrow> [] | Some v \<Rightarrow> v)"

definition go_url :: "(string \<Rightarrow> string option) \<Rightarrow> net_url" where
  "go_url ip = \<lparr>url_Parse = go_Parse ip, url_String = go_String, url_Hostname = go_Hostname,
     query_Get = go_Get, QueryEscape = escape encodeQueryComponent\<rparr>"

end
