(* ===== verification/Worker.thy ===== *)
theory Worker
  imports Frontier_Contract Config Net_URL
begin

text \<open>
  The worker, \<open>src/internal/crawler/worker.go\<close>, with the crawler state it updates and the URL
  canonicalization of \<open>src/internal/crawler/crawler.go\<close>. The frontier is an argument, the interface
  record of \<open>Frontier\<close>. So are the services a worker talks to: what a fetch returned (\<open>fetch\<close>, the
  parsed page as goquery reports it), the Mongo upsert, and package \<open>net/url\<close> (\<open>net_url\<close>).
\<close>

section \<open>URLs\<close>

definition unsafe_id_chars :: string where
  "unsafe_id_chars = [CHR '' '', CHR 0x09, CHR 0x0D, CHR 0x0A, CHR ''/'', CHR ''?'', CHR ''&'', CHR ''#'',
     CHR ''%'', CHR 0x5C]"

definition discovery_pages :: "string list" where
  "discovery_pages = [[], ''/videos'', ''/channels'', ''/results'', ''/community'', ''/special_videos'', ''/contests'']"

definition canonicalize :: "net_url \<Rightarrow> Config \<Rightarrow> string \<Rightarrow> url" where
  "canonicalize net cfg raw =
     (case url_Parse net (BaseUrl cfg) of
        None \<Rightarrow> []
      | Some base \<Rightarrow> (case url_Parse net raw of
          None \<Rightarrow> []
        | Some u \<Rightarrow>
            (if HasUser u \<or> Scheme u \<noteq> Scheme base \<or> \<not> EqualFold (Host u) (Host base) then []
             else let u1 = u\<lparr>Fragment := [], Host := Host base\<rparr>; path = trim_right CHR ''/'' (Path u1) in
               if path = ''/watch'' then
                 (let id = query_Get net u1 ''v''
                  in if id = [] \<or> contains_any id unsafe_id_chars then []
                     else BaseUrl cfg @ VideoPattern cfg @ QueryEscape net id)
               else if path \<in> set discovery_pages \<or> prefix ''/user/'' path \<or> prefix ''/contest/'' path then
                 url_String net (u1\<lparr>Path := path, RawPath := []\<rparr>)
               else [])))"

definition NewURLClassifier :: "Config \<Rightarrow> url list \<Rightarrow> URLClassifier" where
  "NewURLClassifier cfg seedURLs u =
     (if str_contains u (VideoPattern cfg) then ClassVideo
      else if u \<in> set seedURLs then ClassSeed else ClassListing)"

section \<open>Pages\<close>

datatype pageKind =
    pageVideo
  | pageListing
  | pageNotFound
  | pageRetryable
  | pageUnknown
  | pageCancelled
  | pageInvalidResponse

record pageOutcome =
  kind :: pageKind
  video :: Video
  links :: "string list"
  reason :: string
  failClass :: FailClass

definition zero_video :: Video where
  "zero_video = \<lparr>vURL = [], Title = [], Date = [], Duration = 0, MatchDate = False, MatchDuration = False,
     HasCJKChar = False, HasNonEnglishChar = False, IsTarget = False\<rparr>"

definition outcome :: "pageKind \<Rightarrow> pageOutcome" where
  "outcome k = \<lparr>kind = k, video = zero_video, links = [], reason = [], failClass = FailRateLimited\<rparr>"

text \<open>What goquery found in a page: the title text, the \<open>href\<close> of each link, the text of the first
  date element, and the content of the duration meta tag.\<close>

record document =
  doc_title :: string
  hrefs :: "string list"
  first_date :: string
  duration_meta :: "string option"

text \<open>A response: the status, where it redirects (scheme, host and path, if the header parses), the
  scheme and host it was requested from, and the parsed body.\<close>

record response =
  StatusCode :: int
  Location :: "(string \<times> string \<times> string) option"
  req_scheme :: string
  req_host :: string
  body :: "document option"

type_synonym fetch = "response option"

definition extractLinks :: "document \<Rightarrow> string \<Rightarrow> string list" where
  "extractLinks doc baseURL =
     map (\<lambda>href. if prefix ''/'' href \<and> \<not> prefix ''//'' href then baseURL @ href else href) (hrefs doc)"

definition rate_limit_phrases :: "string list" where
  "rate_limit_phrases = [''rate limited'', ''rate limiting'', ''rate limit exceeded'', ''too many requests'']"

definition isRateLimitTitle :: "string \<Rightarrow> bool" where
  "isRateLimitTitle title =
     (let t = map lower_rune (join_fields (runes_of title))
      in list_ex (\<lambda>phrase. sublist (map byte phrase) t) rate_limit_phrases)"

definition trim_suffix :: "string \<Rightarrow> string \<Rightarrow> string" where
  "trim_suffix s suf = (if suffix suf s then take (length s - length suf) s else s)"

definition retryable :: "FailClass \<Rightarrow> string \<Rightarrow> pageOutcome" where
  "retryable c r = (outcome pageRetryable)\<lparr>failClass := c, reason := r\<rparr>"

definition invalid :: "string \<Rightarrow> pageOutcome" where
  "invalid r = (outcome pageInvalidResponse)\<lparr>reason := r\<rparr>"

text \<open>The part of \<open>process\<close> after a 200 response was parsed.\<close>

definition process_page :: "(int \<Rightarrow> bool) \<Rightarrow> Config \<Rightarrow> url \<Rightarrow> document \<Rightarrow> pageOutcome" where
  "process_page isLetter cfg url doc =
     (let title = doc_title doc; pageTitle = TrimSpace (trim_suffix title (TitleSuffix cfg)) in
      if isRateLimitTitle title then retryable FailRateLimited ''http_200_rate_limit_title''
      else if EqualFold pageTitle ''Important Information for UK Users'' then invalid ''uk_access_notice''
      else let ls = extractLinks doc (BaseUrl cfg) in
        if \<not> str_contains url (VideoPattern cfg) then (outcome pageListing)\<lparr>links := ls\<rparr>
        else let date = TrimSpace (first_date doc) in
          (case Option.bind (duration_meta doc) (\<lambda>d. atoi (TrimSpace d)) of
             None \<Rightarrow> invalid ''invalid_video_metadata''
           | Some dur \<Rightarrow>
               if pageTitle = [] \<or> date = [] \<or> dur < 0 then invalid ''invalid_video_metadata''
               else (outcome pageVideo)\<lparr>links := ls,
                      video := Match isLetter (CutoffDate cfg)
                        (zero_video\<lparr>vURL := url, Title := trim_suffix title (TitleSuffix cfg), Date := date,
                           Duration := dur\<rparr>)\<rparr>))"

text \<open>\<open>cancelled\<close> is whether \<open>ctx.Err()\<close> is set when a failure is looked at.\<close>

definition process :: "(int \<Rightarrow> bool) \<Rightarrow> Config \<Rightarrow> url \<Rightarrow> bool \<Rightarrow> fetch \<Rightarrow> pageOutcome" where
  "process isLetter cfg url cancelled f = (case f of
     None \<Rightarrow> if cancelled then outcome pageCancelled else retryable FailStrikeable ''request_failed''
   | Some resp \<Rightarrow>
       if StatusCode resp = 429 then retryable FailRateLimited ''http_429''
       else if StatusCode resp \<in> {404, 410} then (outcome pageNotFound)\<lparr>reason := show_int (StatusCode resp)\<rparr>
       else if StatusCode resp = 200 then
         (case body resp of
            None \<Rightarrow> if cancelled then outcome pageCancelled else invalid ''parse_failed''
          | Some doc \<Rightarrow> process_page isLetter cfg url doc)
       else if StatusCode resp \<in> {301, 302, 303, 307, 308} then
         (case Location resp of
            Some (sch, hst, pth) \<Rightarrow>
              if sch = req_scheme resp \<and> EqualFold hst (req_host resp) \<and> trim_right CHR ''/'' pth = ''/ukinfo''
              then invalid ''uk_access_notice'' else invalid ''redirect_rejected''
          | None \<Rightarrow> invalid ''redirect_rejected'')
       else retryable FailStrikeable (''http_'' @ show_int (StatusCode resp)))"

section \<open>The crawler's state\<close>

record ('s, 'm) world =
  server :: 's
  mongo :: 'm
  vcount :: int
  targets :: "Video list"
  halted :: bool
  ResolveErrors :: nat
  LeaseErrors :: nat

text \<open>The calls of one turn of a worker: each with what it meets on the network, and the wall clock.\<close>

record turn_env =
  lease_env :: call_env
  child_env :: "nat \<Rightarrow> call_env"
  done_env :: call_env
  wall :: go_time

definition with_server :: "('s \<Rightarrow> 'r \<times> 's) \<Rightarrow> ('s, 'm) world \<Rightarrow> 'r \<times> ('s, 'm) world" where
  "with_server f w = (case f (server w) of (r, s) \<Rightarrow> (r, w\<lparr>server := s\<rparr>))"

text \<open>\<open>resolve\<close>: a stale lease is dropped, any other error is counted.\<close>

definition resolve :: "('s \<Rightarrow> (go_error + 'a) \<times> 's) \<Rightarrow> ('s, 'm) world \<Rightarrow> ('s, 'm) world" where
  "resolve op w = (case with_server op w of
     (Inl err, w') \<Rightarrow> if err = ErrStaleLease then w' else w'\<lparr>ResolveErrors := ResolveErrors w' + 1\<rparr>
   | (Inr _, w') \<Rightarrow> w')"

definition untilFor :: "URLClass \<Rightarrow> duration \<Rightarrow> go_time \<Rightarrow> go_time" where
  "untilFor class quarantine now = (if class = ClassVideo then zero_time else now + quarantine)"

definition maybeFatalAdmission :: "go_error \<Rightarrow> ('s, 'm) world \<Rightarrow> ('s, 'm) world" where
  "maybeFatalAdmission err w = (case err of RedisErr _ \<Rightarrow> w\<lparr>halted := True\<rparr> | _ \<Rightarrow> w)"

definition admitURL :: "'s frontier_methods \<Rightarrow> net_url \<Rightarrow> Config \<Rightarrow> call_env \<Rightarrow> string \<Rightarrow> 's \<Rightarrow>
    (go_error + AdmitResult) \<times> 's" where
  "admitURL F net cfg e raw s =
     (let url = canonicalize net cfg raw
      in if url = [] then (Inr Suppressed, s)
         else if str_contains url (VideoPattern cfg) then fr_AdmitVideo F e url s
         else fr_AdmitListing F e url s)"

text \<open>\<open>enqueueChildren\<close>: the first error ends it; the number of new children so far comes with it.\<close>

fun enqueueChildren :: "'s frontier_methods \<Rightarrow> net_url \<Rightarrow> Config \<Rightarrow> (nat \<Rightarrow> call_env) \<Rightarrow> string list \<Rightarrow> int \<Rightarrow>
    's \<Rightarrow> (int \<times> go_error option) \<times> 's" where
  "enqueueChildren F net cfg es [] newCount s = ((newCount, None), s)"
| "enqueueChildren F net cfg es (raw # rest) newCount s =
     (case admitURL F net cfg (es 0) raw s of
        (Inl err, s') \<Rightarrow> ((newCount, Some err), s')
      | (Inr res, s') \<Rightarrow>
          enqueueChildren F net cfg (\<lambda>i. es (Suc i)) rest (if res = New then newCount + 1 else newCount) s')"

definition recordVideo :: "Video \<Rightarrow> ('s, 'm) world \<Rightarrow> ('s, 'm) world" where
  "recordVideo v w =
     (let w1 = w\<lparr>vcount := vcount w + 1\<rparr> in if IsTarget v then w1\<lparr>targets := targets w1 @ [v]\<rparr> else w1)"

type_synonym 'm upsert = "Video \<Rightarrow> 'm \<Rightarrow> (go_error + unit) \<times> 'm"

definition handleOutcome :: "'s frontier_methods \<Rightarrow> net_url \<Rightarrow> 'm upsert \<Rightarrow> Config \<Rightarrow> turn_env \<Rightarrow> Job \<Rightarrow> pageOutcome \<Rightarrow>
    ('s, 'm) world \<Rightarrow> bool \<times> ('s, 'm) world" where
  "handleOutcome F net ups cfg t job out w =
     (let nack = resolve (fr_Nack F (done_env t) job);
          children = with_server (enqueueChildren F net cfg (child_env t) (links out) 0)
      in case kind out of
           pageVideo \<Rightarrow>
             (case ups (video out) (mongo w) of
                (Inl err, m) \<Rightarrow> (False, nack (w\<lparr>mongo := m\<rparr>))
              | (Inr _, m) \<Rightarrow>
                  (case children (recordVideo (video out) (w\<lparr>mongo := m\<rparr>)) of
                     ((n, Some err), w1) \<Rightarrow> (False, maybeFatalAdmission err (nack w1))
                   | ((n, None), w1) \<Rightarrow> (True, resolve (fr_Ack F (done_env t) job) w1)))
         | pageListing \<Rightarrow>
             (case children w of
                ((n, Some err), w1) \<Rightarrow> (False, maybeFatalAdmission err (nack w1))
              | ((n, None), w1) \<Rightarrow> (False, resolve (fr_CompleteListing F (done_env t) job n) w1))
         | pageNotFound \<Rightarrow>
             (let quarantine = wrap64 (QuarantineListingHours cfg * hour)
              in (False, resolve (fr_Terminal F (done_env t) job (reason out)
                    (untilFor (Class job) quarantine (wall t))) w))
         | pageRetryable \<Rightarrow> (False, resolve (fr_Fail F (done_env t) job (failClass out)) w)
         | pageInvalidResponse \<Rightarrow> (False, resolve (fr_Fail F (done_env t) job FailRateLimited) w)
         | pageUnknown \<Rightarrow> (False, resolve (fr_Fail F (done_env t) job FailStrikeable) w)
         | pageCancelled \<Rightarrow> (False, nack w))"

section \<open>The worker loop\<close>

definition proxyWarningEvery :: int where "proxyWarningEvery = 5"
definition workerRateLimitStop :: int where "workerRateLimitStop = 5"

record workerFailures =
  consecutive :: int
  rateLimited :: int
  consecutiveRateLimited :: int

definition rate_limited :: "pageOutcome \<Rightarrow> bool" where
  "rate_limited out \<longleftrightarrow> kind out = pageRetryable \<and> failClass out = FailRateLimited"

text \<open>The new counters, and whether the proxy warning is logged.\<close>

definition observe :: "pageOutcome \<Rightarrow> workerFailures \<Rightarrow> workerFailures \<times> bool" where
  "observe out f =
     (let f1 = (if kind out \<noteq> pageCancelled
                then f\<lparr>consecutiveRateLimited := (if rate_limited out then consecutiveRateLimited f + 1 else 0)\<rparr>
                else f)
      in case kind out of
           pageCancelled \<Rightarrow> (f1, False)
         | pageVideo \<Rightarrow> (f1\<lparr>consecutive := 0, rateLimited := 0\<rparr>, False)
         | pageListing \<Rightarrow> (f1\<lparr>consecutive := 0, rateLimited := 0\<rparr>, False)
         | pageNotFound \<Rightarrow> (f1\<lparr>consecutive := 0, rateLimited := 0\<rparr>, False)
         | _ \<Rightarrow>
             (let f2 = f1\<lparr>consecutive := consecutive f1 + 1\<rparr>;
                  f3 = (if rate_limited out then f2\<lparr>rateLimited := rateLimited f2 + 1\<rparr> else f2)
              in (f3, consecutive f3 > 0 \<and> consecutive f3 mod proxyWarningEvery = 0)))"

text \<open>What one turn of the loop meets: cancellation at the top, the limiter, the fetch.\<close>

record turn =
  ctx_done :: bool
  limiter_failed :: bool
  fetched :: fetch
  ctx_done_later :: bool
  envs :: turn_env

datatype control = Continue | Return

definition worker_turn :: "'s frontier_methods \<Rightarrow> net_url \<Rightarrow> 'm upsert \<Rightarrow> (int \<Rightarrow> bool) \<Rightarrow> Config \<Rightarrow> int \<Rightarrow> turn \<Rightarrow>
    workerFailures \<times> ('s, 'm) world \<Rightarrow> control \<times> workerFailures \<times> ('s, 'm) world" where
  "worker_turn F net ups isLetter cfg videoLimit t x =
     (let (f, w) = x; e = envs t in
      if ctx_done t \<or> videoLimit > 0 \<and> vcount w \<ge> videoLimit then (Return, f, w)
      else case with_server (fr_Lease F (lease_env e)) w of
        (Inl err, w1) \<Rightarrow> (Continue, f, w1\<lparr>LeaseErrors := LeaseErrors w1 + 1\<rparr>)
      | (Inr None, w1) \<Rightarrow> (Continue, f, w1)
      | (Inr (Some job), w1) \<Rightarrow>
          if canonicalize net cfg (URL job) = [] then (Continue, f, resolve (fr_Ack F (done_env e) job) w1)
          else if limiter_failed t then (Return, f, resolve (fr_Nack F (done_env e) job) w1)
          else
            (let out = process isLetter cfg (URL job) (ctx_done_later t) (fetched t);
                 f1 = fst (observe out f);
                 w2 = snd (handleOutcome F net ups cfg e job out w1)
             in if kind out = pageInvalidResponse \<and> reason out = ''uk_access_notice'' then (Return, f1, w2)
                else if consecutiveRateLimited f1 \<ge> workerRateLimitStop then (Return, f1, w2)
                else (Continue, f1, w2)))"

text \<open>The loop on an observed run of turns.\<close>

fun workerLoop :: "'s frontier_methods \<Rightarrow> net_url \<Rightarrow> 'm upsert \<Rightarrow> (int \<Rightarrow> bool) \<Rightarrow> Config \<Rightarrow> int \<Rightarrow> turn list \<Rightarrow>
    workerFailures \<times> ('s, 'm) world \<Rightarrow> workerFailures \<times> ('s, 'm) world" where
  "workerLoop F net ups isLetter cfg videoLimit [] x = x"
| "workerLoop F net ups isLetter cfg videoLimit (t # ts) x =
     (case worker_turn F net ups isLetter cfg videoLimit t x of
        (Return, y) \<Rightarrow> y
      | (Continue, y) \<Rightarrow> workerLoop F net ups isLetter cfg videoLimit ts y)"

end
