(* ===== verification/Worker_Correct.thy ===== *)
theory Worker_Correct
  imports Worker Frontier_Correct
begin

text \<open>
  What a worker does with the job it leased: it completes that job and no other, it gives the lease
  back on every path, it never drops a page it could not process, and it stops after five rate
  limits in a row. The turns are those of \<open>Worker\<close>, over any frontier that keeps the contracts
  \<open>frontier_client\<close> and \<open>releasing_client\<close>.
\<close>

section \<open>Releasing a lease\<close>

text \<open>The call reached the server, whether or not its reply came back.\<close>

definition arrived :: "call_env \<Rightarrow> bool" where
  "arrived e \<longleftrightarrow> fate e = None \<or> 0 < lost e"

fun not_leasing :: "cmd \<Rightarrow> bool" where
  "not_leasing (ZADD k sc m) \<longleftrightarrow> k \<noteq> keyLease"
| "not_leasing (ZADDNX k sc m) \<longleftrightarrow> k \<noteq> keyLease"
| "not_leasing _ \<longleftrightarrow> True"

lemma not_leasing_cmd:
  "not_leasing c \<Longrightarrow> lease d m = None \<Longrightarrow> redis_doc c d v d' \<Longrightarrow> lease d' m = None"
  by (cases c) (auto simp: Let_def split: if_splits prod.splits)

lemma target_not_leasing: "target op = Some (m, u) \<Longrightarrow> all_cmds not_leasing (op_script op)"
  by (cases op)
    (auto simp: target_def script_defs command_defs mint_def Let_def split: option.split)

lemma target_zrem: "target op = Some (m, u) \<Longrightarrow> \<exists>k. op_script op = Call (ZREM keyLease m) k"
  by (cases op) (auto simp: target_def script_defs zrem_def Let_def)

locale releasing_client = frontier_client +
  fixes leased :: "'a \<Rightarrow> member \<Rightarrow> bool"
  assumes ack_releases: "arrived e \<Longrightarrow> \<not> leased (snd (fr_Ack F e j s)) (member j)"
    and nack_releases: "arrived e \<Longrightarrow> \<not> leased (snd (fr_Nack F e j s)) (member j)"
    and fail_releases: "arrived e \<Longrightarrow> \<not> leased (snd (fr_Fail F e j c s)) (member j)"
    and terminal_releases: "arrived e \<Longrightarrow> \<not> leased (snd (fr_Terminal F e j why until s)) (member j)"
    and complete_releases: "arrived e \<Longrightarrow> \<not> leased (snd (fr_CompleteListing F e j n s)) (member j)"
begin

lemmas releases = ack_releases nack_releases fail_releases terminal_releases complete_releases

end

context redis_reliable
begin

lemma script_releases:
  assumes "target op = Some (m, u)"
  shows "lease (data (snd (run call (op_script op) s))) m = None"
proof -
  obtain k where k: "op_script op = Call (ZREM keyLease m) k" using target_zrem [OF assms] by blast
  obtain v s1 where c: "call (ZREM keyLease m) s = (Inr v, s1)"
    using call_ok [of "ZREM keyLease m" s] by auto
  have "lease (data s1) m = None" using call_reply [OF c] by (auto split: if_splits)
  moreover have "all_cmds not_leasing (k v)" using target_not_leasing [OF assms] k by simp
  ultimately have "wp True (k v) (data s1) (\<lambda>_ d'. lease d' m = None)"
    using wp_all_cmds [of not_leasing "k v" "\<lambda>d. lease d m = None" "data s1"] not_leasing_cmd by blast
  from run_wp [OF this prod.collapse [symmetric]] show ?thesis by (simp add: k c)
qed

lemma executions_release:
  assumes "target op = Some (m, u)" "op_script op = map_script f sc" "0 < n \<or> lease (data s) m = None"
  shows "lease (data (executions call n sc s)) m = None"
  using assms(3)
proof (induction n arbitrary: s)
  case (Suc n)
  have "snd (run call sc s) = snd (run call (op_script op) s)"
    by (simp add: assms(2) run_map_script)
  then show ?case using Suc.IH [of "snd (run call sc s)"] script_releases [OF assms(1), of s] by simp
qed simp

lemma rpc_releases:
  assumes "target op = Some (m, u)" "op_script op = map_script f sc" "arrived e"
  shows "lease (data (snd (on_reply g (rpc call e sc s)))) m = None"
proof -
  let ?s1 = "executions call (lost e) sc s"
  have "snd (run call sc ?s1) = snd (run call (op_script op) ?s1)"
    by (simp add: assms(2) run_map_script)
  then have "lease (data (snd (run call sc ?s1))) m = None"
    using script_releases [OF assms(1), of ?s1] by simp
  moreover have "lease (data ?s1) m = None" if "fate e \<noteq> None"
    using that assms(3) by (intro executions_release [OF assms(1,2)]) (auto simp: arrived_def)
  ultimately show ?thesis
    by (auto simp: rpc_def on_reply_def Let_def split: option.splits prod.splits sum.splits)
qed

end

sublocale redis_reliable \<subseteq> releasing: releasing_client "NewFrontier call cfg cl" cfg "server_trace call"
  "\<lambda>s m. lease (data s) m \<noteq> None" for cfg cl
proof unfold_locales
  fix e :: call_env and j s why until n c
  assume e: "arrived e"
  note r = rpc_releases [where f = Text and m = "member j" and u = "URL j", OF _ _ e]
  show "\<not> lease (data (snd (fr_Ack (NewFrontier call cfg cl) e j s))) (member j) \<noteq> None"
    by (simp add: NewFrontier_def Ack_def r [of "OAck (member j) (URL j)"] target_def)
  show "\<not> lease (data (snd (fr_Nack (NewFrontier call cfg cl) e j s))) (member j) \<noteq> None"
    by (simp add: NewFrontier_def Nack_def r [of "ONack (member j) (URL j)"] target_def)
  show "\<not> lease (data (snd (fr_Terminal (NewFrontier call cfg cl) e j why until s))) (member j) \<noteq> None"
    by (simp add: NewFrontier_def Terminal_def target_def
        r [of "OTerminal (member j) (URL j) why (unixOrZero until)"])
  show "\<not> lease (data (snd (fr_CompleteListing (NewFrontier call cfg cl) e j n s))) (member j) \<noteq> None"
    by (simp add: NewFrontier_def CompleteListing_def Let_def target_def
        r [of "OComplete (member j) (URL j) n now b mx" for now b mx])
  obtain op where "op_script op = map_script Text (fail_script cfg j c (clock e))"
    "target op = Some (member j, URL j)" using fail_script_op by blast
  from r [OF this(2,1)]
  show "\<not> lease (data (snd (fr_Fail (NewFrontier call cfg cl) e j c s))) (member j) \<noteq> None"
    by (simp add: NewFrontier_def Fail_def)
qed

section \<open>Classifying a response\<close>

lemma outcome_fields [simp]:
  "kind (outcome k) = k" "kind (retryable c r) = pageRetryable" "failClass (retryable c r) = c"
  "reason (retryable c r) = r" "kind (invalid r) = pageInvalidResponse" "reason (invalid r) = r"
  by (simp_all add: outcome_def retryable_def invalid_def)

lemma Match_fields [simp]:
  "vURL (Match isLetter co v) = vURL v" "Title (Match isLetter co v) = Title v"
  "Date (Match isLetter co v) = Date v" "Duration (Match isLetter co v) = Duration v"
  by (simp_all add: Match_def Let_def)

lemma process_page_kinds:
  "kind (process_page isLetter c u doc) \<in> {pageVideo, pageListing, pageRetryable, pageInvalidResponse}"
  unfolding process_page_def Let_def by (simp split: option.split)

lemma process_page_rate_limited:
  "rate_limited (process_page isLetter c u doc) \<longleftrightarrow> isRateLimitTitle (doc_title doc)"
  unfolding process_page_def Let_def rate_limited_def by (simp split: option.split)

lemma process_page_video:
  assumes "kind (process_page isLetter c u doc) = pageVideo"
  shows "str_contains u (VideoPattern c) \<and> vURL (video (process_page isLetter c u doc)) = u \<and>
    0 \<le> Duration (video (process_page isLetter c u doc)) \<and> Date (video (process_page isLetter c u doc)) \<noteq> [] \<and>
    TrimSpace (Title (video (process_page isLetter c u doc))) \<noteq> []"
  using assms unfolding process_page_def Let_def by (simp split: if_splits option.splits)

lemma process_page_listing:
  assumes "kind (process_page isLetter c u doc) = pageListing"
  shows "\<not> str_contains u (VideoPattern c)"
  using assms unfolding process_page_def Let_def by (simp split: if_splits option.splits)

definition page_of :: "fetch \<Rightarrow> document option" where
  "page_of f = Option.bind f (\<lambda>resp. if StatusCode resp = 200 then body resp else None)"

lemma process_page_of:
  "process isLetter c u cancelled f = process_page isLetter c u doc" if "page_of f = Some doc"
  using that by (auto simp: page_of_def process_def split: bind_splits if_splits)

lemma process_no_page:
  assumes "page_of f = None"
  shows "kind (process isLetter c u cancelled f) \<notin> {pageVideo, pageListing, pageUnknown}"
    "rate_limited (process isLetter c u cancelled f) \<longleftrightarrow> (\<exists>resp. f = Some resp \<and> StatusCode resp = 429)"
  using assms unfolding process_def page_of_def rate_limited_def
  by (auto split: option.splits bind_splits)

lemma process_video_url:
  assumes "kind (process isLetter c u cancelled f) = pageVideo"
  shows "vURL (video (process isLetter c u cancelled f)) = u"
  using assms process_page_of process_page_video process_no_page(1) by (cases "page_of f") fastforce+

section \<open>The steps of a turn\<close>

definition admission :: "frontier_op \<Rightarrow> bool" where
  "admission op \<longleftrightarrow> (\<exists>u now. op = OAdmitVideo u now \<or> op = OAdmitListing u now)"

text \<open>An operation that ends the job; an Ack only if the page may be let go.\<close>

definition closing :: "Job \<Rightarrow> bool \<Rightarrow> frontier_op \<Rightarrow> bool" where
  "closing j let_go op \<longleftrightarrow> target op = Some (member j, URL j) \<and> (is_ack (URL j) op \<longrightarrow> let_go)"

lemma resolve_keeps [simp]:
  "mongo (resolve op w) = mongo w" "vcount (resolve op w) = vcount w" "targets (resolve op w) = targets w"
  by (auto simp: resolve_def with_server_def split: prod.splits sum.splits)

lemma with_server_keeps:
  assumes "with_server f w = (r, w')"
  shows "mongo w' = mongo w \<and> vcount w' = vcount w \<and> targets w' = targets w"
  using assms by (auto simp: with_server_def split: prod.splits)

lemma maybeFatalAdmission_keeps [simp]:
  "server (maybeFatalAdmission err w) = server w" "mongo (maybeFatalAdmission err w) = mongo w"
  "vcount (maybeFatalAdmission err w) = vcount w" "targets (maybeFatalAdmission err w) = targets w"
  by (auto simp: maybeFatalAdmission_def split: go_error.splits)

lemma recordVideo_fields [simp]:
  "server (recordVideo v w) = server w" "mongo (recordVideo v w) = mongo w"
  "vcount (recordVideo v w) = vcount w + 1"
  "targets (recordVideo v w) = targets w @ (if IsTarget v then [v] else [])"
  by (simp_all add: recordVideo_def Let_def)

definition video_stored :: "'m upsert \<Rightarrow> Video \<Rightarrow> ('s, 'm) world \<Rightarrow> ('s, 'm) world \<Rightarrow> bool" where
  "video_stored ups v w w' \<longleftrightarrow> ups v (mongo w) = (Inr (), mongo w') \<and> vcount w' = vcount w + 1 \<and>
     targets w' = targets w @ (if IsTarget v then [v] else [])"

text \<open>The counters of the crawler move exactly when a video was stored.\<close>

lemma handleOutcome_stored:
  assumes "handleOutcome F net ups c t j out w = (b, w')"
  shows "b \<and> kind out = pageVideo \<and> video_stored ups (video out) w w' \<or>
    \<not> b \<and> (vcount w' = vcount w \<and> targets w' = targets w \<or> kind out = pageVideo \<and> video_stored ups (video out) w w')"
proof (cases "kind out = pageVideo \<and> (\<exists>m. ups (video out) (mongo w) = (Inr (), m))")
  case True
  then obtain m where m: "kind out = pageVideo" "ups (video out) (mongo w) = (Inr (), m)" by blast
  obtain n e w1 where c: "with_server (enqueueChildren F net c (child_env t) (links out) 0)
      (recordVideo (video out) (w\<lparr>mongo := m\<rparr>)) = ((n, e), w1)" by (metis prod.collapse)
  from with_server_keeps [OF this] have k: "video_stored ups (video out) w w1"
    using m(2) by (simp add: video_stored_def)
  show ?thesis
    using assms m c k
    by (cases e) (auto simp: handleOutcome_def video_stored_def)
next
  case False
  then show ?thesis
    using assms
    by (cases "kind out")
      (auto simp: handleOutcome_def Let_def split: prod.splits sum.splits option.splits dest: with_server_keeps)
qed

context frontier_client
begin

lemma via_Pair: "(\<And>r s'. f s = (r, s') \<Longrightarrow> via trace P s s') \<Longrightarrow> via trace P s (snd (f s))"
  by (metis prod.collapse)

lemma resolve_server: "server (resolve op w) = snd (op (server w))"
  by (auto simp: resolve_def with_server_def split: prod.splits sum.splits)

lemma admitURL_via:
  assumes "admitURL F net c e raw s = (r, s')"
  shows "via trace admission s s'"
  using assms via_refl
  by (auto simp: admitURL_def Let_def split: if_splits
      dest!: admit_video_via admit_listing_via elim!: via_mono) (auto simp: admission_def)

lemma enqueueChildren_via:
  "enqueueChildren F net c es ls n s = (r, s') \<Longrightarrow> via trace admission s s'"
proof (induction ls arbitrary: es n s)
  case (Cons raw ls)
  then show ?case
    by (auto split: prod.splits sum.splits dest!: admitURL_via intro: via_trans Cons.IH)
qed (simp add: via_refl)

lemma closing_via:
  "via trace (closing j False) s (snd (fr_Nack F e j s))"
  "via trace (closing j False) s (snd (fr_Fail F e j fc s))"
  "via trace (closing j False) s (snd (fr_Terminal F e j why until s))"
  "via trace (closing j False) s (snd (fr_CompleteListing F e j n s))"
  "via trace (closing j True) s (snd (fr_Ack F e j s))"
  by (rule via_Pair, drule nack_via fail_via terminal_via complete_via ack_via, erule via_mono,
      auto simp: closing_def target_def fail_op_def)+

lemma children_via:
  assumes "with_server (enqueueChildren F net c es ls n) w = (r, w')"
  shows "via trace admission (server w) (server w')"
  using assms by (auto simp: with_server_def split: prod.splits dest: enqueueChildren_via)

lemmas turn_steps = via_refl closing_via resolve_server

lemma handleOutcome_steps:
  assumes "handleOutcome F net ups c t j out w = (b, w')"
  shows "\<exists>s1. via trace admission (server w) s1 \<and> via trace (closing j b) s1 (server w')"
proof (cases "kind out")
  case pageVideo
  obtain r m where u: "ups (video out) (mongo w) = (r, m)" by fastforce
  show ?thesis
  proof (cases r)
    case (Inl err)
    then show ?thesis
      using assms pageVideo u by (intro exI [of _ "server w"]) (auto simp: handleOutcome_def turn_steps)
  next
    case (Inr x)
    obtain n e w1 where c: "with_server (enqueueChildren F net c (child_env t) (links out) 0)
        (recordVideo (video out) (w\<lparr>mongo := m\<rparr>)) = ((n, e), w1)" by (metis prod.collapse)
    then show ?thesis
      using assms pageVideo u Inr children_via [OF c]
      by (cases e) (auto simp: handleOutcome_def turn_steps intro!: exI [of _ "server w1"])
  qed
next
  case pageListing
  obtain n e w1 where c: "with_server (enqueueChildren F net c (child_env t) (links out) 0) w = ((n, e), w1)"
    by (metis prod.collapse)
  then show ?thesis
    using assms pageListing children_via [OF c]
    by (cases e) (auto simp: handleOutcome_def turn_steps intro!: exI [of _ "server w1"])
qed (use assms in \<open>auto simp: handleOutcome_def Let_def turn_steps intro!: exI [of _ "server w"]\<close>)

lemma worker_turn_steps:
  assumes "worker_turn F net ups isLetter c lim t (f, w) = (ctl, f', w')"
  shows "via trace (\<lambda>op. \<exists>now x. op = OLease now x) (server w) (server w') \<or>
    (\<exists>j s1 s2 b. fr_Lease F (lease_env (envs t)) (server w) = (Inr (Some j), s1) \<and>
       via trace admission s1 s2 \<and> via trace (closing j b) s2 (server w') \<and>
       (b \<longrightarrow> canonicalize net c (URL j) = [] \<or> (\<exists>v. vURL v = URL j \<and> video_stored ups v w w')))"
proof (cases "ctx_done t \<or> lim > 0 \<and> vcount w \<ge> lim")
  case True
  with assms show ?thesis by (auto simp: worker_turn_def via_refl)
next
  case running: False
  obtain r s1 where l: "fr_Lease F (lease_env (envs t)) (server w) = (r, s1)" by fastforce
  show ?thesis
  proof (cases "\<exists>j. r = Inr (Some j)")
    case False
    then have "server w' = s1"
      using assms running l by (cases r) (auto simp: worker_turn_def with_server_def Let_def split: option.splits)
    with lease_via [OF l] show ?thesis by simp
  next
    case True
    then obtain j where j: "r = Inr (Some j)" by blast
    let ?out = "process isLetter c (URL j) (ctx_done_later t) (fetched t)"
    obtain b w2 where h: "handleOutcome F net ups c (envs t) j ?out (w\<lparr>server := s1\<rparr>) = (b, w2)" by fastforce
    consider "canonicalize net c (URL j) = []" "w' = resolve (fr_Ack F (done_env (envs t)) j) (w\<lparr>server := s1\<rparr>)"
      | "w' = resolve (fr_Nack F (done_env (envs t)) j) (w\<lparr>server := s1\<rparr>)" | "w' = w2"
      using assms running l j h by (auto simp: worker_turn_def with_server_def Let_def split: if_splits)
    then show ?thesis
    proof cases
      case 1
      then show ?thesis using l j by (auto simp: turn_steps intro!: exI [of _ s1] exI [of _ True])
    next
      case 2
      then show ?thesis using l j by (auto simp: turn_steps intro!: exI [of _ s1] exI [of _ False])
    next
      case 3
      have "b \<longrightarrow> (\<exists>v. vURL v = URL j \<and> video_stored ups v w w')"
        using handleOutcome_stored [OF h] process_video_url [of isLetter c "URL j" "ctx_done_later t" "fetched t"] 3
        by (fastforce simp: video_stored_def)
      then show ?thesis using handleOutcome_steps [OF h] l j 3 by auto
    qed
  qed
qed

end

context redis_reliable
begin

lemmas releasing_NewFrontier = releasing.releasing_client_axioms

end

context releasing_client
begin

lemma handleOutcome_releases:
  assumes "arrived (done_env t)"
  shows "\<not> leased (server (snd (handleOutcome F net ups c t j out w))) (member j)"
  using releases [OF assms]
  by (simp add: handleOutcome_def Let_def resolve_server split: prod.split sum.split option.split pageKind.split)

lemma worker_turn_releases:
  assumes "arrived (done_env (envs t))" "\<not> ctx_done t" "lim > 0 \<longrightarrow> vcount w < lim"
    "fr_Lease F (lease_env (envs t)) (server w) = (Inr (Some j), s1)"
  shows "\<not> leased (server (snd (snd (worker_turn F net ups isLetter c lim t (f, w))))) (member j)"
proof -
  have "\<not> (ctx_done t \<or> lim > 0 \<and> vcount w \<ge> lim)" using assms(2,3) by auto
  then show ?thesis
    by (auto simp: worker_turn_def with_server_def Let_def resolve_server assms(4) releases [OF assms(1)]
        handleOutcome_releases [OF assms(1)])
qed

end

section \<open>A sample turn\<close>

text \<open>Go's own URLs, in a setting without IP literals.\<close>

definition sample_net :: net_url where
  "sample_net = go_url (\<lambda>_. None)"

definition sample_cfg :: Config where
  "sample_cfg = Load (\<lambda>_. [])"

definition sample_video :: url where
  "sample_video = ''https://www.vidlii.com/watch?v=a''"

definition sample_ready :: rstore where
  "sample_ready = replay [OAdmitVideo sample_video 100]"

definition sample_page :: document where
  "sample_page = \<lparr>doc_title = ''Song - VidLii'', hrefs = [''/videos'', ''/watch?v=b'', ''https://x.org/''],
     first_date = ''Jan 2, 2020'', duration_meta = Some ''90''\<rparr>"

definition sample_turn :: "fetch \<Rightarrow> turn" where
  "sample_turn f = \<lparr>ctx_done = False, limiter_failed = False, fetched = f, ctx_done_later = False,
     envs = \<lparr>lease_env = call_at (100 * second), child_env = (\<lambda>_. call_at (101 * second)),
       done_env = call_at (102 * second), wall = 102 * second\<rparr>\<rparr>"

definition sample_world :: "rstore \<Rightarrow> (rstore, Video list) world" where
  "sample_world s = \<lparr>server = s, mongo = [], vcount = 0, targets = [], halted = False, ResolveErrors = 0,
     LeaseErrors = 0\<rparr>"

definition sample_failures :: workerFailures where
  "sample_failures = \<lparr>consecutive = 0, rateLimited = 0, consecutiveRateLimited = 0\<rparr>"

definition sample_upsert :: "Video list upsert" where
  "sample_upsert v m = (Inr (), v # m)"

definition sample_result :: "fetch \<Rightarrow> control \<times> workerFailures \<times> (rstore, Video list) world" where
  "sample_result f = worker_turn (NewFrontier store_call DefaultFrontierConfig None) sample_net sample_upsert
     (\<lambda>_. False) sample_cfg 0 (sample_turn f) (sample_failures, sample_world sample_ready)"

definition found :: fetch where
  "found = Some \<lparr>StatusCode = 200, Location = None, req_scheme = ''https'', req_host = ''www.vidlii.com'',
     body = Some sample_page\<rparr>"

lemma sample_result_split:
  "worker_turn (NewFrontier store_call DefaultFrontierConfig None) sample_net sample_upsert
     (\<lambda>_. False) sample_cfg 0 (sample_turn f) (sample_failures, sample_world sample_ready) =
   (fst (sample_result f), fst (snd (sample_result f)), snd (snd (sample_result f)))"
  by (simp add: sample_result_def)

lemma sample_ready_healthy: "healthy 50 (store_data sample_ready)"
proof -
  have "job_seq (store_data sample_ready) + int 50 \<le> id_limit" by code_simp
  then show ?thesis by (rule replay_healthy_by [OF sample_ready_def, rotated]) simp
qed

lemma sample_ready_live: "live (store_data sample_ready) sample_video"
proof -
  have "ready (store_data sample_ready) = [''1|https://www.vidlii.com/watch?v=a'']"
    "after_bar ''1|https://www.vidlii.com/watch?v=a'' = Some sample_video"
    by code_simp+
  then show ?thesis
    unfolding live_def carries_def by (intro exI [of _ "''1|https://www.vidlii.com/watch?v=a''"]) simp
qed

section \<open>Properties of a turn\<close>

lemma trace_handed_carries:
  assumes "redis_server call data" "server_trace call s tr s'" "barred (data s)"
  shows "\<forall>m \<in> set (handed tr). carries_url m"
  using assms(2,3)
proof (induction rule: server_trace.induct)
  case (trace_step tr s1 op r s2)
  have b: "barred (data s1)"
    using redis_server.trace_keeps [OF assms(1) trace_step.hyps(1), of barred] op_barred trace_step.prems by blast
  have "carries_url m" if ev: "m \<in> set (handed_event (op, r))" for m
  proof -
    obtain now t where op: "op = OLease now t" "r = Inr (Item (Some m))"
      using handed_eventD [OF ev] by auto
    show ?thesis
      using redis_server.run_wp [OF assms(1) op_hands, OF trace_step.hyps(2) [unfolded op], of m] b
      by (auto simp: barred_def)
  qed
  with trace_step show ?case by auto
qed simp

lemma op_all_or_released:
  assumes "target op = Some (m, u)"
  shows "wp True (op_script op) d (\<lambda>r d'. d' = d \<or> lease d' m = None)"
proof -
  obtain k where k: "op_script op = Call (ZREM keyLease m) k" using target_zrem [OF assms] by blast
  have keeps: "wp True (k v) d' (\<lambda>_ d'. lease d' m = None)" if "lease d' m = None" for v d'
    using wp_all_cmds [of not_leasing "k v" "\<lambda>d. lease d m = None" d'] not_leasing_cmd
      target_not_leasing [OF assms] k that by auto
  have "wp True (k v) d' (\<lambda>r e. e = d \<or> lease e m = None)" if "lease d' m = None" for v d'
    by (rule wp_mono [OF keeps [OF that]]) simp
  then show ?thesis by (auto simp: k)
qed

lemma untargeted_live:
  assumes "target op = None" "live d u"
  shows "wp True (op_script op) d (\<lambda>_ d'. live d' u)"
proof -
  have "op_wf op" using assms(1) by (simp add: op_wf_def)
  from op_live_reply [OF assms(2) this] show ?thesis
    by (rule wp_mono) (use assms(1) in \<open>auto simp: retires_def\<close>)
qed

text \<open>While a job is being closed: its URL is queued, or it was let go with its lease.\<close>

definition closed_or_live :: "Job \<Rightarrow> bool \<Rightarrow> url \<Rightarrow> keyspace \<Rightarrow> bool" where
  "closed_or_live j b u d \<longleftrightarrow> live d u \<or> u = URL j \<and> lease d (member j) = None \<and> (b \<or> parked d u)"

lemma closing_keeps:
  assumes "closing j b op" "after_bar (member j) = Some (URL j)" "closed_or_live j b u d"
  shows "wp True (op_script op) d (\<lambda>_ d'. closed_or_live j b u d')"
proof -
  have t: "target op = Some (member j, URL j)" "is_ack (URL j) op \<Longrightarrow> b"
    using assms(1) by (auto simp: closing_def)
  then have w: "op_wf op" using assms(2) by (simp add: op_wf_def)
  show ?thesis
  proof (cases "live d u")
    case True
    have "wp True (op_script op) d (\<lambda>r d'. (live d' u \<or> retires u (op, r) \<and> (is_ack u op \<or> parked d' u)) \<and>
        (d' = d \<or> lease d' (member j) = None))"
      by (rule wp_conjI [OF op_live_reply [OF True w] op_all_or_released [OF t(1)]])
    then show ?thesis
      by (rule wp_mono) (use t True in \<open>auto simp: closed_or_live_def retires_def\<close>)
  next
    case False
    then have "lease d (member j) = None" using assms(3) by (simp add: closed_or_live_def)
    from op_unleased [OF t(1) this] show ?thesis
      by (rule wp_mono) (use assms(3) in simp)
  qed
qed

context redis_server
begin

lemma via_keeps:
  assumes "via (server_trace call) P s s'" "I (data s)"
    "\<And>op d. P op \<Longrightarrow> I d \<Longrightarrow> wp True (op_script op) d (\<lambda>_ d'. I d')"
  shows "I (data s')"
proof -
  obtain tr where "server_trace call s tr s'" "\<forall>ev \<in> set tr. P (fst ev)" using assms(1) by (auto simp: via_def)
  then show ?thesis
    using assms(2)
  proof (induction rule: server_trace.induct)
    case (trace_step tr s1 op r s2)
    then show ?case using run_wp [OF assms(3)] by auto
  qed
qed

lemma via_live: "via (server_trace call) P s s' \<Longrightarrow> live (data s) u \<Longrightarrow> (\<And>op. P op \<Longrightarrow> target op = None) \<Longrightarrow> live (data s') u"
  by (rule via_keeps [where P = P and I = "\<lambda>d. live d u"]) (auto intro: untargeted_live)

end

text \<open>C9: A worker closes the job it leased and no other. However its calls fare, one turn is a sequence
  of script executions in which every completing operation names one and the same job, which that
  turn was handed by a lease, with the URL the job carries.\<close>

theorem worker_closes_its_own_job:
  assumes "worker_turn (NewFrontier call fcfg cl) net ups isLetter cfg lim t (f, w) = (ctl, f', w')"
  shows "\<exists>tr m. server_trace call (server w) tr (server w') \<and>
    (\<forall>ev \<in> set tr. target (fst ev) \<in> {None, Some (m, snd (splitMember m))}) \<and>
    ((\<forall>ev \<in> set tr. target (fst ev) = None) \<or> m \<in> set (handed tr))"
  using new_frontier.worker_turn_steps [OF assms]
proof (elim disjE exE conjE)
  assume "via (server_trace call) (\<lambda>op. \<exists>now x. op = OLease now x) (server w) (server w')"
  then show ?thesis by (force simp: via_def target_def)
next
  fix j s1 s2 b
  assume l: "fr_Lease (NewFrontier call fcfg cl) (lease_env (envs t)) (server w) = (Inr (Some j), s1)"
    and v: "via (server_trace call) admission s1 s2" "via (server_trace call) (closing j b) s2 (server w')"
  obtain tr where tr: "server_trace call (server w) tr s1" "\<forall>ev \<in> set tr. \<exists>now t. fst ev = OLease now t"
    "member j \<in> set (handed tr)" using new_frontier.lease_handed [OF l] by blast
  obtain tr1 tr2 where tr1: "server_trace call s1 tr1 s2" "\<forall>ev \<in> set tr1. admission (fst ev)"
    and tr2: "server_trace call s2 tr2 (server w')" "\<forall>ev \<in> set tr2. closing j b (fst ev)"
    using v by (auto simp: via_def)
  have "snd (splitMember (member j)) = URL j"
    using new_frontier.lease_wf [OF l] by (simp add: job_wf_def)
  then have "target (fst x) \<in> {None, Some (member j, snd (splitMember (member j)))}"
    if "x \<in> set (tr @ tr1 @ tr2)" for x
    using that tr(2) tr1(2) tr2(2) by (fastforce simp: target_def admission_def closing_def)
  moreover have "server_trace call (server w) (tr @ tr1 @ tr2) (server w')"
    using server_trace_append [OF server_trace_append [OF tr2(1) tr1(1)] tr(1)] .
  moreover have "member j \<in> set (handed (tr @ tr1 @ tr2))" using tr(3) by simp
  ultimately show ?thesis by blast
qed

lemma worker_closes_its_own_job_witness:
  "(\<exists>tr m. server_trace store_call sample_ready tr (server (snd (snd (sample_result found)))) \<and>
    (\<forall>ev \<in> set tr. target (fst ev) \<in> {None, Some (m, snd (splitMember m))}) \<and>
    ((\<forall>ev \<in> set tr. target (fst ev) = None) \<or> m \<in> set (handed tr))) \<and>
   ready (store_data (server (snd (snd (sample_result found))))) =
     [''3|https://www.vidlii.com/watch?v=b'', ''2|https://www.vidlii.com/videos'']"
proof
  show "ready (store_data (server (snd (snd (sample_result found))))) =
     [''3|https://www.vidlii.com/watch?v=b'', ''2|https://www.vidlii.com/videos'']"
    by code_simp
qed (use worker_closes_its_own_job [OF sample_result_split [of found]] in \<open>simp add: sample_world_def\<close>)

text \<open>C8: A worker never drops a page. Whatever fails in a turn, the fetch, Mongo, a call to the frontier or
  a script half way, a URL that was queued is still queued, or dead-listed, or scheduled for a later
  visit, unless the turn leased it and either it is excluded from the crawl or its video was stored
  in Mongo and counted.\<close>

theorem worker_keeps_pages:
  assumes "redis_server call data" "barred (data (server w))" "live (data (server w)) u"
    "worker_turn (NewFrontier call fcfg cl) net ups isLetter cfg lim t (f, w) = (ctl, f', w')"
  shows "live (data (server w')) u \<or> parked (data (server w')) u \<or>
    (\<exists>j s1. Lease call fcfg cl (lease_env (envs t)) (server w) = (Inr (Some j), s1) \<and> URL j = u \<and>
      (canonicalize net cfg u = [] \<or> (\<exists>v. vURL v = u \<and> video_stored ups v w w')))"
  using new_frontier.worker_turn_steps [OF assms(4)]
proof (elim disjE exE conjE)
  assume "via (server_trace call) (\<lambda>op. \<exists>now x. op = OLease now x) (server w) (server w')"
  then have "live (data (server w')) u"
    by (rule redis_server.via_live [OF assms(1) _ assms(3)]) (auto simp: target_def)
  then show ?thesis ..
next
  fix j s1 s2 b
  assume l: "fr_Lease (NewFrontier call fcfg cl) (lease_env (envs t)) (server w) = (Inr (Some j), s1)"
    and v: "via (server_trace call) admission s1 s2" "via (server_trace call) (closing j b) s2 (server w')"
    and b: "b \<longrightarrow> canonicalize net cfg (URL j) = [] \<or> (\<exists>v. vURL v = URL j \<and> video_stored ups v w w')"
  have "live (data s1) u"
    by (rule redis_server.via_live [OF assms(1) new_frontier.lease_via [OF l] assms(3)]) (auto simp: target_def)
  then have "live (data s2) u"
    by (rule redis_server.via_live [OF assms(1) v(1)]) (auto simp: target_def admission_def)
  moreover have "after_bar (member j) = Some (URL j)"
  proof -
    have "carries_url (member j)"
      using new_frontier.lease_handed [OF l] trace_handed_carries [OF assms(1) _ assms(2)] by blast
    then show ?thesis
      using new_frontier.lease_wf [OF l] splitMember_url [of "member j"]
      by (auto simp: job_wf_def carries_url_def url_of_def)
  qed
  ultimately have "closed_or_live j b u (data (server w'))"
    using redis_server.via_keeps [OF assms(1) v(2), of "closed_or_live j b u"] closing_keeps
    by (simp add: closed_or_live_def)
  moreover have "Lease call fcfg cl (lease_env (envs t)) (server w) = (Inr (Some j), s1)"
    using l by (simp add: NewFrontier_def)
  ultimately show ?thesis using b unfolding closed_or_live_def by blast
qed

lemma worker_keeps_pages_witness:
  "(let w' = snd (snd (sample_result found)) in
    live (store_data (server w')) sample_video \<or> parked (store_data (server w')) sample_video \<or>
    (\<exists>j s1. Lease store_call DefaultFrontierConfig None (lease_env (envs (sample_turn found)))
        (server (sample_world sample_ready)) = (Inr (Some j), s1) \<and> URL j = sample_video \<and>
      (canonicalize sample_net sample_cfg sample_video = [] \<or>
       (\<exists>v. vURL v = sample_video \<and> video_stored sample_upsert v (sample_world sample_ready) w')))) \<and>
   map vURL (mongo (snd (snd (sample_result found)))) = [sample_video]"
proof
  show "map vURL (mongo (snd (snd (sample_result found)))) = [sample_video]" by code_simp
  have w: "barred (store_data (server (sample_world sample_ready)))"
    "live (store_data (server (sample_world sample_ready))) sample_video"
    using sample_ready_healthy sample_ready_live by (simp_all add: sample_world_def healthy_def)
  show "let w' = snd (snd (sample_result found)) in
    live (store_data (server w')) sample_video \<or> parked (store_data (server w')) sample_video \<or>
    (\<exists>j s1. Lease store_call DefaultFrontierConfig None (lease_env (envs (sample_turn found)))
        (server (sample_world sample_ready)) = (Inr (Some j), s1) \<and> URL j = sample_video \<and>
      (canonicalize sample_net sample_cfg sample_video = [] \<or>
       (\<exists>v. vURL v = sample_video \<and> video_stored sample_upsert v (sample_world sample_ready) w')))"
    unfolding Let_def
    by (rule worker_keeps_pages [OF store.redis_server_axioms w sample_result_split])
qed

text \<open>C10: A worker gives its lease back. On a reliable server, in a turn whose completing call reached the
  server at least once, even if its reply was lost, the job that was leased has no lease afterwards,
  whatever the page answered, Mongo did, or the admissions of its links returned.\<close>

theorem worker_releases_lease:
  assumes "redis_reliable call data" "arrived (done_env (envs t))" "\<not> ctx_done t" "lim > 0 \<longrightarrow> vcount w < lim"
    "Lease call fcfg cl (lease_env (envs t)) (server w) = (Inr (Some j), s1)"
  shows "lease (data (server (snd (snd
    (worker_turn (NewFrontier call fcfg cl) net ups isLetter cfg lim t (f, w)))))) (member j) = None"
  using releasing_client.worker_turn_releases
    [OF redis_reliable.releasing_NewFrontier [OF assms(1)] assms(2-4), of fcfg cl j s1] assms(5)
  by (simp add: NewFrontier_def)

lemma worker_releases_lease_witness:
  "lease (store_data (server (snd (snd (sample_result None))))) ''1|https://www.vidlii.com/watch?v=a'' = None \<and>
   delayed (store_data (server (snd (snd (sample_result None))))) ''2|https://www.vidlii.com/watch?v=a'' = Some 162"
proof
  show "delayed (store_data (server (snd (snd (sample_result None))))) ''2|https://www.vidlii.com/watch?v=a'' = Some 162"
    by code_simp
  let ?x = "Lease store_call DefaultFrontierConfig None (call_at (100 * second)) sample_ready"
  let ?j = "job_of None ''1|https://www.vidlii.com/watch?v=a''"
  have "fst ?x = Inr (Some ?j)" by code_simp
  then have l: "Lease store_call DefaultFrontierConfig None (lease_env (envs (sample_turn None)))
      (server (sample_world sample_ready)) = (Inr (Some ?j), snd ?x)"
    by (simp add: sample_turn_def sample_world_def prod_eq_iff)
  have "arrived (done_env (envs (sample_turn None)))" "\<not> ctx_done (sample_turn None)"
    "(0::int) > 0 \<longrightarrow> vcount (sample_world sample_ready) < 0" "member ?j = ''1|https://www.vidlii.com/watch?v=a''"
    by code_simp+
  then show "lease (store_data (server (snd (snd (sample_result None))))) ''1|https://www.vidlii.com/watch?v=a'' = None"
    using worker_releases_lease [OF store.redis_reliable_axioms _ _ _ l, where lim = 0]
    unfolding sample_result_def by metis
qed

end
