(* ===== verification/Worker_Pages.thy ===== *)
theory Worker_Pages
  imports Worker_Correct
begin

text \<open>
  How a worker reads responses and when it gives up: the classification of \<open>process\<close>, the counters
  of \<open>workerFailures\<close>, the stop after five rate limits, and the deadline of a page that is gone.
\<close>

section \<open>Reading a response\<close>

lemma process_gone:
  "(kind (process isLetter cfg u cancelled f) = pageNotFound \<longleftrightarrow>
      (\<exists>resp. f = Some resp \<and> StatusCode resp \<in> {404, 410})) \<and>
   (kind (process isLetter cfg u cancelled f) = pageCancelled \<longrightarrow> cancelled)"
proof (cases "page_of f")
  case None
  then show ?thesis
    unfolding process_def page_of_def by (auto split: option.splits bind_splits)
next
  case (Some doc)
  then show ?thesis
    using process_page_of [OF Some, of isLetter cfg u cancelled] process_page_kinds [of isLetter cfg u doc]
    by (auto simp: page_of_def split: bind_splits if_splits)
qed

text \<open>A response is classified as the code documents. A page counts as gone exactly on 404 and 410;
  as rate limited exactly on 429, or 200 with a rate-limit title; as a video only on 200 for a video
  URL, with a title, a date and a nonnegative duration; as a listing only on 200 for another URL; as
  cancelled only under a cancelled context; and it is never left unknown.\<close>

theorem process_classifies:
  "kind (process isLetter cfg u cancelled f) \<noteq> pageUnknown \<and>
   (kind (process isLetter cfg u cancelled f) = pageNotFound \<longleftrightarrow>
      (\<exists>resp. f = Some resp \<and> StatusCode resp \<in> {404, 410})) \<and>
   (rate_limited (process isLetter cfg u cancelled f) \<longleftrightarrow>
      (\<exists>resp. f = Some resp \<and> StatusCode resp = 429) \<or>
      (\<exists>doc. page_of f = Some doc \<and> isRateLimitTitle (doc_title doc))) \<and>
   (kind (process isLetter cfg u cancelled f) = pageVideo \<longrightarrow> page_of f \<noteq> None \<and> str_contains u (VideoPattern cfg) \<and>
      (let v = video (process isLetter cfg u cancelled f) in vURL v = u \<and> 0 \<le> Duration v \<and> Date v \<noteq> [] \<and> TrimSpace (Title v) \<noteq> [])) \<and>
   (kind (process isLetter cfg u cancelled f) = pageListing \<longrightarrow> page_of f \<noteq> None \<and> \<not> str_contains u (VideoPattern cfg)) \<and>
   (kind (process isLetter cfg u cancelled f) = pageCancelled \<longrightarrow> cancelled)"
proof (cases "page_of f")
  case None
  then show ?thesis
    using process_no_page [OF None, of isLetter cfg u cancelled] process_gone [of isLetter cfg u cancelled f]
    by (simp, blast)
next
  case (Some doc)
  then show ?thesis
    using process_page_of [OF Some, of isLetter cfg u cancelled] process_page_kinds [of isLetter cfg u doc]
      process_page_rate_limited [of isLetter cfg u doc] process_page_video [of isLetter cfg u doc]
      process_page_listing [of isLetter cfg u doc] process_gone [of isLetter cfg u cancelled f]
    by (auto simp: page_of_def Let_def split: bind_splits if_splits)
qed

lemma process_classifies_witness:
  "kind (process (\<lambda>_. False) sample_cfg sample_video False found) = pageVideo \<and>
   (let v = video (process (\<lambda>_. False) sample_cfg sample_video False found) in
     vURL v = sample_video \<and> 0 \<le> Duration v \<and> Date v \<noteq> [] \<and> TrimSpace (Title v) \<noteq> [])"
proof
  show k: "kind (process (\<lambda>_. False) sample_cfg sample_video False found) = pageVideo" by code_simp
  then show "let v = video (process (\<lambda>_. False) sample_cfg sample_video False found) in
     vURL v = sample_video \<and> 0 \<le> Duration v \<and> Date v \<noteq> [] \<and> TrimSpace (Title v) \<noteq> []"
    using process_classifies [of "\<lambda>_. False" sample_cfg sample_video False found] by simp
qed

section \<open>Counting failures\<close>

definition succeeded :: "pageOutcome \<Rightarrow> bool" where
  "succeeded out \<longleftrightarrow> kind out \<in> {pageVideo, pageListing, pageNotFound}"

text \<open>The outcomes a worker observed, in order, without the cancelled ones.\<close>

definition observed :: "pageOutcome list \<Rightarrow> pageOutcome list" where
  "observed outs = filter (\<lambda>out. kind out \<noteq> pageCancelled) outs"

definition no_failures :: workerFailures where
  "no_failures = \<lparr>consecutive = 0, rateLimited = 0, consecutiveRateLimited = 0\<rparr>"

definition observe_all :: "pageOutcome list \<Rightarrow> workerFailures" where
  "observe_all outs = foldl (\<lambda>f out. fst (observe out f)) no_failures outs"

text \<open>The failure counters of a worker are what their names say. After any outcomes, cancelled ones
  aside, \<open>consecutive\<close> is the number of failures since the last success, \<open>rateLimited\<close> how many of
  them were rate limits, and \<open>consecutiveRateLimited\<close> the length of the final run of rate limits.\<close>

theorem observe_counts:
  "consecutive (observe_all outs) = int (length (takeWhile (\<lambda>out. \<not> succeeded out) (rev (observed outs)))) \<and>
   rateLimited (observe_all outs) =
     int (length (filter rate_limited (takeWhile (\<lambda>out. \<not> succeeded out) (rev (observed outs))))) \<and>
   consecutiveRateLimited (observe_all outs) = int (length (takeWhile rate_limited (rev (observed outs))))"
proof (induction outs rule: rev_induct)
  case (snoc out outs)
  have "observe_all (outs @ [out]) = fst (observe out (observe_all outs))"
    by (simp add: observe_all_def)
  with snoc show ?case
    by (cases "kind out") (auto simp: observe_def observed_def succeeded_def rate_limited_def Let_def)
qed (simp add: observe_all_def no_failures_def observed_def)

lemma worker_turn_rate:
  assumes "worker_turn F net ups isLetter cfg lim t (f, w) = (ctl, f', w')"
    "0 \<le> consecutiveRateLimited f" "consecutiveRateLimited f < workerRateLimitStop"
  shows "0 \<le> consecutiveRateLimited f' \<and> consecutiveRateLimited f' \<le> workerRateLimitStop \<and>
    (ctl = Continue \<longrightarrow> consecutiveRateLimited f' < workerRateLimitStop)"
proof -
  have o: "0 \<le> consecutiveRateLimited (fst (observe out f))"
    "consecutiveRateLimited (fst (observe out f)) \<le> workerRateLimitStop" for out
    using assms(2,3) by (cases "kind out"; auto simp: observe_def Let_def)+
  have "f' = f \<and> ctl \<in> {Continue, Return} \<or> (\<exists>out. f' = fst (observe out f) \<and>
      (ctl = Continue \<longrightarrow> consecutiveRateLimited f' < workerRateLimitStop))"
    using assms(1)
    by (auto simp: worker_turn_def Let_def split: prod.splits sum.splits option.splits if_splits)
  then show ?thesis using assms(2,3) o by auto
qed

text \<open>A worker that is rate limited five times in a row stops. However long the loop runs on whatever
  turns, its count of consecutive rate limits never exceeds five, so it makes no sixth request.\<close>

theorem rate_limit_stops_worker:
  assumes "0 \<le> consecutiveRateLimited f" "consecutiveRateLimited f < workerRateLimitStop"
  shows "consecutiveRateLimited (fst (workerLoop F net ups isLetter cfg lim ts (f, w))) \<le> workerRateLimitStop"
  using assms
proof (induction ts arbitrary: f w)
  case (Cons t ts)
  obtain ctl f' w' where t: "worker_turn F net ups isLetter cfg lim t (f, w) = (ctl, f', w')"
    by (metis prod.collapse)
  from worker_turn_rate [OF this Cons.prems] Cons.IH [of f' w'] t show ?case
    by (cases ctl) auto
qed simp

definition limited :: fetch where
  "limited = Some \<lparr>StatusCode = 429, Location = None, req_scheme = ''https'', req_host = ''www.vidlii.com'',
     body = None\<rparr>"

text \<open>A frontier that always hands out the same job.\<close>

definition endless :: "nat frontier_methods" where
  "endless = (NewFrontier (\<lambda>c s. (Inl [], s)) DefaultFrontierConfig None)
     \<lparr>fr_Lease := (\<lambda>e s. (Inr (Some (job_of None (''1|'' @ sample_video))), s + 1)),
      fr_Fail := (\<lambda>e j c s. (Inr Delayed, s))\<rparr>"

lemma rate_limit_stops_worker_witness:
  "consecutiveRateLimited (fst (workerLoop endless sample_net sample_upsert (\<lambda>_. False) sample_cfg 0
     (replicate 7 (sample_turn limited)) (no_failures,
       \<lparr>server = 0, mongo = [], vcount = 0, targets = [], halted = False, ResolveErrors = 0, LeaseErrors = 0\<rparr>))) \<le>
     workerRateLimitStop \<and>
   server (snd (workerLoop endless sample_net sample_upsert (\<lambda>_. False) sample_cfg 0
     (replicate 7 (sample_turn limited)) (no_failures,
       \<lparr>server = 0, mongo = [], vcount = 0, targets = [], halted = False, ResolveErrors = 0, LeaseErrors = 0\<rparr>))) = 5"
  by (rule conjI, rule rate_limit_stops_worker, code_simp, code_simp, code_simp)

section \<open>Pages that are gone\<close>

lemma untilFor_quarantine:
  assumes "now + QuarantineListing c \<noteq> zero_time"
  shows "unixOrZero (untilFor class (QuarantineListing c) now) = quarantineUntil c class now"
  using assms by (simp add: untilFor_def unixOrZero_def quarantineUntil_def)

text \<open>A page that is gone and a page that struck out are quarantined alike. For a page that answered 404
  or 410 the worker executes the Terminal script with the expiry that Fail would write at that time:
  none for a video, now plus the configured quarantine for a listing or a seed.\<close>

theorem gone_like_struck_out:
  assumes "kind out = pageNotFound" "wall t + QuarantineListing (frontierConfig cfg) \<noteq> zero_time"
  shows "handleOutcome (NewFrontier call (frontierConfig cfg) cl) net ups cfg t j out w =
    (False, resolve (\<lambda>s. on_reply stale_check (rpc call (done_env t) (luaTerminal (member j) (URL j) (reason out)
       (quarantineUntil (frontierConfig cfg) (Class j) (wall t))) s)) w)"
proof -
  have "QuarantineListing (frontierConfig cfg) = wrap64 (QuarantineListingHours cfg * hour)"
    by (simp add: frontierConfig_def)
  with untilFor_quarantine [OF assms(2), of "Class j"] assms(1) show ?thesis
    by (simp add: handleOutcome_def NewFrontier_def Terminal_def [abs_def] Let_def)
qed

lemma gone_like_struck_out_witness:
  "let out = (outcome pageNotFound)\<lparr>reason := ''404''\<rparr>; t = envs (sample_turn None); w = sample_world listing_leased in
   handleOutcome (NewFrontier store_call (frontierConfig sample_cfg) None) sample_net sample_upsert sample_cfg t the_job out w =
     (False, resolve (\<lambda>s. on_reply stale_check (rpc store_call (done_env t) (luaTerminal (member the_job) (URL the_job)
       (reason out) (quarantineUntil (frontierConfig sample_cfg) (Class the_job) (wall t))) s)) w) \<and>
   quarantineUntil (frontierConfig sample_cfg) (Class the_job) (wall t) = 604902"
proof -
  have 1: "wall (envs (sample_turn None)) + QuarantineListing (frontierConfig sample_cfg) \<noteq> zero_time"
    "quarantineUntil (frontierConfig sample_cfg) (Class the_job) (wall (envs (sample_turn None))) = 604902"
    by code_simp+
  have "kind ((outcome pageNotFound)\<lparr>reason := ''404''\<rparr>) = pageNotFound" by simp
  from gone_like_struck_out [OF this 1(1)] 1(2) show ?thesis unfolding Let_def by blast
qed

end
