(* ===== verification/Crawl_State.thy ===== *)
theory Crawl_State
  imports Frontier_Reconcile Net_URL
begin

text \<open>
  The checkpoint rows of \<open>src/internal/storage/crawl_state.go\<close>: the record saved to Mongo for each
  URL, its validation, the strict decoding of a stored document, the reading of rows from Redis, and
  the identity check against the Redis process. Transactions (MULTI/EXEC) run all their commands,
  also after one of them failed, and answer with the list of replies.
\<close>

section \<open>Rows\<close>

definition crawlStateBatchSize :: nat where "crawlStateBatchSize = 100"
definition keyCrawlStateRestore :: key where "keyCrawlStateRestore = ''crawler:state:restore:v1''"

record mongoDeadRecord =
  Reason :: string
  Until :: int

record mongoCrawlRecord =
  rowURL :: url
  Schema :: int
  NextDue :: "int option"
  Barren :: int
  Quarantine :: "mongoDeadRecord option"

abbreviation crawl_error :: "string \<Rightarrow> go_error" where
  "crawl_error m \<equiv> OtherErr (''crawl state: '' @ m)"

definition url_ok :: "net_url \<Rightarrow> url \<Rightarrow> bool" where
  "url_ok net u = (case url_Parse net u of
     None \<Rightarrow> False
   | Some p \<Rightarrow> \<not> (url_Hostname net p = [] \<or> Scheme p \<noteq> ''http'' \<and> Scheme p \<noteq> ''https'' \<or> HasUser p \<or>
       Fragment p \<noteq> [] \<or> contains_any u [CHR ''|'', CHR 0x0D, CHR 0x0A, CHR 0x09, CHR '' '']))"

definition validate :: "net_url \<Rightarrow> mongoCrawlRecord \<Rightarrow> go_error option" where
  "validate net row =
     (if \<not> url_ok net (rowURL row) then Some (crawl_error ''invalid canonical URL'')
      else if Schema row \<noteq> 1 \<or> Barren row < 0 then Some (crawl_error ''invalid schema or barren counter'')
      else if (case NextDue row of None \<Rightarrow> False | Some n \<Rightarrow> n < 0 \<or> n > PendingScore)
        then Some (crawl_error ''invalid next_due'')
      else if (case Quarantine row of None \<Rightarrow> False
               | Some q \<Rightarrow> Reason q = [] \<or> contains_any (Reason q) [CHR ''|'', CHR 0x0D, CHR 0x0A] \<or>
                   Until q < 0 \<or> Until q \<ge> PendingScore)
        then Some (crawl_error ''invalid dead reason or expiry'')
      else None)"

section \<open>Documents\<close>

text \<open>A BSON document as its fields in order; \<open>None\<close> when its bytes do not split into fields.\<close>

datatype bson =
    BString string
  | BInt32 int
  | BInt64 int
  | BNull
  | BDoc "(string \<times> bson) list option"
  | BOther

type_synonym raw = "(string \<times> bson) list option"

text \<open>The fields a struct is written with, by its bson tags.\<close>

definition encode_row :: "mongoCrawlRecord \<Rightarrow> (string \<times> bson) list" where
  "encode_row row =
     [(''_id'', BString (rowURL row)), (''schema'', BInt32 (Schema row)),
      (''next_due'', (case NextDue row of None \<Rightarrow> BNull | Some n \<Rightarrow> BInt64 n)),
      (''barren'', BInt64 (Barren row)),
      (''dead'', (case Quarantine row of None \<Rightarrow> BNull
         | Some q \<Rightarrow> BDoc (Some [(''reason'', BString (Reason q)), (''until'', BInt64 (Until q))])))]"

fun take_fields :: "string list \<Rightarrow> string list \<Rightarrow> bool" where
  "take_fields remaining [] \<longleftrightarrow> True"
| "take_fields remaining (k # ks) \<longleftrightarrow> k \<in> set remaining \<and> take_fields (filter (\<lambda>x. x \<noteq> k) remaining) ks"

definition validateMongoFields :: "raw \<Rightarrow> string list \<Rightarrow> go_error option" where
  "validateMongoFields raw names = (case raw of
     None \<Rightarrow> Some (crawl_error ''invalid BSON document'')
   | Some elements \<Rightarrow>
       if length elements \<noteq> length names then Some (crawl_error ''missing or extra checkpoint fields'')
       else if \<not> take_fields names (map fst elements) then Some (crawl_error ''duplicate or unknown checkpoint field'')
       else None)"

text \<open>\<open>raw.Lookup\<close>: the first field of that name.\<close>

definition Lookup :: "raw \<Rightarrow> string \<Rightarrow> bson option" where
  "Lookup raw name = Option.bind raw (\<lambda>es. map_of es name)"

definition dead_doc :: "raw \<Rightarrow> go_error + mongoDeadRecord" where
  "dead_doc doc =
     (case validateMongoFields doc [''reason'', ''until''] of
        Some err \<Rightarrow> Inl err
      | None \<Rightarrow> (case (Lookup doc ''reason'', Lookup doc ''until'') of
          (Some (BString r), Some (BInt64 t)) \<Rightarrow> Inr \<lparr>Reason = r, Until = t\<rparr>
        | _ \<Rightarrow> Inl (crawl_error ''invalid BSON dead fields'')))"

text \<open>The two fields that may be null.\<close>

definition next_due_of :: "bson option \<Rightarrow> go_error + int option" where
  "next_due_of v = (case v of
     Some BNull \<Rightarrow> Inr None
   | Some (BInt64 n) \<Rightarrow> Inr (Some n)
   | _ \<Rightarrow> Inl (crawl_error ''next_due must be BSON int64 or null''))"

definition dead_of :: "bson option \<Rightarrow> go_error + mongoDeadRecord option" where
  "dead_of v = (case v of
     Some BNull \<Rightarrow> Inr None
   | Some (BDoc doc) \<Rightarrow> (case dead_doc doc of Inl err \<Rightarrow> Inl err | Inr q \<Rightarrow> Inr (Some q))
   | _ \<Rightarrow> Inl (crawl_error ''dead must be a document or null''))"

definition decodeMongoCrawlRecord :: "net_url \<Rightarrow> raw \<Rightarrow> go_error + mongoCrawlRecord" where
  "decodeMongoCrawlRecord net raw =
     (case validateMongoFields raw [''_id'', ''schema'', ''next_due'', ''barren'', ''dead''] of
        Some err \<Rightarrow> Inl err
      | None \<Rightarrow> (case (Lookup raw ''_id'', Lookup raw ''schema'', Lookup raw ''barren'') of
          (Some (BString u), Some (BInt32 sch), Some (BInt64 b)) \<Rightarrow>
            (case next_due_of (Lookup raw ''next_due'') of
               Inl err \<Rightarrow> Inl err
             | Inr next \<Rightarrow> (case dead_of (Lookup raw ''dead'') of
                 Inl err \<Rightarrow> Inl err
               | Inr q \<Rightarrow>
                   (let row = \<lparr>rowURL = u, Schema = sch, NextDue = next, Barren = b, Quarantine = q\<rparr>
                    in case validate net row of Some err \<Rightarrow> Inl err | None \<Rightarrow> Inr row)))
        | _ \<Rightarrow> Inl (crawl_error ''invalid BSON URL/schema/barren type'')))"

section \<open>Transactions\<close>

primrec tx_run :: "'s server \<Rightarrow> cmd list \<Rightarrow> 's \<Rightarrow> (string + reply) list \<times> 's" where
  "tx_run call [] s = ([], s)"
| "tx_run call (c # cs) s =
     (let (r, s1) = call c s; (rs, s2) = tx_run call cs s1 in (r # rs, s2))"

text \<open>\<open>Exec\<close>: the client may lose replies and send the transaction again, as for a script.\<close>

definition tx_exec :: "'s server \<Rightarrow> call_env \<Rightarrow> cmd list \<Rightarrow> 's \<Rightarrow> (go_error + (string + reply) list) \<times> 's" where
  "tx_exec call e cmds s =
     (let s1 = ((\<lambda>x. snd (tx_run call cmds x)) ^^ lost e) s
      in case fate e of
           Some err \<Rightarrow> (Inl err, s1)
         | None \<Rightarrow> (case tx_run call cmds s1 of (rs, s2) \<Rightarrow> (Inr rs, s2)))"

text \<open>The replies, or the first command error.\<close>

fun replies :: "(string + reply) list \<Rightarrow> go_error + reply list" where
  "replies [] = Inr []"
| "replies (Inl msg # rs) = Inl (RedisErr msg)"
| "replies (Inr v # rs) = (case replies rs of Inl err \<Rightarrow> Inl err | Inr vs \<Rightarrow> Inr (v # vs))"

section \<open>The Redis process\<close>

text \<open>
  One interaction with the outside: whether the context is already cancelled, what INFO answers, and
  how the call fares. A method consumes them in order (\<open>step\<close> counts) from an observed run.
\<close>

record step_env =
  ctx_err :: "go_error option"
  info :: "go_error + string"
  wire :: call_env

record 's session =
  srv :: 's
  step :: nat

record CrawlStateStore =
  redisRunID :: string
  startupComplete :: bool
  mongoSource :: string

fun find_run_id :: "string list \<Rightarrow> string option" where
  "find_run_id [] = None"
| "find_run_id (line # lines) =
     (let l = TrimSpace line
      in if prefix ''run_id:'' l \<and> drop 7 l \<noteq> [] then Some (drop 7 l) else find_run_id lines)"

definition redisIdentity :: "go_error + string \<Rightarrow> go_error + string" where
  "redisIdentity r = (case r of
     Inl err \<Rightarrow> Inl err
   | Inr text \<Rightarrow> (case find_run_id (split_on (CHR 0x0A) text) of
       Some v \<Rightarrow> Inr v
     | None \<Rightarrow> Inl (crawl_error ''Redis run_id is missing'')))"

definition checkIdentity :: "(nat \<Rightarrow> step_env) \<Rightarrow> CrawlStateStore \<Rightarrow> 's session \<Rightarrow> go_error option \<times> 's session" where
  "checkIdentity E st x =
     (let e = E (step x); x' = x\<lparr>step := step x + 1\<rparr>
      in (case ctx_err e of
            Some err \<Rightarrow> Some err
          | None \<Rightarrow> (case redisIdentity (info e) of
              Inl err \<Rightarrow> Some err
            | Inr rid \<Rightarrow> if rid \<noteq> redisRunID st then Some (crawl_error ''Redis process changed'') else None), x'))"

definition NewCrawlStateStore :: "go_error + string \<Rightarrow> string \<Rightarrow> go_error + CrawlStateStore" where
  "NewCrawlStateStore r source = (case redisIdentity r of
     Inl err \<Rightarrow> Inl err
   | Inr rid \<Rightarrow> Inr \<lparr>redisRunID = rid, startupComplete = False, mongoSource = source\<rparr>)"

definition transact :: "'s server \<Rightarrow> (nat \<Rightarrow> step_env) \<Rightarrow> cmd list \<Rightarrow> 's session \<Rightarrow> (go_error + reply list) \<times> 's session" where
  "transact call E cmds x =
     (case tx_exec call (wire (E (step x))) cmds (srv x) of
        (Inl err, s) \<Rightarrow> (Inl err, x\<lparr>srv := s, step := step x + 1\<rparr>)
      | (Inr rs, s) \<Rightarrow> (replies rs, x\<lparr>srv := s, step := step x + 1\<rparr>))"

section \<open>Reading rows from Redis\<close>

definition tuple_cmds :: "url \<Rightarrow> cmd list" where
  "tuple_cmds u = [ZSCORE keyListingNext u, HGET keyListingBarren u, HGET keyDead u]"

definition read_next :: "reply \<Rightarrow> go_error + int option" where
  "read_next r = (case r of
     RStr v \<Rightarrow> (case parse_int v of
       None \<Rightarrow> Inl (crawl_error ''invalid listing score'')
     | Some n \<Rightarrow> if n < 0 \<or> n > PendingScore then Inl (crawl_error ''invalid listing score'') else Inr (Some n))
   | _ \<Rightarrow> Inr None)"

definition read_barren :: "reply \<Rightarrow> go_error + int" where
  "read_barren r = (case r of
     RStr v \<Rightarrow> (case atoi v of
       None \<Rightarrow> Inl (crawl_error ''invalid barren counter'')
     | Some n \<Rightarrow> if n < 0 then Inl (crawl_error ''invalid barren counter'') else Inr n)
   | _ \<Rightarrow> Inr 0)"

definition read_dead :: "reply \<Rightarrow> go_error + mongoDeadRecord option" where
  "read_dead r = (case r of
     RStr v \<Rightarrow> (case cut CHR ''|'' v of
       None \<Rightarrow> Inl (crawl_error ''malformed dead entry'')
     | Some (rsn, t) \<Rightarrow> (case atoi t of
         None \<Rightarrow> Inl (crawl_error ''malformed dead entry'')
       | Some n \<Rightarrow> Inr (Some \<lparr>Reason = rsn, Until = n\<rparr>)))
   | _ \<Rightarrow> Inr None)"

definition read_row :: "net_url \<Rightarrow> url \<Rightarrow> reply \<Rightarrow> reply \<Rightarrow> reply \<Rightarrow> go_error + mongoCrawlRecord" where
  "read_row net u a b c =
     (case read_next a of Inl err \<Rightarrow> Inl err | Inr next \<Rightarrow>
     (case read_barren b of Inl err \<Rightarrow> Inl err | Inr n \<Rightarrow>
     (case read_dead c of Inl err \<Rightarrow> Inl err | Inr q \<Rightarrow>
       (let row = \<lparr>rowURL = u, Schema = 1, NextDue = next, Barren = n, Quarantine = q\<rparr>
        in case validate net row of Some err \<Rightarrow> Inl err | None \<Rightarrow> Inr row))))"

fun read_rows :: "net_url \<Rightarrow> url list \<Rightarrow> reply list \<Rightarrow> go_error + mongoCrawlRecord list" where
  "read_rows net (u # us) (a # b # c # rs) =
     (case read_row net u a b c of
        Inl err \<Rightarrow> Inl err
      | Inr row \<Rightarrow> (case read_rows net us rs of Inl err \<Rightarrow> Inl err | Inr rows \<Rightarrow> Inr (row # rows)))"
| "read_rows net _ _ = Inr []"

definition readRedisCrawlRecords :: "'s server \<Rightarrow> net_url \<Rightarrow> (nat \<Rightarrow> step_env) \<Rightarrow> CrawlStateStore \<Rightarrow> url list \<Rightarrow>
    's session \<Rightarrow> (go_error + mongoCrawlRecord list) \<times> 's session" where
  "readRedisCrawlRecords call net E st urls x =
     (case checkIdentity E st x of
        (Some err, x1) \<Rightarrow> (Inl err, x1)
      | (None, x1) \<Rightarrow> (case transact call E (concat (map tuple_cmds urls)) x1 of
          (Inl err, x2) \<Rightarrow> (Inl err, x2)
        | (Inr rs, x2) \<Rightarrow> (case checkIdentity E st x2 of
            (Some err, x3) \<Rightarrow> (Inl err, x3)
          | (None, x3) \<Rightarrow> (read_rows net urls rs, x3))))"

end
