(* ===== verification/Json_Marker.thy ===== *)
theory Json_Marker
  imports Go_Strings
begin

text \<open>
  The restore marker of \<open>src/internal/storage/crawl_state_restore.go\<close> as JSON text: what
  \<open>json.Marshal\<close> writes for it, and what \<open>json.Decoder\<close> with \<open>DisallowUnknownFields\<close> accepts as one,
  followed by nothing. Text is read as runes, and so are the strings in it; every kind of decoding
  error is \<open>None\<close>.
\<close>

record restoreMarker =
  mSchema :: int
  Phase :: "int list"
  Source :: "int list"

definition quoted :: "string \<Rightarrow> string" where
  "quoted s = CHR 0x22 # s @ [CHR 0x22]"

text \<open>Names that are written as they are: printable ASCII without the characters JSON escapes.\<close>

definition plain :: "string \<Rightarrow> bool" where
  "plain s \<longleftrightarrow> (\<forall>c \<in> set s. 32 \<le> byte c \<and> byte c < 127 \<and> byte c \<notin> {0x22, 0x26, 0x3C, 0x3E, 0x5C})"

definition marshal_marker :: "string \<Rightarrow> string \<Rightarrow> string" where
  "marshal_marker phase source =
     CHR ''{'' # quoted ''schema'' @ '':1,'' @ quoted ''phase'' @ '':'' @ quoted phase @ '','' @
       quoted ''source'' @ '':'' @ quoted source @ ''}''"

section \<open>Decoding\<close>

definition skip_ws :: "int list \<Rightarrow> int list" where
  "skip_ws = dropWhile (\<lambda>c. c \<in> {0x20, 0x09, 0x0A, 0x0D})"

text \<open>The rest after one expected rune.\<close>

fun eat :: "int \<Rightarrow> int list \<Rightarrow> int list option" where
  "eat r (c # cs) = (if c = r then Some cs else None)"
| "eat r [] = None"

definition hex_digit :: "int \<Rightarrow> int option" where
  "hex_digit c = (if 48 \<le> c \<and> c \<le> 57 then Some (c - 48) else if 97 \<le> c \<and> c \<le> 102 then Some (c - 87)
     else if 65 \<le> c \<and> c \<le> 70 then Some (c - 55) else None)"

fun hex4 :: "int list \<Rightarrow> int option" where
  "hex4 (a # b # c # d # _) =
     Option.bind (hex_digit a) (\<lambda>a. Option.bind (hex_digit b) (\<lambda>b. Option.bind (hex_digit c) (\<lambda>c.
       map_option (\<lambda>d. a * 4096 + b * 256 + c * 16 + d) (hex_digit d))))"
| "hex4 _ = None"

text \<open>The second half of a surrogate pair, if an escape follows with one.\<close>

definition low_half :: "int \<Rightarrow> int list \<Rightarrow> int option" where
  "low_half hi rest =
     (if hi < 0xDC00 \<and> take 2 rest = [0x5C, 0x75] then
        (case hex4 (drop 2 rest) of
           Some lo \<Rightarrow> if 0xDC00 \<le> lo \<and> lo \<le> 0xDFFF then Some (0x10000 + (hi - 0xD800) * 1024 + (lo - 0xDC00)) else None
         | None \<Rightarrow> None)
      else None)"

definition simple_escape :: "int \<Rightarrow> int option" where
  "simple_escape c = (if c \<in> {0x22, 0x5C, 0x2F} then Some c
     else map_of [(0x62, 8), (0x66, 12), (0x6E, 10), (0x72, 13), (0x74, 9)] c)"

text \<open>The rest of a string after its opening quote: its runes and what follows it. Each step uses one
  unit of fuel and at least one rune.\<close>

fun json_str :: "nat \<Rightarrow> int list \<Rightarrow> (int list \<times> int list) option" where
  "json_str 0 cs = None"
| "json_str (Suc k) input = (case input of [] \<Rightarrow> None | c # cs \<Rightarrow>
     (if c = 0x22 then Some ([], cs)
      else if c < 32 then None
      else if c \<noteq> 0x5C then map_option (\<lambda>(s, r). (c # s, r)) (json_str k cs)
      else (case cs of
        [] \<Rightarrow> None
      | e # rest \<Rightarrow>
          if e = 0x75 then
            (case hex4 rest of
               None \<Rightarrow> None
             | Some h \<Rightarrow>
                 if 0xD800 \<le> h \<and> h \<le> 0xDFFF then
                   (case low_half h (drop 4 rest) of
                      Some r \<Rightarrow> map_option (\<lambda>(s, t). (r # s, t)) (json_str k (drop 10 rest))
                    | None \<Rightarrow> map_option (\<lambda>(s, t). (runeError # s, t)) (json_str k (drop 4 rest)))
                 else map_option (\<lambda>(s, t). (h # s, t)) (json_str k (drop 4 rest)))
          else (case simple_escape e of
                  None \<Rightarrow> None
                | Some r \<Rightarrow> map_option (\<lambda>(s, t). (r # s, t)) (json_str k rest)))))"

declare json_str.simps(2) [simp del]

lemmas json_str_Nil [simp] = json_str.simps(2) [where input = "[]", unfolded list.case]
lemmas json_str_Cons [simp] = json_str.simps(2) [where input = "c # cs", unfolded list.case] for c cs

text \<open>A value that is an integer of 64 bits: no fraction, no exponent, no leading zero.\<close>

definition number_rune :: "int \<Rightarrow> bool" where
  "number_rune c \<longleftrightarrow> 48 \<le> c \<and> c \<le> 57 \<or> c \<in> {0x2D, 0x2B, 0x2E, 0x65, 0x45}"

fun digits_int :: "int \<Rightarrow> int list \<Rightarrow> int option" where
  "digits_int acc [] = Some acc"
| "digits_int acc (c # cs) = (if 48 \<le> c \<and> c \<le> 57 then digits_int (10 * acc + (c - 48)) cs else None)"

definition json_nat :: "int list \<Rightarrow> int option" where
  "json_nat ds = (if ds = [] \<or> hd ds = 48 \<and> ds \<noteq> [48] then None else digits_int 0 ds)"

definition json_int :: "int list \<Rightarrow> int option" where
  "json_int tok = (case (case eat 0x2D tok of Some ds \<Rightarrow> map_option uminus (json_nat ds) | None \<Rightarrow> json_nat tok) of
     Some i \<Rightarrow> if in_int64 i then Some i else None
   | None \<Rightarrow> None)"

text \<open>Keys match a field up to case.\<close>

definition key_is :: "int list \<Rightarrow> string \<Rightarrow> bool" where
  "key_is k name \<longleftrightarrow> map fold_rune k = map fold_rune (map byte name)"

definition set_field :: "int list \<Rightarrow> int list \<Rightarrow> restoreMarker \<Rightarrow> (restoreMarker \<times> int list) option" where
  "set_field k cs m =
     (if \<not> (key_is k ''schema'' \<or> key_is k ''phase'' \<or> key_is k ''source'') then None
      else if take 4 cs = map byte ''null'' then Some (m, drop 4 cs)
      else if key_is k ''schema'' then
        map_option (\<lambda>i. (m\<lparr>mSchema := i\<rparr>, dropWhile number_rune cs)) (json_int (takeWhile number_rune cs))
      else (case eat 0x22 cs of
          Some rest \<Rightarrow> map_option (\<lambda>(s, r). (if key_is k ''phase'' then m\<lparr>Phase := s\<rparr> else m\<lparr>Source := s\<rparr>, r))
            (json_str (length rest) rest)
        | None \<Rightarrow> None))"

text \<open>The members of an object after its opening brace or a comma; each uses one unit of fuel.\<close>

fun json_members :: "nat \<Rightarrow> int list \<Rightarrow> restoreMarker \<Rightarrow> (restoreMarker \<times> int list) option" where
  "json_members 0 cs m = None"
| "json_members (Suc k) cs m =
     Option.bind (eat 0x22 (skip_ws cs)) (\<lambda>rest.
     Option.bind (json_str (length rest) rest) (\<lambda>(key, r1).
     Option.bind (eat 0x3A (skip_ws r1)) (\<lambda>r2.
     Option.bind (set_field key (skip_ws r2) m) (\<lambda>(m', r3).
       (case eat 0x2C (skip_ws r3) of
          Some r4 \<Rightarrow> json_members k r4 m'
        | None \<Rightarrow> map_option (\<lambda>r4. (m', r4)) (eat 0x7D (skip_ws r3)))))))"

definition zero_marker :: restoreMarker where
  "zero_marker = \<lparr>mSchema = 0, Phase = [], Source = []\<rparr>"

definition json_value :: "int list \<Rightarrow> (restoreMarker \<times> int list) option" where
  "json_value cs = (case eat 0x7B (skip_ws cs) of
     Some rest \<Rightarrow> (case eat 0x7D (skip_ws rest) of
         Some r \<Rightarrow> Some (zero_marker, r)
       | None \<Rightarrow> json_members (length rest) rest zero_marker)
   | None \<Rightarrow> if take 4 (skip_ws cs) = map byte ''null'' then Some (zero_marker, drop 4 (skip_ws cs)) else None)"

definition decode_marker :: "string \<Rightarrow> restoreMarker option" where
  "decode_marker text = (case json_value (runes_of text) of
     Some (m, rest) \<Rightarrow> if skip_ws rest = [] then Some m else None
   | None \<Rightarrow> None)"

section \<open>Reading what was written\<close>

lemma runes_ascii: "\<forall>c \<in> set s. byte c < 128 \<Longrightarrow> runes_of s = map byte s"
  by (induction s) (simp_all add: runes_of_def del: decode_rune.simps)

lemma json_str_plain:
  "plain s \<Longrightarrow> length s < k \<Longrightarrow> json_str k (map byte s @ 0x22 # rest) = Some (map byte s, rest)"
proof (induction s arbitrary: k)
  case Nil
  then show ?case by (cases k) simp_all
next
  case (Cons c s)
  then obtain k' where "k = Suc k'" "length s < k'" by (cases k) auto
  with Cons show ?case by (auto simp: plain_def)
qed

lemma skip_ws_start [simp]: "c \<notin> {0x20, 0x09, 0x0A, 0x0D} \<Longrightarrow> skip_ws (c # cs) = c # cs"
  by (simp add: skip_ws_def)

lemma skip_ws_Nil [simp]: "skip_ws [] = []"
  by (simp add: skip_ws_def)

lemma plain_keys: "plain ''schema''" "plain ''phase''" "plain ''source''"
  by (simp_all add: plain_def byte_def)

definition marker_text :: "int list \<Rightarrow> int list \<Rightarrow> int list" where
  "marker_text phase source = 0x7B # 0x22 # map byte ''schema'' @ 0x22 # 0x3A # 0x31 # 0x2C #
     0x22 # map byte ''phase'' @ 0x22 # 0x3A # 0x22 # phase @ 0x22 # 0x2C #
     0x22 # map byte ''source'' @ 0x22 # 0x3A # 0x22 # source @ 0x22 # [0x7D]"

lemma marshal_text: "map byte (marshal_marker phase source) = marker_text (map byte phase) (map byte source)"
  by (simp add: marshal_marker_def marker_text_def quoted_def byte_def)

lemma member_schema:
  "json_members (Suc k) (0x22 # map byte ''schema'' @ 0x22 # 0x3A # 0x31 # 0x2C # rest) m =
     json_members k rest (m\<lparr>mSchema := 1\<rparr>)"
  using json_str_plain [OF plain_keys(1), of _ "0x3A # 0x31 # 0x2C # rest"]
  by (simp add: set_field_def key_is_def number_rune_def json_int_def json_nat_def in_int64_def byte_def fold_rune_def)

lemma member_phase:
  assumes "plain p"
  shows "json_members (Suc k) (0x22 # map byte ''phase'' @ 0x22 # 0x3A # 0x22 # map byte p @ 0x22 # 0x2C # rest) m =
     json_members k rest (m\<lparr>Phase := map byte p\<rparr>)"
  using json_str_plain [OF plain_keys(2), of _ "0x3A # 0x22 # map byte p @ 0x22 # 0x2C # rest"]
    json_str_plain [OF assms, of _ "0x2C # rest"]
  by (simp add: set_field_def key_is_def byte_def fold_rune_def)

lemma member_source:
  assumes "plain p"
  shows "json_members (Suc k) (0x22 # map byte ''source'' @ 0x22 # 0x3A # 0x22 # map byte p @ 0x22 # 0x7D # rest) m =
     Some (m\<lparr>Source := map byte p\<rparr>, rest)"
  using json_str_plain [OF plain_keys(3), of _ "0x3A # 0x22 # map byte p @ 0x22 # 0x7D # rest"]
    json_str_plain [OF assms, of _ "0x7D # rest"]
  by (simp add: set_field_def key_is_def byte_def fold_rune_def)

lemmas members = member_schema [unfolded list.map append.simps]

lemma marshal_ascii: "plain phase \<Longrightarrow> plain source \<Longrightarrow> c \<in> set (marshal_marker phase source) \<Longrightarrow> byte c < 128"
  by (auto simp: marshal_marker_def quoted_def plain_def byte_def)

lemma decode_marshal:
  assumes "plain phase" "plain source"
  shows "decode_marker (marshal_marker phase source) = Some \<lparr>mSchema = 1, Phase = map byte phase, Source = map byte source\<rparr>"
proof -
  have "runes_of (marshal_marker phase source) = marker_text (map byte phase) (map byte source)"
    using runes_ascii marshal_ascii [OF assms] marshal_text by metis
  moreover have "json_value (marker_text (map byte phase) (map byte source)) =
      Some (\<lparr>mSchema = 1, Phase = map byte phase, Source = map byte source\<rparr>, [])"
    unfolding json_value_def marker_text_def
    by (simp add: members member_phase [OF assms(1), unfolded list.map append.simps]
        member_source [OF assms(2), unfolded list.map append.simps] zero_marker_def del: json_members.simps)
  ultimately show ?thesis by (simp add: decode_marker_def)
qed

end
