(* ===== verification/Crawl_Restore.thy ===== *)
theory Crawl_Restore
  imports Crawl_State Json_Marker
begin

text \<open>
  Restoring the crawl state at startup, \<open>src/internal/storage/crawl_state_restore.go\<close>: the marker kept
  in Redis while a restore is under way, what the startup inspects, the batches, and \<open>Restore\<close> over
  the documents a Mongo cursor yields.
\<close>

section \<open>The startup state\<close>

record restoreState =
  listingCount :: int
  barrenCount :: int
  deadCount :: int
  workCount :: int
  marker :: "restoreMarker option"

record RestoreStats =
  Mode :: string
  Rows :: int

definition encodeRestoreMarker :: "CrawlStateStore \<Rightarrow> string \<Rightarrow> string" where
  "encodeRestoreMarker st phase = marshal_marker phase (mongoSource st)"

definition startup_cmds :: "cmd list" where
  "startup_cmds =
     [ZCARD keyListingNext, HLEN keyListingBarren, HLEN keyDead,
      LLEN keyReady, LLEN keyProcessing, ZCARD keyDelayed, ZCARD keyLease, HLEN keyAttempts, HLEN keyStrikes,
      GET keyCrawlStateRestore]"

fun int_val :: "reply \<Rightarrow> int" where
  "int_val (RInt n) = n"
| "int_val _ = 0"

definition saved_marker :: "CrawlStateStore \<Rightarrow> reply \<Rightarrow> go_error + restoreMarker option" where
  "saved_marker st r = (case r of
     RStr v \<Rightarrow> (case decode_marker v of
       None \<Rightarrow> Inl (crawl_error ''invalid restore marker'')
     | Some m \<Rightarrow>
         if mSchema m \<noteq> 1 \<or> Phase m \<noteq> map byte ''restoring'' \<and> Phase m \<noteq> map byte ''complete'' \<or>
            Source m \<noteq> runes_of (mongoSource st)
         then Inl (crawl_error ''restore marker schema, phase, or source mismatch'')
         else Inr (Some m))
   | _ \<Rightarrow> Inr None)"

definition startup_state :: "CrawlStateStore \<Rightarrow> reply list \<Rightarrow> go_error + restoreState" where
  "startup_state st rs =
     (case saved_marker st (rs ! 9) of
        Inl err \<Rightarrow> Inl err
      | Inr m \<Rightarrow> Inr \<lparr>listingCount = int_val (rs ! 0), barrenCount = int_val (rs ! 1), deadCount = int_val (rs ! 2),
          workCount = sum_list (map int_val (take 6 (drop 3 rs))), marker = m\<rparr>)"

definition readStartupState :: "'s server \<Rightarrow> (nat \<Rightarrow> step_env) \<Rightarrow> CrawlStateStore \<Rightarrow> 's session \<Rightarrow>
    (go_error + restoreState) \<times> 's session" where
  "readStartupState call E st x =
     (case transact call E startup_cmds x of
        (Inl err, x') \<Rightarrow> (Inl err, x')
      | (Inr rs, x') \<Rightarrow> (startup_state st rs, x'))"

definition in_phase :: "string \<Rightarrow> restoreState \<Rightarrow> bool" where
  "in_phase p state = (case marker state of None \<Rightarrow> False | Some m \<Rightarrow> Phase m = map byte p)"

section \<open>Batches\<close>

definition checkRestoreBarrier :: "'s server \<Rightarrow> (nat \<Rightarrow> step_env) \<Rightarrow> CrawlStateStore \<Rightarrow> 's session \<Rightarrow>
    go_error option \<times> 's session" where
  "checkRestoreBarrier call E st x =
     (case checkIdentity E st x of
        (Some err, x1) \<Rightarrow> (Some err, x1)
      | (None, x1) \<Rightarrow> (case readStartupState call E st x1 of
          (Inl err, x2) \<Rightarrow> (Some err, x2)
        | (Inr state, x2) \<Rightarrow>
            (if \<not> in_phase ''restoring'' state \<or> workCount state \<noteq> 0
             then Some (crawl_error ''restore barrier changed; refusing further writes'') else None, x2)))"

text \<open>What a row becomes in Redis at \<open>now\<close>: its due time and its quarantine.\<close>

definition restored_row :: "int \<Rightarrow> mongoCrawlRecord \<Rightarrow> int option \<times> mongoDeadRecord option" where
  "restored_row now row =
     (let next = (if NextDue row = Some PendingScore then Some 0 else NextDue row)
      in case Quarantine row of
           None \<Rightarrow> (next, None)
         | Some q \<Rightarrow>
             if Until q = 0 then (None, Some q)
             else if Until q \<le> now then (next, None)
             else (case next of
                 Some n \<Rightarrow> if n < Until q then (Some (Until q), Some q) else (next, Some q)
               | None \<Rightarrow> (next, Some q)))"

definition row_cmds :: "int \<Rightarrow> mongoCrawlRecord \<Rightarrow> cmd list" where
  "row_cmds now row =
     (let (next, q) = restored_row now row; u = rowURL row
      in [(case next of None \<Rightarrow> ZREM keyListingNext u | Some n \<Rightarrow> ZADD keyListingNext n u),
          (if next = None \<and> q = None \<and> Barren row = 0 then HDEL keyListingBarren u
           else HSET keyListingBarren u (show_int (Barren row))),
          (case q of None \<Rightarrow> HDEL keyDead u | Some q \<Rightarrow> HSET keyDead u (Reason q @ ''|'' @ show_int (Until q)))])"

definition restoreBatch :: "'s server \<Rightarrow> (nat \<Rightarrow> step_env) \<Rightarrow> CrawlStateStore \<Rightarrow> mongoCrawlRecord list \<Rightarrow> 's session \<Rightarrow>
    go_error option \<times> 's session" where
  "restoreBatch call E st rows x =
     (case checkRestoreBarrier call E st x of
        (Some err, x1) \<Rightarrow> (Some err, x1)
      | (None, x1) \<Rightarrow>
          (let now = unix (clock (wire (E (step x1))))
           in case transact call E (concat (map (row_cmds now) rows)) x1 of
                (Inl err, x2) \<Rightarrow> (Some err, x2)
              | (Inr _, x2) \<Rightarrow> checkIdentity E st x2))"

section \<open>Restore\<close>

text \<open>What the Mongo cursor yields.\<close>

record cursor =
  find_err :: "go_error option"
  docs :: "raw list"
  cursor_err :: "go_error option"
  close_err :: "go_error option"

datatype choice = Refuse go_error | Preserve | Fill bool

definition startup_choice :: "restoreState \<Rightarrow> choice" where
  "startup_choice state =
     (let resuming = in_phase ''restoring'' state
      in if resuming \<and> workCount state \<noteq> 0
         then Refuse (crawl_error ''unfinished restore has live work or retry state; refusing to overwrite'')
         else if \<not> resuming \<and> (listingCount state > 0 \<or> in_phase ''complete'' state \<and> workCount state = 0 \<and>
            (barrenCount state > 0 \<or> deadCount state > 0)) then Preserve
         else if \<not> resuming \<and> (workCount state \<noteq> 0 \<or> barrenCount state \<noteq> 0 \<or> deadCount state \<noteq> 0)
         then Refuse (crawl_error ''missing listing schedule with existing frontier state; automatic cold restore is unsafe'')
         else Fill resuming)"

text \<open>Before the first row: the identity once more, and the marker unless it is there already.\<close>

definition begin_restore :: "'s server \<Rightarrow> (nat \<Rightarrow> step_env) \<Rightarrow> CrawlStateStore \<Rightarrow> bool \<Rightarrow> bool \<Rightarrow> 's session \<Rightarrow>
    go_error option \<times> 's session" where
  "begin_restore call E st resuming marked x =
     (case checkIdentity E st x of
        (Some err, x1) \<Rightarrow> (Some err, x1)
      | (None, x1) \<Rightarrow>
          if resuming then (None, x1)
          else if marked then
            (case transact call E [SET keyCrawlStateRestore (encodeRestoreMarker st ''restoring'')] x1 of
               (Inl err, x2) \<Rightarrow> (Some err, x2)
             | (Inr _, x2) \<Rightarrow> (None, x2))
          else
            (case transact call E [SETNX keyCrawlStateRestore (encodeRestoreMarker st ''restoring'')] x1 of
               (Inl err, x2) \<Rightarrow> (Some err, x2)
             | (Inr rs, x2) \<Rightarrow>
                 (if rs = [RInt 1] then None else Some (crawl_error ''restore marker appeared concurrently''), x2)))"

text \<open>The loop over the documents: the error that ended it, whether a row was seen, the rows not yet
  written, and the number of rows written.\<close>

fun restore_docs :: "'s server \<Rightarrow> net_url \<Rightarrow> (nat \<Rightarrow> step_env) \<Rightarrow> CrawlStateStore \<Rightarrow> bool \<Rightarrow> bool \<Rightarrow> raw list \<Rightarrow>
    bool \<Rightarrow> mongoCrawlRecord list \<Rightarrow> int \<Rightarrow> 's session \<Rightarrow>
    go_error option \<times> bool \<times> mongoCrawlRecord list \<times> int \<times> 's session" where
  "restore_docs call net E st resuming marked [] started rows n x = (None, started, rows, n, x)"
| "restore_docs call net E st resuming marked (doc # ds) started rows n x =
     (case (if started then (None, x) else begin_restore call E st resuming marked x) of
        (Some err, x1) \<Rightarrow> (Some err, started, rows, n, x1)
      | (None, x1) \<Rightarrow>
          (case decodeMongoCrawlRecord net doc of
             Inl err \<Rightarrow> (Some err, True, rows, n, x1)
           | Inr row \<Rightarrow>
               (let rows' = rows @ [row]
                in if length rows' = crawlStateBatchSize then
                     (case restoreBatch call E st rows' x1 of
                        (Some err, x2) \<Rightarrow> (Some err, True, rows', n, x2)
                      | (None, x2) \<Rightarrow> restore_docs call net E st resuming marked ds True [] (n + int (length rows')) x2)
                   else restore_docs call net E st resuming marked ds True rows' n x1)))"

text \<open>The end of a restore that saw rows: the last batch, the barrier, the marker, the identity.\<close>

definition finish_restore :: "'s server \<Rightarrow> (nat \<Rightarrow> step_env) \<Rightarrow> CrawlStateStore \<Rightarrow> mongoCrawlRecord list \<Rightarrow> int \<Rightarrow>
    's session \<Rightarrow> go_error option \<times> RestoreStats \<times> 's session" where
  "finish_restore call E st rows n x =
     (case (if rows = [] then (None, x) else restoreBatch call E st rows x) of
        (Some err, x1) \<Rightarrow> (Some err, \<lparr>Mode = [], Rows = n\<rparr>, x1)
      | (None, x1) \<Rightarrow>
          (let n' = n + int (length rows)
           in case checkRestoreBarrier call E st x1 of
                (Some err, x2) \<Rightarrow> (Some err, \<lparr>Mode = [], Rows = n'\<rparr>, x2)
              | (None, x2) \<Rightarrow>
                  (case transact call E [SET keyCrawlStateRestore (encodeRestoreMarker st ''complete'')] x2 of
                     (Inl err, x3) \<Rightarrow> (Some err, \<lparr>Mode = [], Rows = n'\<rparr>, x3)
                   | (Inr _, x3) \<Rightarrow>
                       (case checkIdentity E st x3 of (err, x4) \<Rightarrow> (err, \<lparr>Mode = ''restored'', Rows = n'\<rparr>, x4)))))"

definition fill_from :: "'s server \<Rightarrow> net_url \<Rightarrow> (nat \<Rightarrow> step_env) \<Rightarrow> CrawlStateStore \<Rightarrow> bool \<Rightarrow> bool \<Rightarrow> cursor \<Rightarrow>
    's session \<Rightarrow> go_error option \<times> RestoreStats \<times> 's session" where
  "fill_from call net E st resuming marked cur x =
     (case restore_docs call net E st resuming marked (docs cur) False [] 0 x of
        (Some err, started, rows, n, x1) \<Rightarrow> (Some err, \<lparr>Mode = [], Rows = n\<rparr>, x1)
      | (None, started, rows, n, x1) \<Rightarrow>
          (case cursor_err cur of
             Some err \<Rightarrow> (Some err, \<lparr>Mode = [], Rows = n\<rparr>, x1)
           | None \<Rightarrow>
               if started then finish_restore call E st rows n x1
               else if resuming
                 then (Some (crawl_error ''checkpoint source is empty during unfinished restore''), \<lparr>Mode = [], Rows = n\<rparr>, x1)
               else (case checkIdentity E st x1 of (err, x2) \<Rightarrow> (err, \<lparr>Mode = ''empty'', Rows = n\<rparr>, x2))))"

text \<open>\<open>errors.Join\<close> keeps the first error here; only whether there is one matters to the caller.\<close>

definition Restore :: "'s server \<Rightarrow> net_url \<Rightarrow> (nat \<Rightarrow> step_env) \<Rightarrow> cursor \<Rightarrow> CrawlStateStore \<Rightarrow> 's session \<Rightarrow>
    go_error option \<times> RestoreStats \<times> CrawlStateStore \<times> 's session" where
  "Restore call net E cur st x =
     (let none = \<lparr>Mode = [], Rows = 0\<rparr>; st0 = st\<lparr>startupComplete := False\<rparr>
      in case checkIdentity E st0 x of
           (Some err, x1) \<Rightarrow> (Some err, none, st0, x1)
         | (None, x1) \<Rightarrow> (case readStartupState call E st0 x1 of
             (Inl err, x2) \<Rightarrow> (Some err, none, st0, x2)
           | (Inr state, x2) \<Rightarrow> (case startup_choice state of
               Refuse err \<Rightarrow> (Some err, none, st0, x2)
             | Preserve \<Rightarrow> (case checkIdentity E st0 x2 of
                 (err, x3) \<Rightarrow> (err, none\<lparr>Mode := ''preserved''\<rparr>, st0\<lparr>startupComplete := (err = None)\<rparr>, x3))
             | Fill resuming \<Rightarrow>
                 (case find_err cur of
                    Some err \<Rightarrow> (Some err, none, st0, x2)
                  | None \<Rightarrow>
                      (case fill_from call net E st0 resuming (marker state \<noteq> None) cur x2 of
                         (err, stats, x3) \<Rightarrow>
                           (let err' = (if err = None then close_err cur else err)
                            in (err', stats, st0\<lparr>startupComplete := (err' = None)\<rparr>, x3)))))))"

end
