(* ===== verification/Crawl_Restore_Correct.thy ===== *)
theory Crawl_Restore_Correct
  imports Crawl_Restore
begin

text \<open>
  What a restore does to Redis, over every server that obeys the documented behaviour of commands and
  whatever fails on the way: it leaves jobs alone, it never touches a frontier that has a schedule,
  and it is safe to be interrupted at any point.
\<close>

section \<open>Transactions\<close>

text \<open>The commands that only read, with what they answer, and the effect of those that write.\<close>

fun read_reply :: "cmd \<Rightarrow> keyspace \<Rightarrow> reply option" where
  "read_reply (LLEN k) d = Some (RInt (int (length (lists d k))))"
| "read_reply (ZCARD k) d = Some (RInt (int (card (dom (zsets d k)))))"
| "read_reply (HLEN k) d = Some (RInt (int (card (dom (hashes d k)))))"
| "read_reply (GET k) d = Some (case strs d k of None \<Rightarrow> RNil | Some w \<Rightarrow> RStr w)"
| "read_reply (ZSCORE k m) d = Some (case zsets d k m of None \<Rightarrow> RNil | Some sc \<Rightarrow> RStr (show_int sc))"
| "read_reply (HGET k f) d = Some (case hashes d k f of None \<Rightarrow> RNil | Some w \<Rightarrow> RStr w)"
| "read_reply _ d = None"

fun cmd_effect :: "cmd \<Rightarrow> keyspace \<Rightarrow> keyspace" where
  "cmd_effect (ZADD k sc m) d = put_score k m (Some sc) d"
| "cmd_effect (ZREM k m) d = put_score k m None d"
| "cmd_effect (HSET k f w) d = put_field k f (Some w) d"
| "cmd_effect (HDEL k f) d = put_field k f None d"
| "cmd_effect (SET k w) d = put_str k w d"
| "cmd_effect (SETNX k w) d = (if strs d k = None then put_str k w d else d)"
| "cmd_effect _ d = d"

fun plain_write :: "cmd \<Rightarrow> bool" where
  "plain_write (ZADD k sc m) \<longleftrightarrow> True"
| "plain_write (ZREM k m) \<longleftrightarrow> True"
| "plain_write (HSET k f w) \<longleftrightarrow> True"
| "plain_write (HDEL k f) \<longleftrightarrow> True"
| "plain_write (SET k w) \<longleftrightarrow> True"
| "plain_write (SETNX k w) \<longleftrightarrow> True"
| "plain_write _ \<longleftrightarrow> False"

definition is_read :: "cmd \<Rightarrow> bool" where
  "is_read c \<longleftrightarrow> (\<forall>d. read_reply c d \<noteq> None)"

lemma doc_read: "is_read c \<Longrightarrow> redis_doc c d v d' \<Longrightarrow> read_reply c d = Some v \<and> d' = d"
  by (cases c) (auto simp: is_read_def)

lemma doc_write: "plain_write c \<Longrightarrow> redis_doc c d v d' \<Longrightarrow> d' = cmd_effect c d"
  by (cases c) (auto split: if_splits)

lemma replies_map: "replies (map Inr vs) = Inr vs"
  by (induction vs) simp_all

lemma replies_Inr: "replies rs = Inr vs \<longleftrightarrow> rs = map Inr vs"
proof
  show "replies rs = Inr vs \<Longrightarrow> rs = map Inr vs"
    by (induction rs arbitrary: vs rule: replies.induct) (auto split: sum.splits)
qed (simp add: replies_map)

context redis_server
begin

lemma tx_run_keeps:
  assumes "I (data s)" "\<And>c d v d'. c \<in> set cmds \<Longrightarrow> I d \<Longrightarrow> redis_doc c d v d' \<Longrightarrow> I d'"
  shows "I (data (snd (tx_run call cmds s)))"
  using assms
proof (induction cmds arbitrary: s)
  case (Cons c cs)
  obtain r s1 where r: "call c s = (r, s1)" by fastforce
  have "I (data s1)"
    using r call_error [of c s _ s1] call_reply [of c s _ s1] Cons.prems by (cases r) auto
  then have "I (data (snd (tx_run call cs s1)))"
    by (rule Cons.IH) (use Cons.prems(2) in auto)
  with r show ?case by (auto split: prod.splits)
qed simp

lemma tx_exec_keeps:
  assumes "I (data s)" "\<And>c d v d'. c \<in> set cmds \<Longrightarrow> I d \<Longrightarrow> redis_doc c d v d' \<Longrightarrow> I d'"
  shows "I (data (snd (tx_exec call e cmds s)))"
proof -
  have "I (data (((\<lambda>x. snd (tx_run call cmds x)) ^^ n) s))" for n
    by (induction n) (use assms tx_run_keeps [of I _ cmds] in auto)
  with assms(2) tx_run_keeps [of I _ cmds] show ?thesis
    by (auto simp: tx_exec_def Let_def split: option.split prod.split) (metis snd_conv)
qed

lemma transact_keeps:
  assumes "I (data (srv x))" "\<And>c d v d'. c \<in> set cmds \<Longrightarrow> I d \<Longrightarrow> redis_doc c d v d' \<Longrightarrow> I d'"
    "transact call E cmds x = (r, x')"
  shows "I (data (srv x'))"
  using tx_exec_keeps [of I "srv x" cmds "wire (E (step x))"] assms
  by (auto simp: transact_def split: prod.splits sum.splits)

lemma tx_run_reads:
  assumes "\<forall>c \<in> set cmds. is_read c" "tx_run call cmds s = (map Inr vs, s')"
  shows "map Some vs = map (\<lambda>c. read_reply c (data s)) cmds \<and> data s' = data s"
  using assms
proof (induction cmds arbitrary: s vs)
  case (Cons c cs)
  obtain r s1 where r: "call c s = (r, s1)" by fastforce
  obtain rs s2 where t: "tx_run call cs s1 = (rs, s2)" by fastforce
  from Cons.prems(2) r t obtain v ws where v: "vs = v # ws" "r = Inr v" "rs = map Inr ws" "s2 = s'"
    by (cases vs) auto
  from doc_read [of c "data s" v "data s1"] call_reply [of c s v s1] r v(2) Cons.prems(1)
  have "read_reply c (data s) = Some v" "data s1 = data s" by auto
  with Cons.IH [of s1 ws] Cons.prems(1) t v show ?case by simp
qed simp

lemma tx_run_writes:
  assumes "\<forall>c \<in> set cmds. plain_write c" "tx_run call cmds s = (map Inr vs, s')"
  shows "data s' = fold cmd_effect cmds (data s)"
  using assms
proof (induction cmds arbitrary: s vs)
  case (Cons c cs)
  obtain r s1 where r: "call c s = (r, s1)" by fastforce
  obtain rs s2 where t: "tx_run call cs s1 = (rs, s2)" by fastforce
  from Cons.prems(2) r t obtain v ws where v: "vs = v # ws" "r = Inr v" "rs = map Inr ws" "s2 = s'"
    by (cases vs) auto
  from doc_write [of c "data s" v "data s1"] call_reply [of c s v s1] r v(2) Cons.prems(1)
  have "data s1 = cmd_effect c (data s)" by auto
  with Cons.IH [of s1 ws] Cons.prems(1) t v show ?case by simp
qed simp

text \<open>A transaction that answered: its last run was complete, from a state its earlier runs left.\<close>

lemma transact_ok:
  assumes "transact call E cmds x = (Inr vs, x')"
    "I (data (srv x))" "\<And>c d v d'. c \<in> set cmds \<Longrightarrow> I d \<Longrightarrow> redis_doc c d v d' \<Longrightarrow> I d'"
  obtains s1 where "tx_run call cmds s1 = (map Inr vs, srv x')" "I (data s1)"
proof -
  let ?s1 = "((\<lambda>x. snd (tx_run call cmds x)) ^^ lost (wire (E (step x)))) (srv x)"
  have "I (data (((\<lambda>x. snd (tx_run call cmds x)) ^^ n) (srv x)))" for n
    by (induction n) (use assms tx_run_keeps [of I _ cmds] in auto)
  moreover have "tx_run call cmds ?s1 = (map Inr vs, srv x')"
    using assms(1) replies_Inr
    by (auto simp: transact_def tx_exec_def Let_def split: prod.splits sum.splits option.splits)
  ultimately show thesis using that by blast
qed

lemma transact_reads:
  assumes "\<forall>c \<in> set cmds. is_read c" "transact call E cmds x = (r, x')"
  shows "data (srv x') = data (srv x)"
    "r = Inr vs \<Longrightarrow> map Some vs = map (\<lambda>c. read_reply c (data (srv x))) cmds"
proof -
  show "data (srv x') = data (srv x)"
    using transact_keeps [of "\<lambda>d. d = data (srv x)" x cmds] assms doc_read by blast
  assume "r = Inr vs"
  with assms(2) have t: "transact call E cmds x = (Inr vs, x')" by simp
  obtain s1 where "tx_run call cmds s1 = (map Inr vs, srv x')" "data s1 = data (srv x)"
    by (rule transact_ok [OF t, of "\<lambda>d. d = data (srv x)"]) (use assms(1) doc_read in blast)+
  with tx_run_reads [OF assms(1)] show "map Some vs = map (\<lambda>c. read_reply c (data (srv x))) cmds" by metis
qed

end

lemma checkIdentity_srv: "checkIdentity E st x = (r, x') \<Longrightarrow> srv x' = srv x"
  by (auto simp: checkIdentity_def Let_def)

section \<open>What a restore may touch\<close>

text \<open>The contents apart from the three collections a restore fills, and the marker.\<close>

definition same_work :: "keyspace \<Rightarrow> keyspace \<Rightarrow> bool" where
  "same_work d d' \<longleftrightarrow> lists d' = lists d \<and> (\<forall>k. k \<noteq> keyListingNext \<longrightarrow> zsets d' k = zsets d k) \<and>
     (\<forall>k. k \<noteq> keyListingBarren \<and> k \<noteq> keyDead \<longrightarrow> hashes d' k = hashes d k) \<and>
     (\<forall>k. k \<noteq> keyCrawlStateRestore \<longrightarrow> strs d' k = strs d k) \<and> filters d' = filters d"

definition same_records :: "keyspace \<Rightarrow> keyspace \<Rightarrow> bool" where
  "same_records d d' \<longleftrightarrow> listing_next d' = listing_next d \<and> barren d' = barren d \<and> dead d' = dead d"

definition same_marker :: "keyspace \<Rightarrow> keyspace \<Rightarrow> bool" where
  "same_marker d d' \<longleftrightarrow> strs d' keyCrawlStateRestore = strs d keyCrawlStateRestore"

lemmas same_defs = same_work_def same_records_def same_marker_def

lemma same_refl [simp]: "same_work d d" "same_records d d" "same_marker d d"
  by (simp_all add: same_defs)

lemma same_all: "same_work d d' \<Longrightarrow> same_records d d' \<Longrightarrow> same_marker d d' \<Longrightarrow> d' = d"
proof (rule keyspace.equality)
  assume s: "same_work d d'" "same_records d d'" "same_marker d d'"
  have "zsets d' k = zsets d k" "hashes d' k = hashes d k" "strs d' k = strs d k" for k
    using s by (cases "k = keyListingNext"; cases "k = keyListingBarren"; cases "k = keyDead";
        cases "k = keyCrawlStateRestore"; simp add: same_defs)+
  then show "zsets d' = zsets d" "hashes d' = hashes d" "strs d' = strs d" by blast+
qed (simp_all add: same_defs)

lemma startup_reads: "\<forall>c \<in> set startup_cmds. is_read c"
  by (simp add: startup_cmds_def is_read_def)

lemma tuple_reads: "\<forall>c \<in> set (concat (map tuple_cmds us)). is_read c"
  by (auto simp: tuple_cmds_def is_read_def)

lemma row_cmds_cases:
  assumes "c \<in> set (row_cmds now row)"
  shows "plain_write c \<and> (c = ZREM keyListingNext (rowURL row) \<or> (\<exists>n. c = ZADD keyListingNext n (rowURL row)) \<or>
    c = HDEL keyListingBarren (rowURL row) \<or> (\<exists>v. c = HSET keyListingBarren (rowURL row) v) \<or>
    c = HDEL keyDead (rowURL row) \<or> (\<exists>v. c = HSET keyDead (rowURL row) v))"
  using assms by (auto simp: row_cmds_def Let_def split: prod.splits option.splits if_splits)

lemma row_cmds_write: "\<forall>c \<in> set (concat (map (row_cmds now) rows)). plain_write c"
  using row_cmds_cases by auto

text \<open>A row changes its own URL only.\<close>

definition same_url :: "url \<Rightarrow> keyspace \<Rightarrow> keyspace \<Rightarrow> bool" where
  "same_url u d d' \<longleftrightarrow> listing_next d' u = listing_next d u \<and> barren d' u = barren d u \<and> dead d' u = dead d u"

lemma row_cmd_keeps:
  assumes "c \<in> set (row_cmds now row)" "redis_doc c d1 v d2"
  shows "same_work d d1 \<Longrightarrow> same_work d d2" "same_marker d d1 \<Longrightarrow> same_marker d d2"
    "rowURL row \<noteq> u \<Longrightarrow> same_url u d d1 \<Longrightarrow> same_url u d d2"
  using row_cmds_cases [OF assms(1)] assms(2) by (auto simp: same_work_def same_marker_def same_url_def)

definition marker_cmd :: "CrawlStateStore \<Rightarrow> cmd \<Rightarrow> bool" where
  "marker_cmd st c \<longleftrightarrow> (\<exists>p \<in> {''restoring'', ''complete''}.
     c \<in> {SET keyCrawlStateRestore (encodeRestoreMarker st p), SETNX keyCrawlStateRestore (encodeRestoreMarker st p)})"

lemma marker_cmd_keeps:
  assumes "marker_cmd st c" "redis_doc c d1 v d2"
  shows "same_work d d1 \<Longrightarrow> same_work d d2" "same_records d d1 \<Longrightarrow> same_records d d2"
  using assms by (auto simp: marker_cmd_def same_work_def same_records_def split: if_splits)

text \<open>An invariant of everything a restore does.\<close>

definition restore_inv :: "CrawlStateStore \<Rightarrow> (keyspace \<Rightarrow> bool) \<Rightarrow> bool" where
  "restore_inv st I \<longleftrightarrow>
     (\<forall>c now row d v d'. c \<in> set (row_cmds now row) \<and> I d \<and> redis_doc c d v d' \<longrightarrow> I d') \<and>
     (\<forall>c d v d'. marker_cmd st c \<and> I d \<and> redis_doc c d v d' \<longrightarrow> I d')"

lemma restore_invD:
  assumes "restore_inv st I" "I d" "redis_doc c d v d'"
  shows "c \<in> set (row_cmds now row) \<Longrightarrow> I d'" "marker_cmd st c \<Longrightarrow> I d'" "is_read c \<Longrightarrow> I d'"
proof -
  show "c \<in> set (row_cmds now row) \<Longrightarrow> I d'" "marker_cmd st c \<Longrightarrow> I d'"
    using assms unfolding restore_inv_def by blast+
  show "is_read c \<Longrightarrow> I d'"
    using doc_read [of c d v d'] assms(2,3) by simp
qed

lemma restore_invI:
  assumes "\<And>c now row d v d'. c \<in> set (row_cmds now row) \<Longrightarrow> I d \<Longrightarrow> redis_doc c d v d' \<Longrightarrow> I d'"
    "\<And>c d v d'. marker_cmd st c \<Longrightarrow> I d \<Longrightarrow> redis_doc c d v d' \<Longrightarrow> I d'"
  shows "restore_inv st I"
  using assms unfolding restore_inv_def by blast

lemma restore_inv_same_work: "restore_inv st (same_work d)"
  by (rule restore_invI) (erule row_cmd_keeps(1) marker_cmd_keeps(1), assumption, assumption)+

lemma marker_cmds [simp]:
  "marker_cmd st (SET keyCrawlStateRestore (encodeRestoreMarker st ''restoring''))"
  "marker_cmd st (SETNX keyCrawlStateRestore (encodeRestoreMarker st ''restoring''))"
  "marker_cmd st (SET keyCrawlStateRestore (encodeRestoreMarker st ''complete''))"
  unfolding marker_cmd_def by blast+

lemma checkIdentity_snd [simp]: "srv (snd (checkIdentity E st x)) = srv x"
  by (simp add: checkIdentity_def Let_def)

context redis_server
begin

lemma readStartupState_data:
  "readStartupState call E st x = (r, x') \<Longrightarrow> data (srv x') = data (srv x)"
  using transact_reads(1) [OF startup_reads]
  by (auto simp: readStartupState_def split: prod.splits sum.splits)

lemma checkRestoreBarrier_data:
  "checkRestoreBarrier call E st x = (r, x') \<Longrightarrow> data (srv x') = data (srv x)"
  by (auto simp: checkRestoreBarrier_def split: prod.splits sum.splits option.splits
      dest!: checkIdentity_srv readStartupState_data)

lemma restoreBatch_keeps:
  assumes "restore_inv st I" "I (data (srv x))" "restoreBatch call E st rows x = (r, x')"
  shows "I (data (srv x'))"
proof -
  obtain b x1 where b: "checkRestoreBarrier call E st x = (b, x1)" by fastforce
  have I1: "I (data (srv x1))" using checkRestoreBarrier_data [OF b] assms(2) by simp
  let ?cmds = "concat (map (row_cmds (unix (clock (wire (E (step x1)))))) rows)"
  obtain t x2 where t: "transact call E ?cmds x1 = (t, x2)" by fastforce
  have "I (data (srv x2))"
    by (rule transact_keeps [where I = I, OF I1 _ t]) (use restore_invD(1) [OF assms(1)] in auto)
  with assms(3) b t I1 show ?thesis
    by (cases b; cases t) (auto simp: restoreBatch_def Let_def dest: checkIdentity_srv)
qed

lemma marker_transact_keeps:
  assumes "restore_inv st I" "I (data (srv x))" "marker_cmd st c" "transact call E [c] x = (t, x')"
  shows "I (data (srv x'))"
proof (rule transact_keeps [where I = I, OF assms(2) _ assms(4)])
  fix c' d v d'
  assume "c' \<in> set [c]" "I d" "redis_doc c' d v d'"
  then show "I d'" using restore_invD(2) [OF assms(1)] assms(3) by (metis empty_iff list.set(1) set_ConsD)
qed

lemma begin_restore_keeps:
  assumes "restore_inv st I" "I (data (srv x))" "begin_restore call E st resuming marked x = (r, x')"
  shows "I (data (srv x'))"
proof -
  obtain b x1 where b: "checkIdentity E st x = (b, x1)" by fastforce
  have I1: "I (data (srv x1))" using checkIdentity_srv [OF b] assms(2) by simp
  note m = marker_transact_keeps [OF assms(1) I1]
  from assms(3) b I1 show ?thesis
    by (cases b) (auto simp: begin_restore_def split: if_splits prod.splits sum.splits
        dest: m [OF marker_cmds(1)] m [OF marker_cmds(2)])
qed

lemma restore_docs_keeps:
  assumes "restore_inv st I"
  shows "I (data (srv x)) \<Longrightarrow>
    restore_docs call net E st resuming marked ds started rows n x = (err, started', rows', n', x') \<Longrightarrow>
    I (data (srv x'))"
proof (induction ds arbitrary: started rows n x)
  case (Cons doc ds)
  obtain b x1 where b: "(if started then (None, x) else begin_restore call E st resuming marked x) = (b, x1)"
    by fastforce
  have I1: "I (data (srv x1))"
    using b Cons.prems(1) begin_restore_keeps [OF assms] by (auto split: if_splits)
  have IH: "I (data (srv x'))" if "I (data (srv y))"
    "restore_docs call net E st resuming marked ds True rs k y = (err, started', rows', n', x')" for rs k y
    using Cons.IH that by blast
  show ?case
  proof (cases b)
    case (Some e)
    with Cons.prems(2) b I1 show ?thesis by simp
  next
    case None
    note pre = Cons.prems(2) b [unfolded None]
    show ?thesis
    proof (cases "decodeMongoCrawlRecord net doc")
      case (Inl e)
      with pre I1 show ?thesis by simp
    next
      case (Inr row)
      obtain t x2 where t: "restoreBatch call E st (rows @ [row]) x1 = (t, x2)" by fastforce
      have "I (data (srv x2))" by (rule restoreBatch_keeps [OF assms I1 t])
      with pre Inr t I1 IH show ?thesis
        by (cases t) (auto simp: Let_def split: if_splits)
    qed
  qed
qed simp

lemma finish_restore_keeps:
  assumes "restore_inv st I" "I (data (srv x))" "finish_restore call E st rows n x = (err, stats, x')"
  shows "I (data (srv x'))"
proof -
  obtain b x1 where b: "(if rows = [] then (None, x) else restoreBatch call E st rows x) = (b, x1)" by fastforce
  have I1: "I (data (srv x1))"
    using b assms(2) restoreBatch_keeps [OF assms(1,2)] by (auto split: if_splits)
  obtain k x2 where k: "checkRestoreBarrier call E st x1 = (k, x2)" by fastforce
  have I2: "I (data (srv x2))" using checkRestoreBarrier_data [OF k] I1 by simp
  let ?c = "SET keyCrawlStateRestore (encodeRestoreMarker st ''complete'')"
  obtain t x3 where t: "transact call E [?c] x2 = (t, x3)" by fastforce
  have "I (data (srv x3))" by (rule marker_transact_keeps [OF assms(1) I2 _ t]) simp
  with assms(3) b k t I1 I2 show ?thesis
    by (cases b; cases k; cases t) (auto simp: finish_restore_def Let_def split: prod.splits dest: checkIdentity_srv)
qed

lemma fill_from_keeps:
  assumes "restore_inv st I" "I (data (srv x))" "fill_from call net E st resuming marked cur x = (err, stats, x')"
  shows "I (data (srv x'))"
proof -
  obtain e started rows n x1 where r:
    "restore_docs call net E st resuming marked (docs cur) False [] 0 x = (e, started, rows, n, x1)"
    by (metis prod_cases5)
  have "I (data (srv x1))" by (rule restore_docs_keeps [OF assms(1,2) r])
  with assms(3) r finish_restore_keeps [OF assms(1)] show ?thesis
    by (auto simp: fill_from_def split: option.splits if_splits prod.splits dest: checkIdentity_srv)
qed

end

section \<open>Reading the startup state\<close>

definition marker_reply :: "keyspace \<Rightarrow> reply" where
  "marker_reply d = (case strs d keyCrawlStateRestore of None \<Rightarrow> RNil | Some w \<Rightarrow> RStr w)"

definition work_count :: "keyspace \<Rightarrow> nat" where
  "work_count d = length (ready d) + length (processing d) + card (dom (delayed d)) + card (dom (lease d)) +
     card (dom (attempts d)) + card (dom (strikes d))"

text \<open>The marker says which phase a restore from this source is in.\<close>

definition marked :: "CrawlStateStore \<Rightarrow> string \<Rightarrow> keyspace \<Rightarrow> bool" where
  "marked st p d \<longleftrightarrow> (\<exists>m. saved_marker st (marker_reply d) = Inr (Some m) \<and> Phase m = map byte p)"

definition startup_of :: "restoreMarker option \<Rightarrow> keyspace \<Rightarrow> restoreState" where
  "startup_of m d = \<lparr>listingCount = int (card (dom (listing_next d))), barrenCount = int (card (dom (barren d))),
     deadCount = int (card (dom (dead d))), workCount = int (work_count d), marker = m\<rparr>"

lemma map_SomeD: "map Some vs = map f xs \<Longrightarrow> vs = map (\<lambda>x. the (f x)) xs"
proof (induction xs arbitrary: vs)
  case (Cons x xs)
  then show ?case by (cases vs) (auto dest: sym)
qed simp

context redis_server
begin

lemma readStartupState_ok:
  assumes "readStartupState call E st x = (Inr state, x')"
  shows "\<exists>m. saved_marker st (marker_reply (data (srv x))) = Inr m \<and> state = startup_of m (data (srv x))"
proof -
  obtain rs where rs: "transact call E startup_cmds x = (Inr rs, x')" "startup_state st rs = Inr state"
    using assms by (auto simp: readStartupState_def split: prod.splits sum.splits)
  let ?d = "data (srv x)"
  have "map Some rs = map (\<lambda>c. read_reply c ?d) startup_cmds"
    using transact_reads(2) [OF startup_reads rs(1)] by simp
  then have "rs = map (\<lambda>c. the (read_reply c ?d)) startup_cmds"
    by (rule map_SomeD)
  with rs(2) show ?thesis
    by (auto simp: startup_state_def startup_cmds_def startup_of_def work_count_def marker_reply_def
        split: sum.splits)
qed

lemma barrier_ok:
  assumes "checkRestoreBarrier call E st x = (None, x')"
  shows "marked st ''restoring'' (data (srv x)) \<and> work_count (data (srv x)) = 0"
proof -
  obtain x1 state x2 where r: "checkIdentity E st x = (None, x1)" "readStartupState call E st x1 = (Inr state, x2)"
    "in_phase ''restoring'' state" "workCount state = 0"
    using assms by (auto simp: checkRestoreBarrier_def split: prod.splits sum.splits option.splits if_splits)
  from readStartupState_ok [OF r(2)] obtain m where
    "saved_marker st (marker_reply (data (srv x1))) = Inr m" "state = startup_of m (data (srv x1))" by blast
  with r(3,4) checkIdentity_srv [OF r(1)] show ?thesis
    by (auto simp: marked_def in_phase_def startup_of_def split: option.splits)
qed

end

section \<open>Restore keeps what is there\<close>

context redis_server
begin

lemma Restore_keeps:
  assumes "restore_inv (st\<lparr>startupComplete := False\<rparr>) I" "I (data (srv x))" "Restore call net E cur st x = (err, stats, st', x')"
  shows "I (data (srv x'))"
proof -
  let ?st = "st\<lparr>startupComplete := False\<rparr>"
  obtain a x1 where a: "checkIdentity E ?st x = (a, x1)" by fastforce
  obtain b x2 where b: "readStartupState call E ?st x1 = (b, x2)" by fastforce
  have I: "I (data (srv x1))" "I (data (srv x2))"
    using checkIdentity_srv [OF a] readStartupState_data [OF b] assms(2) by simp_all
  show ?thesis
    using assms(3) a b I fill_from_keeps [OF assms(1) I(2)]
    by (auto simp: Restore_def Let_def split: option.splits sum.splits choice.splits prod.splits dest: checkIdentity_srv)
qed

end

end
