(* ===== verification/Crawl_Restore_Safe.thy ===== *)
theory Crawl_Restore_Safe
  imports Crawl_Restore_Correct
begin

text \<open>
  A restore can be interrupted anywhere: the marker says at every moment whether the collections it
  fills are to be filled again from the first row, or hold every row.
\<close>

section \<open>Rows in Redis\<close>

text \<open>
  What a row is to become in Redis when it is written at \<open>now\<close>. A quarantine stays in force when it is
  permanent or has not run out; a visit that was pending is due at once, one within a quarantine waits
  for its end, and a URL that is dead for good has none.
\<close>

definition in_force :: "int \<Rightarrow> mongoDeadRecord option \<Rightarrow> mongoDeadRecord option" where
  "in_force now q = (case q of None \<Rightarrow> None | Some r \<Rightarrow> if Until r = 0 \<or> now < Until r then Some r else None)"

definition due_again :: "mongoDeadRecord option \<Rightarrow> int option \<Rightarrow> int option" where
  "due_again q due =
     (let n = map_option (\<lambda>n. if n = PendingScore then 0 else n) due
      in case q of None \<Rightarrow> n | Some r \<Rightarrow> if Until r = 0 then None else map_option (max (Until r)) n)"

definition dead_field :: "mongoDeadRecord option \<Rightarrow> string option" where
  "dead_field q = map_option (\<lambda>q. Reason q @ ''|'' @ show_int (Until q)) q"

text \<open>The barren counter is written too, unless the row leaves nothing to count for.\<close>

definition installed :: "int \<Rightarrow> mongoCrawlRecord \<Rightarrow> keyspace \<Rightarrow> bool" where
  "installed now row d \<longleftrightarrow>
     (let u = rowURL row; q = in_force now (Quarantine row); due = due_again q (NextDue row)
      in dead d u = dead_field q \<and> listing_next d u = due \<and>
         barren d u = (if due = None \<and> q = None \<and> Barren row = 0 then None else Some (show_int (Barren row))))"

lemma restored_row_meets:
  "restored_row now row = (due_again (in_force now (Quarantine row)) (NextDue row), in_force now (Quarantine row))"
  by (cases "NextDue row") (auto simp: restored_row_def in_force_def due_again_def Let_def max_def split: option.split)

definition barren_field :: "int \<Rightarrow> mongoCrawlRecord \<Rightarrow> string option" where
  "barren_field now row =
     (if restored_row now row = (None, None) \<and> Barren row = 0 then None else Some (show_int (Barren row)))"

lemma installed_iff:
  "installed now row d \<longleftrightarrow> listing_next d (rowURL row) = fst (restored_row now row) \<and>
     barren d (rowURL row) = barren_field now row \<and> dead d (rowURL row) = dead_field (snd (restored_row now row))"
  by (auto simp: installed_def barren_field_def restored_row_meets Let_def)

lemma row_effect: "installed now row (fold cmd_effect (row_cmds now row) d)"
  by (cases "restored_row now row")
    (auto simp: installed_iff row_cmds_def Let_def barren_field_def dead_field_def split: option.splits)

lemma row_effect_other:
  "rowURL row \<noteq> u \<Longrightarrow> same_url u d (fold cmd_effect (row_cmds now row) d)"
  by (cases "restored_row now row") (auto simp: same_url_def row_cmds_def Let_def split: option.splits)

lemma installed_cong: "same_url (rowURL row) d d' \<Longrightarrow> installed now row d' \<longleftrightarrow> installed now row d"
  by (simp add: installed_iff same_url_def)

lemma rows_effect_other:
  "u \<notin> rowURL ` set rows \<Longrightarrow> same_url u d (fold cmd_effect (concat (map (row_cmds now) rows)) d)"
proof (induction rows arbitrary: d)
  case (Cons row rows)
  with row_effect_other [of row u d now] Cons.IH [of "fold cmd_effect (row_cmds now row) d"] show ?case
    by (auto simp: same_url_def)
qed (simp add: same_url_def)

lemma rows_effect:
  assumes "distinct (map rowURL rows)" "row \<in> set rows"
  shows "installed now row (fold cmd_effect (concat (map (row_cmds now) rows)) d)"
  using assms
proof (induction rows arbitrary: d)
  case (Cons r rows)
  show ?case
  proof (cases "row = r")
    case True
    let ?d = "fold cmd_effect (row_cmds now r) d"
    have "same_url (rowURL r) ?d (fold cmd_effect (concat (map (row_cmds now) rows)) ?d)"
      using Cons.prems(1) by (intro rows_effect_other) auto
    from installed_cong [OF this, of now] row_effect [of now r d] True show ?thesis by simp
  next
    case False
    with Cons show ?thesis by simp
  qed
qed simp

section \<open>The time of a write\<close>

text \<open>A row written in one of the steps \<open>i\<close> to \<open>k\<close> of a run, at the second its clock showed in that step.\<close>

definition written :: "(nat \<Rightarrow> step_env) \<Rightarrow> nat \<Rightarrow> nat \<Rightarrow> mongoCrawlRecord \<Rightarrow> keyspace \<Rightarrow> bool" where
  "written E i k row d \<longleftrightarrow> (\<exists>n. i \<le> n \<and> n < k \<and> installed (unix (clock (wire (E n)))) row d)"

lemma written_mono: "written E i k row d \<Longrightarrow> i' \<le> i \<Longrightarrow> k \<le> k' \<Longrightarrow> written E i' k' row d"
  unfolding written_def by (meson le_trans less_le_trans)

lemma written_cong: "same_url (rowURL row) d d' \<Longrightarrow> written E i k row d' \<longleftrightarrow> written E i k row d"
  by (simp add: written_def installed_cong)

named_theorems later_steps \<open>the steps of a restore go on\<close>

lemma checkIdentity_step [later_steps]: "checkIdentity E st x = (r, x') \<Longrightarrow> step x \<le> step x'"
  by (auto simp: checkIdentity_def Let_def)

lemma transact_step: "transact call E cmds x = (r, x') \<Longrightarrow> step x' = Suc (step x)"
  by (auto simp: transact_def split: prod.splits sum.splits)

lemma transact_steps [later_steps]: "transact call E cmds x = (r, x') \<Longrightarrow> step x \<le> step x'"
  using transact_step by fastforce

lemma readStartupState_steps [later_steps]: "readStartupState call E st x = (r, x') \<Longrightarrow> step x \<le> step x'"
  by (auto simp: readStartupState_def split: prod.splits sum.splits dest: transact_steps)

lemma checkRestoreBarrier_steps [later_steps]: "checkRestoreBarrier call E st x = (r, x') \<Longrightarrow> step x \<le> step x'"
  by (auto simp: checkRestoreBarrier_def split: prod.splits sum.splits option.splits dest!: later_steps)

lemma begin_later_steps [later_steps]: "begin_restore call E st b m x = (r, x') \<Longrightarrow> step x \<le> step x'"
  by (auto simp: begin_restore_def split: prod.splits sum.splits option.splits if_splits dest!: later_steps)

section \<open>The marker\<close>

lemma plain_phases: "plain ''restoring''" "plain ''complete''"
  by (simp_all add: plain_def byte_def)

lemma runes_plain: "plain s \<Longrightarrow> runes_of s = map byte s"
  by (rule runes_ascii) (auto simp: plain_def)

lemma marked_written:
  assumes "plain (mongoSource st)" "p \<in> {''restoring'', ''complete''}"
    "strs d keyCrawlStateRestore = Some (encodeRestoreMarker st p)"
  shows "marked st p d"
proof -
  have "decode_marker (encodeRestoreMarker st p) =
      Some \<lparr>mSchema = 1, Phase = map byte p, Source = map byte (mongoSource st)\<rparr>"
    unfolding encodeRestoreMarker_def using assms(1,2) plain_phases by (intro decode_marshal) auto
  then show ?thesis
    using assms(2,3) runes_plain [OF assms(1)]
    by (auto simp: marked_def marker_reply_def saved_marker_def)
qed

lemma marked_cong: "same_marker d d' \<Longrightarrow> marked st p d' \<longleftrightarrow> marked st p d"
  by (simp add: marked_def marker_reply_def same_marker_def)

context redis_server
begin

lemma transact_one:
  assumes "transact call E [c] x = (Inr vs, x')"
  obtains v d where "vs = [v]" "redis_doc c d v (data (srv x'))"
proof -
  obtain s1 where "tx_run call [c] s1 = (map Inr vs, srv x')"
    by (rule transact_ok [OF assms, of "\<lambda>_. True"]) auto
  then obtain v where "vs = [v]" "call c s1 = (Inr v, srv x')"
    by (auto split: prod.splits)
  with call_reply [of c s1 v "srv x'"] that show thesis by blast
qed

lemma begin_restore_ok:
  assumes "begin_restore call E st resuming has_marker x = (None, x')" "plain (mongoSource st)"
    "resuming \<Longrightarrow> marked st ''restoring'' (data (srv x))"
  shows "marked st ''restoring'' (data (srv x'))"
proof (cases resuming)
  case True
  with assms show ?thesis
    by (auto simp: begin_restore_def split: prod.splits option.splits dest!: checkIdentity_srv)
next
  case False
  let ?m = "encodeRestoreMarker st ''restoring''"
  obtain x1 c vs where t: "transact call E [c] x1 = (Inr vs, x')"
    "c = SET keyCrawlStateRestore ?m \<or> c = SETNX keyCrawlStateRestore ?m \<and> vs = [RInt 1]"
    using assms(1) False
    by (auto simp: begin_restore_def split: prod.splits option.splits if_splits sum.splits)
  obtain v d where "vs = [v]" "redis_doc c d v (data (srv x'))" by (rule transact_one [OF t(1)])
  with t(2) have "strs (data (srv x')) keyCrawlStateRestore = Some ?m" by (auto split: if_splits)
  then show ?thesis by (intro marked_written [OF assms(2)]) simp_all
qed

lemma restoreBatch_effect:
  assumes "restoreBatch call E st rows x = (r, x')"
  shows "same_marker (data (srv x)) (data (srv x'))"
    "u \<notin> rowURL ` set rows \<Longrightarrow> same_url u (data (srv x)) (data (srv x'))"
    "r = None \<Longrightarrow> distinct (map rowURL rows) \<Longrightarrow> \<forall>row \<in> set rows. written E (step x) (step x') row (data (srv x'))"
    "step x \<le> step x'"
proof -
  obtain b x1 where b: "checkRestoreBarrier call E st x = (b, x1)" by fastforce
  note d1 = checkRestoreBarrier_data [OF b]
  define now where "now = unix (clock (wire (E (step x1))))"
  let ?cmds = "concat (map (row_cmds now) rows)"
  obtain t x2 where t: "transact call E ?cmds x1 = (t, x2)" by fastforce
  have x': "srv x' = srv x1 \<or> b = None \<and> srv x' = srv x2"
    using assms b t by (cases b; cases t) (auto simp: restoreBatch_def now_def dest: checkIdentity_srv)
  have "same_marker (data (srv x)) (data (srv x2))"
    by (rule transact_keeps [where I = "same_marker (data (srv x))", OF _ _ t]) (use d1 row_cmd_keeps(2) in auto)
  with x' d1 show "same_marker (data (srv x)) (data (srv x'))" by auto
  show "same_url u (data (srv x)) (data (srv x'))" if u: "u \<notin> rowURL ` set rows"
  proof -
    have "same_url u (data (srv x)) (data (srv x2))"
    proof (rule transact_keeps [where I = "same_url u (data (srv x))", OF _ _ t])
      fix c d v d'
      assume "c \<in> set ?cmds" "same_url u (data (srv x)) d" "redis_doc c d v d'"
      moreover from this(1) obtain row where "row \<in> set rows" "c \<in> set (row_cmds now row)" by auto
      moreover from this(1) u have "rowURL row \<noteq> u" by blast
      ultimately show "same_url u (data (srv x)) d'" using row_cmd_keeps(3) [of c now row d v d' u] by simp
    qed (simp add: d1 same_url_def)
    with x' d1 show ?thesis by (auto simp: same_url_def)
  qed
  show "step x \<le> step x'"
    using checkRestoreBarrier_steps [OF b] transact_steps [OF t] assms b t
    by (cases b; cases t) (auto simp: restoreBatch_def now_def dest!: checkIdentity_step)
  assume "r = None" and dist: "distinct (map rowURL rows)"
  then obtain vs where vs: "t = Inr vs" "srv x' = srv x2"
    using assms b t by (cases b; cases t) (auto simp: restoreBatch_def now_def dest: checkIdentity_srv)
  obtain s1 where s1: "tx_run call ?cmds s1 = (map Inr vs, srv x2)"
    by (rule transact_ok [OF t [unfolded vs(1)], of "\<lambda>_. True"]) auto
  have "installed now row (data (srv x'))" if "row \<in> set rows" for row
    using tx_run_writes [OF row_cmds_write s1] rows_effect [OF dist that] vs(2) by metis
  moreover have "step x \<le> step x1" "step x1 < step x'"
    using checkRestoreBarrier_steps [OF b] transact_step [OF t] assms b t \<open>r = None\<close>
    by (cases b; cases t; fastforce simp: restoreBatch_def now_def dest: checkIdentity_step)+
  ultimately show "\<forall>row \<in> set rows. written E (step x) (step x') row (data (srv x'))"
    by (auto simp: written_def now_def)
qed

lemma restoreBatch_installs:
  assumes "restoreBatch call E st rows x = (None, x')" "distinct (map rowURL (old @ rows))"
    "\<forall>row \<in> set old. written E i (step x) row (data (srv x))" "i \<le> step x"
  shows "\<forall>row \<in> set (old @ rows). written E i (step x') row (data (srv x'))"
proof
  fix row
  assume "row \<in> set (old @ rows)"
  then consider "row \<in> set old" "rowURL row \<notin> rowURL ` set rows" | "row \<in> set rows"
    using assms(2) by fastforce
  then show "written E i (step x') row (data (srv x'))"
  proof cases
    case 1
    then have "written E i (step x) row (data (srv x'))"
      using restoreBatch_effect(2) [OF assms(1) 1(2)] assms(3) written_cong by blast
    then show ?thesis using written_mono restoreBatch_effect(4) [OF assms(1)] by blast
  next
    case 2
    with restoreBatch_effect(3) [OF assms(1)] assms(2) have "written E (step x) (step x') row (data (srv x'))" by auto
    then show ?thesis using written_mono assms(4) by blast
  qed
qed

end

section \<open>Interruption\<close>

definition decoded :: "net_url \<Rightarrow> raw list \<Rightarrow> mongoCrawlRecord list" where
  "decoded net ds = concat (map (\<lambda>doc. case decodeMongoCrawlRecord net doc of Inl _ \<Rightarrow> [] | Inr row \<Rightarrow> [row]) ds)"

text \<open>What holds of the loop over the documents; \<open>old\<close> are the rows already written, \<open>d0\<close> the contents
  before the restore.\<close>

definition loop_inv :: "(nat \<Rightarrow> step_env) \<Rightarrow> nat \<Rightarrow> nat \<Rightarrow> CrawlStateStore \<Rightarrow> keyspace \<Rightarrow> bool \<Rightarrow> bool \<Rightarrow> mongoCrawlRecord list \<Rightarrow> keyspace \<Rightarrow> bool" where
  "loop_inv E i k st d0 resuming started old d \<longleftrightarrow> i \<le> k \<and>
     (if started then marked st ''restoring'' d
      else same_records d0 d \<and> (resuming \<longrightarrow> marked st ''restoring'' d)) \<and>
     (\<forall>row \<in> set old. written E i k row d)"

context redis_server
begin

lemma begin_restore_inv:
  assumes "begin_restore call E st resuming has_marker x = (r, x')" "plain (mongoSource st)"
    "loop_inv E i (step x) st d0 resuming False [] (data (srv x))"
  shows "r = None \<Longrightarrow> loop_inv E i (step x') st d0 resuming True [] (data (srv x'))"
    "same_records d0 (data (srv x'))"
proof -
  obtain b x1 where b: "checkIdentity E st x = (b, x1)" by fastforce
  have d1: "same_records d0 (data (srv x1))"
    using assms(3) checkIdentity_srv [OF b] by (simp add: loop_inv_def)
  have "same_records d0 (data (srv x2))" if t: "transact call E [c] x1 = (t, x2)" "marker_cmd st c" for c t x2
  proof (rule transact_keeps [where I = "same_records d0", OF d1 _ t(1)])
    fix c' d v d'
    assume "c' \<in> set [c]" "same_records d0 d" "redis_doc c' d v d'"
    then show "same_records d0 d'" using marker_cmd_keeps(2) [OF t(2)] by (metis empty_iff list.set(1) set_ConsD)
  qed
  note m = this [OF _ marker_cmds(1)] this [OF _ marker_cmds(2)]
  from assms(1) b d1 show "same_records d0 (data (srv x'))"
    by (cases b) (auto simp: begin_restore_def split: if_splits prod.splits sum.splits dest: m)
  show "r = None \<Longrightarrow> loop_inv E i (step x') st d0 resuming True [] (data (srv x'))"
    using begin_restore_ok [of E st resuming has_marker x x'] assms begin_later_steps [OF assms(1)]
    by (auto simp: loop_inv_def)
qed

text \<open>The two steps of a turn of the loop: before the first row, and with a full batch.\<close>

lemma first_turn:
  assumes "(if started then (None, x) else begin_restore call E st resuming has_marker x) = (b, x1)" "plain (mongoSource st)"
    "loop_inv E i (step x) st d0 resuming started old (data (srv x))" "\<not> started \<longrightarrow> old = []"
  shows "b = None \<Longrightarrow> loop_inv E i (step x1) st d0 resuming True old (data (srv x1))"
    "b \<noteq> None \<Longrightarrow> \<not> started \<and> same_records d0 (data (srv x1))"
proof -
  have "loop_inv E i (step x1) st d0 resuming True old (data (srv x1))" if "b = None" "\<not> started"
    using that assms begin_restore_inv(1) [OF _ assms(2)] by auto
  then show "b = None \<Longrightarrow> loop_inv E i (step x1) st d0 resuming True old (data (srv x1))" using assms(1,3) by (cases started) auto
  show "b \<noteq> None \<Longrightarrow> \<not> started \<and> same_records d0 (data (srv x1))"
    using assms begin_restore_inv(2) [OF _ assms(2), of E resuming has_marker x b x1 i d0] by (auto split: if_splits)
qed

lemma batch_turn:
  assumes "restoreBatch call E st rows x = (t, x2)" "loop_inv E i (step x) st d0 resuming True old (data (srv x))"
    "distinct (map rowURL (old @ rows))"
  shows "marked st ''restoring'' (data (srv x2))" "t = None \<Longrightarrow> loop_inv E i (step x2) st d0 resuming True (old @ rows) (data (srv x2))"
proof -
  show m: "marked st ''restoring'' (data (srv x2))"
    using restoreBatch_effect(1) [OF assms(1)] assms(2) marked_cong by (simp add: loop_inv_def)
  assume "t = None"
  moreover have i: "\<forall>r \<in> set old. written E i (step x) r (data (srv x))" "i \<le> step x"
    using assms(2) unfolding loop_inv_def by blast+
  ultimately have "\<forall>r \<in> set (old @ rows). written E i (step x2) r (data (srv x2))"
    using restoreBatch_installs [OF _ assms(3)] assms(1) by blast
  with m i(2) restoreBatch_effect(4) [OF assms(1)]
  show "loop_inv E i (step x2) st d0 resuming True (old @ rows) (data (srv x2))" by (simp add: loop_inv_def)
qed

lemma restore_docs_safe:
  assumes "plain (mongoSource st)"
  shows "restore_docs call net E st resuming has_marker ds started rows n x = (err, started', rows', n', x') \<Longrightarrow>
    loop_inv E i (step x) st d0 resuming started old (data (srv x)) \<Longrightarrow> (\<not> started \<Longrightarrow> rows = [] \<and> old = []) \<Longrightarrow>
    distinct (map rowURL (old @ rows @ decoded net ds)) \<Longrightarrow>
    (if started' then marked st ''restoring'' (data (srv x')) else same_records d0 (data (srv x'))) \<and>
    (err = None \<longrightarrow> i \<le> step x' \<and> (\<exists>old'. old' @ rows' = old @ rows @ decoded net ds \<and> length (decoded net ds) = length ds \<and>
       (\<forall>row \<in> set old'. written E i (step x') row (data (srv x')))))"
proof (induction ds arbitrary: started rows old n x)
  case Nil
  then show ?case by (auto simp: loop_inv_def decoded_def split: if_splits)
next
  case (Cons doc ds)
  obtain b x1 where b: "(if started then (None, x) else begin_restore call E st resuming has_marker x) = (b, x1)"
    by fastforce
  note turn = first_turn [OF b assms Cons.prems(2)]
  consider (failed) e where "b = Some e" | (undecoded) e where "b = None" "decodeMongoCrawlRecord net doc = Inl e"
    | (row) row where "b = None" "decodeMongoCrawlRecord net doc = Inr row" by (metis obj_sumE option.exhaust)
  then show ?case
  proof cases
    case failed
    with turn(2) Cons.prems(1,3) b show ?thesis by auto
  next
    case undecoded
    with turn(1) Cons.prems(1,3) b show ?thesis by (auto simp: loop_inv_def)
  next
    case (row r)
    then have dec: "decoded net (doc # ds) = r # decoded net ds" by (simp add: decoded_def)
    note dist = Cons.prems(4) [unfolded dec]
    have inv1: "loop_inv E i (step x1) st d0 resuming True old (data (srv x1))" using turn(1) row(1) Cons.prems(3) by auto
    show ?thesis
    proof (cases "length (rows @ [r]) = crawlStateBatchSize")
      case False
      with Cons.prems(1) b row have "restore_docs call net E st resuming has_marker ds True (rows @ [r]) n x1 =
          (err, started', rows', n', x')" by (simp add: Let_def)
      from Cons.IH [OF this inv1] dist show ?thesis by (simp add: dec)
    next
      case True
      obtain t x2 where t: "restoreBatch call E st (rows @ [r]) x1 = (t, x2)" by fastforce
      have "distinct (map rowURL (old @ rows @ [r]))" using dist by auto
      note batch = batch_turn [OF t inv1 this]
      show ?thesis
      proof (cases t)
        case (Some e)
        with Cons.prems(1) b row True t batch(1) show ?thesis by (auto simp: Let_def)
      next
        case None
        with Cons.prems(1) b row True t have "restore_docs call net E st resuming has_marker ds True []
            (n + int (length (rows @ [r]))) x2 = (err, started', rows', n', x')" by (simp add: Let_def)
        from Cons.IH [OF this batch(2) [OF None]] dist show ?thesis by (simp add: dec)
      qed
    qed
  qed
qed

lemma set_marker:
  assumes "transact call E [SET k w] x = (t, x')"
  shows "data (srv x') = data (srv x) \<and> isl t \<or> data (srv x') = put_str k w (data (srv x))"
proof -
  let ?I = "\<lambda>d. d = data (srv x) \<or> d = put_str k w (data (srv x))"
  have keep: "?I d'" if "c \<in> set [SET k w]" "?I d" "redis_doc c d v d'" for c d v d'
    using that by auto
  show ?thesis
  proof (cases t)
    case (Inl err)
    with transact_keeps [where I = ?I, OF _ keep assms] show ?thesis by simp
  next
    case (Inr vs)
    obtain s1 where s1: "tx_run call [SET k w] s1 = (map Inr vs, srv x')" "?I (data s1)"
      by (rule transact_ok [OF assms [unfolded Inr], of ?I]) (use keep in blast)+
    then obtain v where "call (SET k w) s1 = (Inr v, srv x')" by (auto split: prod.splits)
    from call_reply [OF this] s1(2) show ?thesis by auto
  qed
qed

text \<open>The end of a restore, with every row but the last batch written.\<close>

lemma finish_restore_safe:
  assumes "finish_restore call E st rows n x = (err, stats, x')" "plain (mongoSource st)"
    "marked st ''restoring'' (data (srv x))" "distinct (map rowURL (old @ rows))"
    "\<forall>row \<in> set old. written E i (step x) row (data (srv x))" "i \<le> step x"
  shows "marked st ''restoring'' (data (srv x')) \<and> err \<noteq> None \<or> marked st ''complete'' (data (srv x')) \<and>
    (\<forall>row \<in> set (old @ rows). written E i (step x') row (data (srv x')))"
proof -
  let ?w = "encodeRestoreMarker st ''complete''"
  obtain b x1 where b: "(if rows = [] then (None, x) else restoreBatch call E st rows x) = (b, x1)" by fastforce
  have m1: "marked st ''restoring'' (data (srv x1))"
  proof (cases "rows = []")
    case False
    with b restoreBatch_effect(1) [of E st rows x b x1] marked_cong assms(3) show ?thesis by simp
  qed (use b assms(3) in simp)
  have i1: "\<forall>row \<in> set (old @ rows). written E i (step x1) row (data (srv x1))" if "b = None"
  proof (cases "rows = []")
    case False
    with b that restoreBatch_installs [OF _ assms(4-6)] show ?thesis by simp
  qed (use b assms(5) in simp)
  obtain k x2 where k: "checkRestoreBarrier call E st x1 = (k, x2)" by fastforce
  note d2 = checkRestoreBarrier_data [OF k]
  obtain t x3 where t: "transact call E [SET keyCrawlStateRestore ?w] x2 = (t, x3)" by fastforce
  have end3: "marked st ''restoring'' (data (srv x3)) \<and> isl t \<or> marked st ''complete'' (data (srv x3)) \<and>
      (\<forall>row \<in> set (old @ rows). written E i (step x3) row (data (srv x3)))" if "b = None"
    using set_marker [OF t]
  proof (elim disjE)
    assume "data (srv x3) = data (srv x2) \<and> isl t"
    with m1 d2 show ?thesis by simp
  next
    assume d3: "data (srv x3) = put_str keyCrawlStateRestore ?w (data (srv x2))"
    then have "marked st ''complete'' (data (srv x3))" by (intro marked_written [OF assms(2)]) simp_all
    moreover have "written E i k row (data (srv x3)) \<longleftrightarrow> written E i k row (data (srv x1))" for k row
      by (simp add: d3 d2 written_def installed_iff)
    moreover have "step x1 \<le> step x3" using checkRestoreBarrier_steps [OF k] transact_steps [OF t] by simp
    ultimately show ?thesis using i1 [OF that] written_mono by blast
  qed
  show ?thesis
  proof (cases "b = None \<and> k = None")
    case False
    then have "err \<noteq> None" "data (srv x') = data (srv x1)"
      using assms(1) b k d2 by (auto simp: finish_restore_def split: option.splits)
    with m1 show ?thesis by simp
  next
    case True
    then have x': "srv x' = srv x3" "step x3 \<le> step x'" "isl t \<longrightarrow> err \<noteq> None"
      using assms(1) b k t
      by (cases t; auto simp: finish_restore_def split: prod.splits dest: checkIdentity_srv checkIdentity_step)+
    have "written E i (step x') row (data (srv x'))" if "written E i (step x3) row (data (srv x3))" for row
      using that written_mono x'(1,2) by simp
    with end3 True x' show ?thesis by auto
  qed
qed

end

lemma restore_docs_started:
  "restore_docs call net E st resuming has_marker ds started rows n x = (None, started', rows', n', x') \<Longrightarrow>
     started' \<longleftrightarrow> started \<or> ds \<noteq> []"
  by (induction ds arbitrary: started rows n x)
    (auto simp: Let_def split: prod.splits option.splits sum.splits if_splits)

text \<open>The three situations a restore can leave: nothing filled, to be filled again, all filled.\<close>

definition untouched_or_resumable_or_complete :: "(nat \<Rightarrow> step_env) \<Rightarrow> nat \<Rightarrow> nat \<Rightarrow> CrawlStateStore \<Rightarrow>
    mongoCrawlRecord list \<Rightarrow> keyspace \<Rightarrow> keyspace \<Rightarrow> bool" where
  "untouched_or_resumable_or_complete E i k st rows d d' \<longleftrightarrow>
     same_records d d' \<or> marked st ''restoring'' d' \<or>
     marked st ''complete'' d' \<and> (\<forall>row \<in> set rows. written E i k row d')"

context redis_server
begin

lemma fill_from_safe:
  assumes "fill_from call net E st resuming has_marker cur x = (err, stats, x')" "plain (mongoSource st)"
    "resuming \<longrightarrow> marked st ''restoring'' (data (srv x))" "distinct (map rowURL (decoded net (docs cur)))"
  shows "untouched_or_resumable_or_complete E (step x) (step x') st (decoded net (docs cur)) (data (srv x)) (data (srv x'))"
proof -
  obtain e started rows n x1 where r:
    "restore_docs call net E st resuming has_marker (docs cur) False [] 0 x = (e, started, rows, n, x1)"
    by (metis prod_cases5)
  have "loop_inv E (step x) (step x) st (data (srv x)) resuming False [] (data (srv x))"
    using assms(3) by (simp add: loop_inv_def)
  from restore_docs_safe [OF assms(2) r this] assms(4)
  have safe: "if started then marked st ''restoring'' (data (srv x1)) else same_records (data (srv x)) (data (srv x1))"
    and fin: "e = None \<Longrightarrow> step x \<le> step x1 \<and> (\<exists>old. old @ rows = decoded net (docs cur) \<and>
      (\<forall>row \<in> set old. written E (step x) (step x1) row (data (srv x1))))" by auto
  show ?thesis
  proof (cases "e = None \<and> cursor_err cur = None \<and> started")
    case False
    then have "srv x' = srv x1"
      using assms(1) r by (auto simp: fill_from_def split: option.splits if_splits prod.splits dest: checkIdentity_srv)
    with safe show ?thesis by (auto simp: untouched_or_resumable_or_complete_def split: if_splits)
  next
    case True
    then obtain old where old: "old @ rows = decoded net (docs cur)"
      "\<forall>row \<in> set old. written E (step x) (step x1) row (data (srv x1))" "step x \<le> step x1" using fin by blast
    have f: "finish_restore call E st rows n x1 = (err, stats, x')" using assms(1) r True by (simp add: fill_from_def)
    have "marked st ''restoring'' (data (srv x1))" using safe True by simp
    from finish_restore_safe [OF f assms(2) this _ old(2,3)] assms(4) old(1) show ?thesis
      by (auto simp: untouched_or_resumable_or_complete_def)
  qed
qed

text \<open>A fill that returned without an error after seeing a row left everything in place.\<close>

lemma fill_from_complete:
  assumes "fill_from call net E st resuming has_marker cur x = (None, stats, x')" "plain (mongoSource st)"
    "resuming \<longrightarrow> marked st ''restoring'' (data (srv x))" "distinct (map rowURL (decoded net (docs cur)))"
    "docs cur \<noteq> []"
  shows "marked st ''complete'' (data (srv x')) \<and>
    (\<forall>row \<in> set (decoded net (docs cur)). written E (step x) (step x') row (data (srv x')))"
proof -
  obtain e started rows n x1 where r:
    "restore_docs call net E st resuming has_marker (docs cur) False [] 0 x = (e, started, rows, n, x1)"
    by (metis prod_cases5)
  have "loop_inv E (step x) (step x) st (data (srv x)) resuming False [] (data (srv x))"
    using assms(3) by (simp add: loop_inv_def)
  note safe = restore_docs_safe [OF assms(2) r this]
  have e: "e = None" "cursor_err cur = None"
    using assms(1) r by (auto simp: fill_from_def split: option.splits)
  have "started" using restore_docs_started [OF r [unfolded e(1)]] assms(5) by simp
  then have f: "finish_restore call E st rows n x1 = (None, stats, x')"
    using assms(1) r e by (simp add: fill_from_def)
  obtain old where old: "old @ rows = decoded net (docs cur)" "\<forall>row \<in> set old. written E (step x) (step x1) row (data (srv x1))"
    "step x \<le> step x1" using safe assms(4) e(1) by auto
  have "marked st ''restoring'' (data (srv x1))" using safe assms(4) \<open>started\<close> by auto
  from finish_restore_safe [OF f assms(2) this _ old(2,3)] assms(4) old(1) show ?thesis by auto
qed

end

section \<open>Properties\<close>

lemma saved_marker_st [simp]: "saved_marker (st\<lparr>startupComplete := b\<rparr>) r = saved_marker st r"
  by (cases r) (simp_all add: saved_marker_def split: option.split)

lemma marked_st [simp]: "marked (st\<lparr>startupComplete := b\<rparr>) p d \<longleftrightarrow> marked st p d"
  by (simp add: marked_def)

lemma outcome_later:
  "untouched_or_resumable_or_complete E i k st rows d d' \<Longrightarrow> i' \<le> i \<Longrightarrow> untouched_or_resumable_or_complete E i' k st rows d d'"
  unfolding untouched_or_resumable_or_complete_def using written_mono by blast

lemma same_records_st [simp]:
  "untouched_or_resumable_or_complete E i k (st\<lparr>startupComplete := b\<rparr>) rows d d' \<longleftrightarrow> untouched_or_resumable_or_complete E i k st rows d d'"
  by (simp add: untouched_or_resumable_or_complete_def)

lemma startup_choice_Fill:
  assumes "startup_choice (startup_of m d) = Fill resuming" "saved_marker st (marker_reply d) = Inr m"
  shows "work_count d = 0" "resuming \<longleftrightarrow> marked st ''restoring'' d" "\<not> resuming \<Longrightarrow> card (dom (listing_next d)) = 0"
  using assms
  by (auto simp: startup_choice_def startup_of_def in_phase_def marked_def Let_def split: if_splits option.splits)

context redis_server
begin

lemma Restore_cases:
  assumes "Restore call net E cur st x = (err, stats, st', x')"
  obtains "data (srv x') = data (srv x)"
  | m resuming x2 err' where "saved_marker st (marker_reply (data (srv x))) = Inr m"
      "startup_choice (startup_of m (data (srv x))) = Fill resuming" "data (srv x2) = data (srv x)" "step x \<le> step x2"
      "fill_from call net E (st\<lparr>startupComplete := False\<rparr>) resuming (m \<noteq> None) cur x2 = (err', stats, x')"
proof -
  let ?st = "st\<lparr>startupComplete := False\<rparr>"
  obtain a x1 where a: "checkIdentity E ?st x = (a, x1)" by fastforce
  obtain b x2 where b: "readStartupState call E ?st x1 = (b, x2)" by fastforce
  have d: "data (srv x1) = data (srv x)" "data (srv x2) = data (srv x)"
    using checkIdentity_srv [OF a] readStartupState_data [OF b] by simp_all
  show thesis
  proof (cases "a = None \<and> (\<exists>state resuming. b = Inr state \<and> startup_choice state = Fill resuming) \<and> find_err cur = None")
    case False
    then have "srv x' \<in> {srv x1, srv x2}"
      using assms a b
      by (auto simp: Restore_def Let_def split: option.splits sum.splits choice.splits prod.splits dest: checkIdentity_srv)
    with d show thesis by (auto intro: that(1))
  next
    case True
    then obtain state resuming where s: "b = Inr state" "startup_choice state = Fill resuming" by blast
    obtain m where m: "saved_marker st (marker_reply (data (srv x))) = Inr m" "state = startup_of m (data (srv x))"
      using readStartupState_ok [OF b [unfolded s(1)]] d(1) by auto
    obtain err' where "fill_from call net E ?st resuming (m \<noteq> None) cur x2 = (err', stats, x')"
      using assms a b True s m(2)
      by (auto simp: Restore_def Let_def startup_of_def split: prod.splits)
    moreover have "step x \<le> step x2" using checkIdentity_step [OF a] readStartupState_steps [OF b] by simp
    ultimately show thesis using that(2) m s(2) d(2) by blast
  qed
qed

end

section \<open>A sample restore\<close>

definition saved_rows :: "mongoCrawlRecord list" where
  "saved_rows =
     [\<lparr>rowURL = ''https://www.vidlii.com/videos'', Schema = 1, NextDue = Some 5000, Barren = 2, Quarantine = None\<rparr>,
      \<lparr>rowURL = ''https://www.vidlii.com/watch?v=a'', Schema = 1, NextDue = None, Barren = 0,
        Quarantine = Some \<lparr>Reason = ''not_found'', Until = 0\<rparr>\<rparr>]"

definition saved_cursor :: "go_error option \<Rightarrow> cursor" where
  "saved_cursor e = \<lparr>find_err = None, docs = map (\<lambda>row. Some (encode_row row)) saved_rows, cursor_err = e, close_err = None\<rparr>"

definition quiet :: "nat \<Rightarrow> step_env" where
  "quiet _ = \<lparr>ctx_err = None, info = Inr ''run_id:f00'', wire = call_at (100 * second)\<rparr>"

definition sample_store :: CrawlStateStore where
  "sample_store = \<lparr>redisRunID = ''f00'', startupComplete = False, mongoSource = ''crawler.crawler_state_v1''\<rparr>"

definition restored_from :: "go_error option \<Rightarrow> rstore \<Rightarrow> go_error option \<times> RestoreStats \<times> CrawlStateStore \<times> rstore session" where
  "restored_from e s = Restore store_call (go_url (\<lambda>_. None)) quiet (saved_cursor e) sample_store \<lparr>srv = s, step = 0\<rparr>"

lemma restored_from_split:
  "Restore store_call (go_url (\<lambda>_. None)) quiet (saved_cursor e) sample_store \<lparr>srv = s, step = 0\<rparr> =
   (fst (restored_from e s), fst (snd (restored_from e s)), fst (snd (snd (restored_from e s))), snd (snd (snd (restored_from e s))))"
  by (simp add: restored_from_def)

lemma sample_store_plain: "plain (mongoSource sample_store)"
  by code_simp

lemma saved_cursor_distinct: "distinct (map rowURL (decoded (go_url (\<lambda>_. None)) (docs (saved_cursor e))))"
proof -
  have "distinct (map rowURL (decoded (go_url (\<lambda>_. None)) (docs (saved_cursor None))))" by code_simp
  then show ?thesis by (simp add: saved_cursor_def)
qed

text \<open>C15: A restore may be interrupted anywhere. Whatever fails, and wherever the process dies, the listing
  schedule, the barren counters and the dead list are as they were, or the marker says that a restore
  is under way (so the next start fills them again from the first row), or the marker says complete
  and every row of the checkpoint is in Redis, as it is to be at the time the run wrote it.\<close>

theorem Restore_interruptible:
  assumes "redis_server call data" "plain (mongoSource st)" "distinct (map rowURL (decoded net (docs cur)))"
    "Restore call net E cur st x = (err, stats, st', x')"
  shows "untouched_or_resumable_or_complete E (step x) (step x') st (decoded net (docs cur)) (data (srv x)) (data (srv x'))"
proof (rule redis_server.Restore_cases [OF assms(1,4)])
  assume "data (srv x') = data (srv x)"
  then show ?thesis by (simp add: untouched_or_resumable_or_complete_def)
next
  fix m resuming x2 err'
  assume m: "saved_marker st (marker_reply (data (srv x))) = Inr m"
      "startup_choice (startup_of m (data (srv x))) = Fill resuming" "data (srv x2) = data (srv x)" "step x \<le> step x2"
    and f: "fill_from call net E (st\<lparr>startupComplete := False\<rparr>) resuming (m \<noteq> None) cur x2 = (err', stats, x')"
  have "resuming \<longrightarrow> marked (st\<lparr>startupComplete := False\<rparr>) ''restoring'' (data (srv x2))"
    using startup_choice_Fill(2) [OF m(2,1)] m(3) by simp
  from redis_server.fill_from_safe [OF assms(1) f _ this assms(3)] assms(2) m(3)
  have "untouched_or_resumable_or_complete E (step x2) (step x') st (decoded net (docs cur)) (data (srv x)) (data (srv x'))"
    by simp
  then show ?thesis using m(4) by (rule outcome_later)
qed

theorem Restore_interruptible_witness:
  "let r = restored_from (Some (OtherErr ''cursor lost'')) empty_store; d = store_data (srv (snd (snd (snd r))))
   in untouched_or_resumable_or_complete quiet 0 (step (snd (snd (snd r)))) sample_store (decoded (go_url (\<lambda>_. None)) (docs (saved_cursor (Some (OtherErr ''cursor lost'')))))
        (store_data empty_store) d \<and>
      fst r = Some (OtherErr ''cursor lost'') \<and> strs d keyCrawlStateRestore \<noteq> None"
proof -
  let ?e = "Some (OtherErr ''cursor lost'')"
  have "fst (restored_from ?e empty_store) = ?e"
    "strs (store_data (srv (snd (snd (snd (restored_from ?e empty_store)))))) keyCrawlStateRestore \<noteq> None"
    by code_simp+
  with Restore_interruptible [OF store.redis_server_axioms sample_store_plain saved_cursor_distinct
      restored_from_split [of ?e empty_store]]
  show ?thesis by (simp add: Let_def)
qed

text \<open>A restore leaves the frontier alone. It never changes a queue, a lease, a failure counter, the
  job counter or the Bloom filter, and where a listing schedule exists and no restore is under way it
  changes nothing at all; the same holds when jobs or failure counters exist.\<close>

theorem Restore_leaves_frontier:
  assumes "redis_server call data" "Restore call net E cur st x = (err, stats, st', x')"
  shows "same_work (data (srv x)) (data (srv x')) \<and>
    (listing_next (data (srv x)) \<noteq> Map.empty \<and> \<not> marked st ''restoring'' (data (srv x)) \<or>
     0 < work_count (data (srv x)) \<longrightarrow> data (srv x') = data (srv x))"
proof (intro conjI impI)
  show "same_work (data (srv x)) (data (srv x'))"
    by (rule redis_server.Restore_keeps [OF assms(1) restore_inv_same_work _ assms(2)]) simp
  assume nonempty: "listing_next (data (srv x)) \<noteq> Map.empty \<and> \<not> marked st ''restoring'' (data (srv x)) \<or>
     0 < work_count (data (srv x))"
  show "data (srv x') = data (srv x)"
  proof (rule redis_server.Restore_cases [OF assms])
    fix m resuming
    assume "saved_marker st (marker_reply (data (srv x))) = Inr m"
      "startup_choice (startup_of m (data (srv x))) = Fill resuming"
    with startup_choice_Fill nonempty redis_server.finite_zset [OF assms(1), of "srv x" keyListingNext]
    show ?thesis by fastforce
  qed
qed

theorem Restore_leaves_frontier_witness:
  "let s = replay [OAdmitVideo ''https://www.vidlii.com/watch?v=a'' 100];
       d = store_data (srv (snd (snd (snd (restored_from None s)))))
   in same_work (store_data s) d \<and>
      (listing_next (store_data s) \<noteq> Map.empty \<and> \<not> marked sample_store ''restoring'' (store_data s) \<or>
       0 < work_count (store_data s) \<longrightarrow> d = store_data s) \<and>
      fst (restored_from None s) \<noteq> None \<and> ready d = [''1|https://www.vidlii.com/watch?v=a'']"
proof -
  let ?s = "replay [OAdmitVideo ''https://www.vidlii.com/watch?v=a'' 100]"
  have "fst (restored_from None ?s) \<noteq> None"
    "ready (store_data (srv (snd (snd (snd (restored_from None ?s)))))) = [''1|https://www.vidlii.com/watch?v=a'']"
    by code_simp+
  with Restore_leaves_frontier [OF store.redis_server_axioms restored_from_split [of None ?s]]
  show ?thesis unfolding Let_def by simp
qed

end
