(* ===== verification/Crawl_Restore_Live.thy ===== *)
theory Crawl_Restore_Live
  imports Crawl_Restore_Safe
begin

text \<open>
  A restore that meets no failure finishes: on a reliable server, with a stable Redis identity and a readable
  checkpoint, every row is installed and the store may write checkpoints.
\<close>

section \<open>A run without failures\<close>

definition calm :: "(nat \<Rightarrow> step_env) \<Rightarrow> CrawlStateStore \<Rightarrow> bool" where
  "calm E st \<longleftrightarrow> (\<forall>i. ctx_err (E i) = None \<and> redisIdentity (info (E i)) = Inr (redisRunID st) \<and> delivered (wire (E i)))"

lemma checkIdentity_calm: "calm E st \<Longrightarrow> checkIdentity E st x = (None, x\<lparr>step := step x + 1\<rparr>)"
  by (simp add: calm_def checkIdentity_def Let_def)

lemma applicable_simple: "is_read c \<or> plain_write c \<Longrightarrow> redis_applicable c d"
  by (cases c) (auto simp: is_read_def)

context redis_reliable
begin

lemma tx_run_total:
  "\<forall>c \<in> set cmds. is_read c \<or> plain_write c \<Longrightarrow> \<exists>vs s'. tx_run call cmds s = (map Inr vs, s')"
proof (induction cmds arbitrary: s)
  case (Cons c cs)
  obtain v s1 where v: "call c s = (Inr v, s1)"
    using call_ok [OF applicable_simple, of c s] Cons.prems by auto
  obtain vs s2 where "tx_run call cs s1 = (map Inr vs, s2)" using Cons.IH [of s1] Cons.prems by auto
  with v show ?case by (intro exI [of _ "v # vs"]) simp
qed simp

lemma transact_calm:
  assumes "calm E st" "\<forall>c \<in> set cmds. is_read c \<or> plain_write c"
  obtains vs x' where "transact call E cmds x = (Inr vs, x')"
proof -
  obtain vs s' where "tx_run call cmds (srv x) = (map Inr vs, s')" using tx_run_total [OF assms(2)] by blast
  moreover have "delivered (wire (E (step x)))" using assms(1) by (simp add: calm_def)
  ultimately have "transact call E cmds x = (Inr vs, x\<lparr>srv := s', step := step x + 1\<rparr>)"
    by (simp add: transact_def tx_exec_def delivered_def replies_map)
  then show thesis by (rule that)
qed

lemma readStartupState_calm:
  assumes "calm E st" "saved_marker st (marker_reply (data (srv x))) = Inr m"
  obtains x' where "readStartupState call E st x = (Inr (startup_of m (data (srv x))), x')"
proof -
  have "\<forall>c \<in> set startup_cmds. is_read c \<or> plain_write c" using startup_reads by blast
  then obtain rs x' where t: "transact call E startup_cmds x = (Inr rs, x')"
    using transact_calm [OF assms(1)] by blast
  have "rs = map (\<lambda>c. the (read_reply c (data (srv x)))) startup_cmds"
    by (rule map_SomeD) (use transact_reads(2) [OF startup_reads t] in simp)
  then have "startup_state st rs = Inr (startup_of m (data (srv x)))"
    using assms(2)
    by (simp add: startup_state_def startup_cmds_def startup_of_def work_count_def marker_reply_def)
  with t that show thesis by (simp add: readStartupState_def)
qed

lemma checkRestoreBarrier_calm:
  assumes "calm E st" "marked st ''restoring'' (data (srv x))" "work_count (data (srv x)) = 0"
  obtains x' where "checkRestoreBarrier call E st x = (None, x')"
proof -
  let ?x1 = "x\<lparr>step := step x + 1\<rparr>"
  obtain m where m: "saved_marker st (marker_reply (data (srv ?x1))) = Inr (Some m)" "Phase m = map byte ''restoring''"
    using assms(2) by (auto simp: marked_def)
  obtain x2 where "readStartupState call E st ?x1 = (Inr (startup_of (Some m) (data (srv ?x1))), x2)"
    using readStartupState_calm [OF assms(1) m(1)] by blast
  with assms(3) m(2) that show thesis
    by (simp add: checkRestoreBarrier_def checkIdentity_calm [OF assms(1)] in_phase_def startup_of_def)
qed

lemma restoreBatch_calm:
  assumes "calm E st" "marked st ''restoring'' (data (srv x))" "work_count (data (srv x)) = 0"
  obtains x' where "restoreBatch call E st rows x = (None, x')"
proof -
  obtain x1 where b: "checkRestoreBarrier call E st x = (None, x1)"
    using checkRestoreBarrier_calm [OF assms] by blast
  let ?cmds = "concat (map (row_cmds (unix (clock (wire (E (step x1)))))) rows)"
  have "\<forall>c \<in> set ?cmds. is_read c \<or> plain_write c" using row_cmds_write by blast
  then obtain vs x2 where "transact call E ?cmds x1 = (Inr vs, x2)" using transact_calm [OF assms(1)] by blast
  with b that show thesis by (simp add: restoreBatch_def Let_def checkIdentity_calm [OF assms(1)])
qed

end

lemma same_work_count: "same_work d d' \<Longrightarrow> work_count d' = work_count d"
  by (simp add: same_work_def work_count_def)

text \<open>Ready to be filled: the marker is there, and no work.\<close>

definition filling :: "CrawlStateStore \<Rightarrow> keyspace \<Rightarrow> bool" where
  "filling st d \<longleftrightarrow> marked st ''restoring'' d \<and> work_count d = 0"

context redis_reliable
begin

lemma filling_batch:
  assumes "filling st (data (srv x))" "restoreBatch call E st rows x = (r, x')"
  shows "filling st (data (srv x'))"
  using assms restoreBatch_effect(1) [OF assms(2)] marked_cong
    restoreBatch_keeps [OF restore_inv_same_work _ assms(2), of "data (srv x)"] same_work_count
  by (simp add: filling_def)

lemma begin_restore_calm:
  assumes "calm E st" "plain (mongoSource st)" "work_count (data (srv x)) = 0"
    "saved_marker st (marker_reply (data (srv x))) = Inr m" "resuming \<longleftrightarrow> marked st ''restoring'' (data (srv x))"
  obtains x' where "begin_restore call E st resuming (m \<noteq> None) x = (None, x')" "filling st (data (srv x'))"
proof -
  let ?x1 = "x\<lparr>step := step x + 1\<rparr>"
  let ?w = "encodeRestoreMarker st ''restoring''"
  obtain vs x2 where set: "transact call E [SET keyCrawlStateRestore ?w] ?x1 = (Inr vs, x2)"
    by (rule transact_calm [OF assms(1)]) auto
  obtain ws x3 where nx: "transact call E [SETNX keyCrawlStateRestore ?w] ?x1 = (Inr ws, x3)"
    by (rule transact_calm [OF assms(1)]) auto
  have "ws = [RInt 1]" if "m = None"
  proof -
    have "strs (data (srv x)) keyCrawlStateRestore = None"
      using assms(4) that by (auto simp: saved_marker_def marker_reply_def split: option.splits if_splits)
    moreover have "delivered (wire (E (step ?x1)))" using assms(1) by (simp add: calm_def)
    ultimately show ?thesis
      using nx call_reply [of "SETNX keyCrawlStateRestore ?w" "srv x"]
      by (auto simp: transact_def tx_exec_def delivered_def replies_Inr split: prod.splits sum.splits)
  qed
  then have "\<exists>x'. begin_restore call E st resuming (m \<noteq> None) x = (None, x')"
    using set nx by (cases m) (auto simp: begin_restore_def checkIdentity_calm [OF assms(1)])
  then obtain x' where x': "begin_restore call E st resuming (m \<noteq> None) x = (None, x')" by blast
  have "marked st ''restoring'' (data (srv x'))"
    using begin_restore_ok [OF x' assms(2)] assms(5) by simp
  moreover have "work_count (data (srv x')) = 0"
    using begin_restore_keeps [OF restore_inv_same_work _ x', of "data (srv x)"] same_work_count assms(3) by simp
  ultimately show thesis using that x' by (simp add: filling_def)
qed

lemma restore_docs_calm:
  assumes "calm E st"
  shows "filling st (data (srv x)) \<Longrightarrow> \<forall>doc \<in> set ds. \<not> isl (decodeMongoCrawlRecord net doc) \<Longrightarrow>
    \<exists>rows' n' x'. restore_docs call net E st resuming has_marker ds True rows n x = (None, True, rows', n', x') \<and>
      filling st (data (srv x')) \<and> n' + int (length rows') = n + int (length rows + length ds)"
proof (induction ds arbitrary: rows n x)
  case (Cons doc ds)
  obtain row where row: "decodeMongoCrawlRecord net doc = Inr row" using Cons.prems(2) by (auto simp: isl_def) (metis sum.exhaust)
  show ?case
  proof (cases "length (rows @ [row]) = crawlStateBatchSize")
    case False
    with Cons.IH [OF Cons.prems(1), of "rows @ [row]" n] Cons.prems(2) row show ?thesis by (simp add: Let_def add.assoc)
  next
    case True
    obtain x2 where b: "restoreBatch call E st (rows @ [row]) x = (None, x2)"
      using restoreBatch_calm [OF assms] Cons.prems(1) by (auto simp: filling_def)
    with Cons.IH [OF filling_batch [OF Cons.prems(1) b], of "[]" "n + int crawlStateBatchSize"] Cons.prems(2) row True
    show ?thesis by (auto simp: Let_def simp flip: True)
  qed
qed simp

lemma finish_restore_calm:
  assumes "calm E st" "filling st (data (srv x))"
  shows "\<exists>x'. finish_restore call E st rows n x = (None, \<lparr>Mode = ''restored'', Rows = n + int (length rows)\<rparr>, x')"
proof -
  obtain x1 where b: "(if rows = [] then (None, x) else restoreBatch call E st rows x) = (None, x1)"
    "filling st (data (srv x1))"
  proof (cases "rows = []")
    case False
    obtain x1 where "restoreBatch call E st rows x = (None, x1)"
      using restoreBatch_calm [OF assms(1)] assms(2) by (auto simp: filling_def)
    with False filling_batch [OF assms(2)] that show thesis by auto
  qed (use assms(2) that in auto)
  obtain x2 where k: "checkRestoreBarrier call E st x1 = (None, x2)"
    using checkRestoreBarrier_calm [OF assms(1)] b(2) by (auto simp: filling_def)
  obtain vs x3 where t: "transact call E [SET keyCrawlStateRestore (encodeRestoreMarker st ''complete'')] x2 = (Inr vs, x3)"
    by (rule transact_calm [OF assms(1)]) auto
  show ?thesis
    using b(1) k t by (simp add: finish_restore_def Let_def checkIdentity_calm [OF assms(1)] split: prod.splits if_splits)
qed

lemma fill_from_calm:
  assumes "calm E st" "plain (mongoSource st)" "work_count (data (srv x)) = 0"
    "saved_marker st (marker_reply (data (srv x))) = Inr m" "resuming \<longleftrightarrow> marked st ''restoring'' (data (srv x))"
    "docs cur \<noteq> []" "\<forall>doc \<in> set (docs cur). \<not> isl (decodeMongoCrawlRecord net doc)" "cursor_err cur = None"
  shows "\<exists>x'. fill_from call net E st resuming (m \<noteq> None) cur x =
    (None, \<lparr>Mode = ''restored'', Rows = int (length (docs cur))\<rparr>, x')"
proof -
  obtain doc ds where ds: "docs cur = doc # ds" using assms(6) by (cases "docs cur") auto
  obtain x1 where b: "begin_restore call E st resuming (m \<noteq> None) x = (None, x1)" "filling st (data (srv x1))"
    using begin_restore_calm [OF assms(1-5)] by blast
  have "restore_docs call net E st resuming (m \<noteq> None) (docs cur) False [] 0 x =
      restore_docs call net E st resuming (m \<noteq> None) (docs cur) True [] 0 x1"
    by (simp add: ds b(1) del: not_None_eq)
  with restore_docs_calm [OF assms(1) b(2) assms(7), of resuming "m \<noteq> None" "[]" 0]
  obtain rows n x2 where r: "restore_docs call net E st resuming (m \<noteq> None) (docs cur) False [] 0 x = (None, True, rows, n, x2)"
    "filling st (data (srv x2))" "n + int (length rows) = int (length (docs cur))"
    by auto
  from finish_restore_calm [OF assms(1) r(2), of rows n] r assms(8) show ?thesis
    by (simp add: fill_from_def)
qed

end

lemma calm_st [simp]: "calm E (st\<lparr>startupComplete := b\<rparr>) \<longleftrightarrow> calm E st"
  by (simp add: calm_def)

lemma Restore_fills:
  assumes "redis_reliable call data" "calm E st" "plain (mongoSource st)"
    "saved_marker st (marker_reply (data (srv x))) = Inr m"
    "startup_choice (startup_of m (data (srv x))) = Fill resuming"
    "find_err cur = None" "cursor_err cur = None" "close_err cur = None"
    "docs cur \<noteq> []" "\<forall>doc \<in> set (docs cur). \<not> isl (decodeMongoCrawlRecord net doc)"
    "distinct (map rowURL (decoded net (docs cur)))"
  shows "\<exists>x'. Restore call net E cur st x =
      (None, \<lparr>Mode = ''restored'', Rows = int (length (docs cur))\<rparr>, st\<lparr>startupComplete := True\<rparr>, x') \<and>
    marked st ''complete'' (data (srv x')) \<and> (\<forall>row \<in> set (decoded net (docs cur)). written E (step x) (step x') row (data (srv x')))"
proof -
  let ?st = "st\<lparr>startupComplete := False\<rparr>"
  let ?x1 = "x\<lparr>step := step x + 1\<rparr>"
  have rs: "redis_server call data" using assms(1) by (simp add: redis_reliable_def)
  have c: "calm E ?st" using assms(2) by simp
  obtain x2 where r: "readStartupState call E ?st ?x1 = (Inr (startup_of m (data (srv x))), x2)"
    using redis_reliable.readStartupState_calm [OF assms(1) c, of ?x1 m] assms(4) by auto
  have d2: "data (srv x2) = data (srv x)" using redis_server.readStartupState_data [OF rs r] by simp
  note choice = startup_choice_Fill [OF assms(5,4)]
  obtain x3 where f: "fill_from call net E ?st resuming (m \<noteq> None) cur x2 =
      (None, \<lparr>Mode = ''restored'', Rows = int (length (docs cur))\<rparr>, x3)"
    using redis_reliable.fill_from_calm [OF assms(1) c, of x2 m resuming cur net] assms choice d2 by auto
  have "Restore call net E cur st x =
      (None, \<lparr>Mode = ''restored'', Rows = int (length (docs cur))\<rparr>, st\<lparr>startupComplete := True\<rparr>, x3)"
    using f r [simplified] assms(5,6,8)
    by (simp add: Restore_def Let_def checkIdentity_calm [OF c]) (simp add: startup_of_def)
  moreover have "marked st ''complete'' (data (srv x3)) \<and>
      (\<forall>row \<in> set (decoded net (docs cur)). written E (step x2) (step x3) row (data (srv x3)))"
    using redis_server.fill_from_complete [OF rs f] assms choice d2 by simp
  moreover have "step x \<le> step x2" using readStartupState_steps [OF r] by simp
  ultimately show ?thesis using written_mono by blast
qed

text \<open>C16: A restore that meets no failure completes. On a Redis without jobs and without records, or with
  an unfinished restore, it writes every row of a readable checkpoint as it is to be at a second its clock showed in
  one of its steps, marks itself complete, reports the rows and allows checkpoints from then on.\<close>

theorem Restore_completes:
  assumes "redis_reliable call data" "calm E st" "plain (mongoSource st)"
    "saved_marker st (marker_reply (data (srv x))) = Inr m"
    "startup_choice (startup_of m (data (srv x))) = Fill resuming"
    "find_err cur = None" "cursor_err cur = None" "close_err cur = None"
    "docs cur \<noteq> []" "\<forall>doc \<in> set (docs cur). \<not> isl (decodeMongoCrawlRecord net doc)"
    "distinct (map rowURL (decoded net (docs cur)))"
  shows "\<exists>x'. Restore call net E cur st x =
      (None, \<lparr>Mode = ''restored'', Rows = int (length (docs cur))\<rparr>, st\<lparr>startupComplete := True\<rparr>, x') \<and>
    marked st ''complete'' (data (srv x')) \<and> (\<forall>row \<in> set (decoded net (docs cur)). written E (step x) (step x') row (data (srv x')))"
  by (rule Restore_fills [OF assms])

lemma quiet_calm: "calm quiet sample_store"
proof -
  have "redisIdentity (info (quiet 0)) = Inr (redisRunID sample_store)" by code_simp
  then show ?thesis by (simp add: calm_def quiet_def delivered_def call_at_def)
qed

theorem Restore_completes_witness:
  "let net = go_url (\<lambda>_. None); cur = saved_cursor None
   in (\<exists>x'. Restore store_call net quiet cur sample_store \<lparr>srv = empty_store, step = 0\<rparr> =
        (None, \<lparr>Mode = ''restored'', Rows = int (length (docs cur))\<rparr>, sample_store\<lparr>startupComplete := True\<rparr>, x') \<and>
      marked sample_store ''complete'' (store_data (srv x')) \<and>
      (\<forall>row \<in> set (decoded net (docs cur)). written quiet 0 (step x') row (store_data (srv x')))) \<and>
     decoded net (docs cur) = saved_rows"
  unfolding Let_def
proof (intro conjI)
  let ?x = "\<lparr>srv = empty_store, step = 0\<rparr>" and ?net = "go_url (\<lambda>_. None)"
  show "decoded ?net (docs (saved_cursor None)) = saved_rows" by code_simp
  have m: "saved_marker sample_store (marker_reply (store_data empty_store)) = Inr None"
    "startup_choice (startup_of None (store_data empty_store)) = Fill False"
    by (simp_all add: marker_reply_def saved_marker_def startup_of_def startup_choice_def in_phase_def work_count_def
        store_data_def empty_store_def)
  have docs: "docs (saved_cursor None) \<noteq> []" "\<forall>doc \<in> set (docs (saved_cursor None)). \<not> isl (decodeMongoCrawlRecord ?net doc)"
    by code_simp+
  show "\<exists>x'. Restore store_call ?net quiet (saved_cursor None) sample_store ?x =
        (None, \<lparr>Mode = ''restored'', Rows = int (length (docs (saved_cursor None)))\<rparr>, sample_store\<lparr>startupComplete := True\<rparr>, x') \<and>
      marked sample_store ''complete'' (store_data (srv x')) \<and>
      (\<forall>row \<in> set (decoded ?net (docs (saved_cursor None))). written quiet 0 (step x') row (store_data (srv x')))"
    by (rule Restore_completes [OF store.redis_reliable_axioms quiet_calm sample_store_plain, of ?x, simplified session.simps,
          OF m _ _ _ docs saved_cursor_distinct]) (simp_all add: saved_cursor_def)
qed

end
