(* ===== verification/Crawl_Checkpoint.thy ===== *)
theory Crawl_Checkpoint
  imports Crawl_Restore_Live
begin

text \<open>
  Saving the crawl state, \<open>Checkpoint\<close> of \<open>src/internal/storage/crawl_state.go\<close>: the scans over the three
  collections, the batches, the transactional reads and the ordered bulk writes to Mongo. A pass is
  run on what it observed: for each collection the replies of the scan up to cursor zero, and for each
  batch what other clients did to Redis before it and how its bulk write fared. \<open>None\<close> means that the
  observed replies ended before a cursor did.
\<close>

record CheckpointStats =
  Observed :: int
  Batches :: int
  Upserted :: int
  Modified :: int

text \<open>The checkpoint collection, by \<open>_id\<close>.\<close>

type_synonym coll = "url \<rightharpoonup> mongoCrawlRecord"

text \<open>What one batch meets: the workers write to Redis while a pass runs, and an ordered bulk write that
  fails has applied a prefix of its writes; its result may be missing.\<close>

record 's bulk_env =
  meanwhile :: "'s \<Rightarrow> 's"
  applied :: nat
  bulk_err :: "go_error option"
  no_result :: bool

definition replace_one :: "mongoCrawlRecord \<Rightarrow> coll \<Rightarrow> coll" where
  "replace_one row c = c(rowURL row \<mapsto> row)"

fun write_counts :: "mongoCrawlRecord list \<Rightarrow> coll \<Rightarrow> int \<times> int" where
  "write_counts [] c = (0, 0)"
| "write_counts (row # rows) c =
     (let (ups, mods) = write_counts rows (replace_one row c)
      in case c (rowURL row) of
           None \<Rightarrow> (ups + 1, mods)
         | Some old \<Rightarrow> (ups, if old = row then mods else mods + 1))"

definition BulkWrite :: "'s bulk_env \<Rightarrow> mongoCrawlRecord list \<Rightarrow> coll \<Rightarrow> (int \<times> int) option \<times> go_error option \<times> coll" where
  "BulkWrite e rows c =
     (let written = (case bulk_err e of None \<Rightarrow> rows | Some _ \<Rightarrow> take (applied e) rows)
      in (if no_result e then None else Some (write_counts written c), bulk_err e, fold replace_one written c))"

section \<open>Batches\<close>

fun evens :: "'a list \<Rightarrow> 'a list" where
  "evens (a # b # xs) = a # evens xs"
| "evens _ = []"

fun unseen :: "url list \<Rightarrow> url list \<Rightarrow> url list" where
  "unseen seen [] = []"
| "unseen seen (u # us) = (if u \<in> set seen then unseen seen us else u # unseen (u # seen) us)"

function page_batches :: "string list \<Rightarrow> url list list" where
  "page_batches pairs =
     (if pairs = [] then []
      else unseen [] (evens (take (2 * crawlStateBatchSize) pairs)) # page_batches (drop (2 * crawlStateBatchSize) pairs))"
  by auto
termination
  by (relation "measure length") (auto simp: crawlStateBatchSize_def)

declare page_batches.simps [simp del]

record 'e pass_state =
  cstats :: CheckpointStats
  coll :: coll
  sess :: 'e

text \<open>The batches of one reply; \<open>es\<close> is how their bulk writes fare.\<close>

fun checkpoint_batches :: "'s server \<Rightarrow> net_url \<Rightarrow> (nat \<Rightarrow> step_env) \<Rightarrow> CrawlStateStore \<Rightarrow> (nat \<Rightarrow> 's bulk_env) \<Rightarrow> url list list \<Rightarrow>
    's session pass_state \<Rightarrow> go_error option \<times> 's session pass_state" where
  "checkpoint_batches call net E st es [] p = (None, p)"
| "checkpoint_batches call net E st es (urls # rest) p =
     (case readRedisCrawlRecords call net E st urls ((sess p)\<lparr>srv := meanwhile (es 0) (srv (sess p))\<rparr>) of
        (Inl err, x) \<Rightarrow> (Some err, p\<lparr>sess := x\<rparr>)
      | (Inr rows, x) \<Rightarrow>
          (case BulkWrite (es 0) rows (coll p) of
             (result, err, c) \<Rightarrow>
               (let s1 = (cstats p)\<lparr>Observed := Observed (cstats p) + int (length rows)\<rparr>;
                    s2 = (case result of None \<Rightarrow> s1
                          | Some (ups, mods) \<Rightarrow> s1\<lparr>Upserted := Upserted s1 + ups, Modified := Modified s1 + mods\<rparr>)
                in case err of
                     Some e \<Rightarrow> (Some e, p\<lparr>cstats := s2, coll := c, sess := x\<rparr>)
                   | None \<Rightarrow> checkpoint_batches call net E st (\<lambda>i. es (Suc i)) rest
                       (p\<lparr>cstats := s2\<lparr>Batches := Batches s2 + 1\<rparr>, coll := c, sess := x\<rparr>))))"

section \<open>Scans\<close>

text \<open>One turn of a scan: the context, the reply (keys and values in turn, and the next cursor), and the
  bulk writes.\<close>

record 's scan_page =
  scan_ctx :: "go_error option"
  scan_reply :: "go_error + string list \<times> nat"
  bulks :: "nat \<Rightarrow> 's bulk_env"

fun checkpoint_scan :: "'s server \<Rightarrow> net_url \<Rightarrow> (nat \<Rightarrow> step_env) \<Rightarrow> CrawlStateStore \<Rightarrow> 's scan_page list \<Rightarrow>
    's session pass_state \<Rightarrow> (go_error option \<times> 's session pass_state) option" where
  "checkpoint_scan call net E st [] p = None"
| "checkpoint_scan call net E st (page # pages) p =
     (case scan_ctx page of
        Some err \<Rightarrow> Some (Some err, p)
      | None \<Rightarrow> (case scan_reply page of
          Inl err \<Rightarrow> Some (Some err, p)
        | Inr (pairs, next) \<Rightarrow>
            if odd (length pairs) then Some (Some (crawl_error ''malformed scan reply''), p)
            else (case checkpoint_batches call net E st (bulks page) (page_batches pairs) p of
                (Some err, p') \<Rightarrow> Some (Some err, p')
              | (None, p') \<Rightarrow> if next = 0 then Some (None, p') else checkpoint_scan call net E st pages p')))"

fun checkpoint_scans :: "'s server \<Rightarrow> net_url \<Rightarrow> (nat \<Rightarrow> step_env) \<Rightarrow> CrawlStateStore \<Rightarrow> 's scan_page list list \<Rightarrow>
    's session pass_state \<Rightarrow> (go_error option \<times> 's session pass_state) option" where
  "checkpoint_scans call net E st [] p = Some (None, p)"
| "checkpoint_scans call net E st (pages # rest) p =
     (case checkpoint_scan call net E st pages p of
        None \<Rightarrow> None
      | Some (Some err, p') \<Rightarrow> Some (Some err, p')
      | Some (None, p') \<Rightarrow> checkpoint_scans call net E st rest p')"

definition no_stats :: CheckpointStats where
  "no_stats = \<lparr>Observed = 0, Batches = 0, Upserted = 0, Modified = 0\<rparr>"

text \<open>The three scans are those of the listing schedule, the barren counters and the dead list.\<close>

definition Checkpoint :: "'s server \<Rightarrow> net_url \<Rightarrow> (nat \<Rightarrow> step_env) \<Rightarrow> CrawlStateStore \<Rightarrow>
    's scan_page list \<Rightarrow> 's scan_page list \<Rightarrow> 's scan_page list \<Rightarrow> coll \<Rightarrow> 's session \<Rightarrow>
    (go_error option \<times> 's session pass_state) option" where
  "Checkpoint call net E st next_pages barren_pages dead_pages c x =
     (let p = \<lparr>cstats = no_stats, coll = c, sess = x\<rparr>
      in if \<not> startupComplete st
         then Some (Some (crawl_error ''successful startup Restore is required before checkpointing''), p)
         else case checkIdentity E st x of
           (Some err, x1) \<Rightarrow> Some (Some err, p\<lparr>sess := x1\<rparr>)
         | (None, x1) \<Rightarrow>
             (case checkpoint_scans call net E st [next_pages, barren_pages, dead_pages] (p\<lparr>sess := x1\<rparr>) of
                None \<Rightarrow> None
              | Some (Some err, p') \<Rightarrow> Some (Some err, p')
              | Some (None, p') \<Rightarrow> (case checkIdentity E st (sess p') of (err, x2) \<Rightarrow> Some (err, p'\<lparr>sess := x2\<rparr>))))"

end
