(* ===== verification/Crawl_Roundtrip.thy ===== *)
theory Crawl_Roundtrip
  imports Crawl_Checkpoint
begin

text \<open>
  The checkpoint as a round trip. A row is written to Mongo and decoded back, strictly; a row read from
  Redis and written back at a later time blocks, counts and schedules its URL as before.
\<close>

section \<open>Documents\<close>

text \<open>Documents that agree up to the order of their fields.\<close>

definition same_fields :: "(string \<times> 'b) list \<Rightarrow> (string \<times> 'b) list \<Rightarrow> bool" where
  "same_fields es fs \<longleftrightarrow> distinct (map fst es) \<and> map_of es = map_of fs"

fun same_bson :: "bson \<Rightarrow> bson \<Rightarrow> bool" where
  "same_bson (BDoc (Some es)) (BDoc (Some fs)) \<longleftrightarrow> same_fields es fs"
| "same_bson a b \<longleftrightarrow> a = b"

lemma take_fields_iff: "take_fields names ks \<longleftrightarrow> distinct ks \<and> set ks \<subseteq> set names"
  by (induction names ks rule: take_fields.induct) auto

lemma validateMongoFields_None:
  assumes "distinct names"
  shows "validateMongoFields raw names = None \<longleftrightarrow> (\<exists>es. raw = Some es \<and> distinct (map fst es) \<and> fst ` set es = set names)"
proof -
  have "length es = length names \<and> distinct (map fst es) \<and> fst ` set es \<subseteq> set names \<longleftrightarrow>
      distinct (map fst es) \<and> fst ` set es = set names" for es :: "(string \<times> bson) list"
  proof
    assume a: "length es = length names \<and> distinct (map fst es) \<and> fst ` set es \<subseteq> set names"
    then have "card (fst ` set es) = card (set names)"
      using assms by (metis distinct_card length_map list.set_map)
    with a show "distinct (map fst es) \<and> fst ` set es = set names" by (simp add: card_subset_eq)
  next
    assume "distinct (map fst es) \<and> fst ` set es = set names"
    then show "length es = length names \<and> distinct (map fst es) \<and> fst ` set es \<subseteq> set names"
      using assms by (metis distinct_card length_map list.set_map order_refl)
  qed
  then show ?thesis
    by (auto simp: validateMongoFields_def take_fields_iff split: option.splits)
qed

lemma map_of_fields:
  assumes "fst ` set es = set names" "\<And>k. k \<in> set names \<Longrightarrow> map_of es k = map_of fs k" "fst ` set fs = set names"
  shows "map_of es = map_of fs"
proof
  fix k
  show "map_of es k = map_of fs k"
  proof (cases "k \<in> set names")
    case False
    with assms(1,3) have "map_of es k = None" "map_of fs k = None" by (auto simp: map_of_eq_None_iff)
    then show ?thesis by simp
  qed (rule assms(2))
qed

definition dead_fields :: "mongoDeadRecord \<Rightarrow> (string \<times> bson) list" where
  "dead_fields q = [(''reason'', BString (Reason q)), (''until'', BInt64 (Until q))]"

lemma dead_doc_Inr: "dead_doc doc = Inr q \<longleftrightarrow> (\<exists>es. doc = Some es \<and> same_fields es (dead_fields q))"
proof
  assume d: "dead_doc doc = Inr q"
  then have "validateMongoFields doc [''reason'', ''until''] = None"
    by (simp add: dead_doc_def split: option.splits)
  then obtain es where es: "doc = Some es" "distinct (map fst es)" "fst ` set es = set [''reason'', ''until'']"
    by (auto simp: validateMongoFields_None)
  from d es(1) have "map_of es ''reason'' = Some (BString (Reason q))" "map_of es ''until'' = Some (BInt64 (Until q))"
    by (auto simp: dead_doc_def Lookup_def split: option.splits bson.splits)
  then have "map_of es = map_of (dead_fields q)"
    by (intro map_of_fields [OF es(3)]) (auto simp: dead_fields_def)
  with es show "\<exists>es. doc = Some es \<and> same_fields es (dead_fields q)" by (simp add: same_fields_def)
next
  assume "\<exists>es. doc = Some es \<and> same_fields es (dead_fields q)"
  then obtain es where es: "doc = Some es" "distinct (map fst es)" "map_of es = map_of (dead_fields q)"
    by (auto simp: same_fields_def)
  then have "dom (map_of es) = {''reason'', ''until''}" by (auto simp: dead_fields_def split: if_splits)
  then have "validateMongoFields doc [''reason'', ''until''] = None"
    using es(1,2) by (simp add: validateMongoFields_None dom_map_of_conv_image_fst)
  with es show "dead_doc doc = Inr q" by (simp add: dead_doc_def Lookup_def dead_fields_def)
qed

definition next_value :: "int option \<Rightarrow> bson" where
  "next_value nx = (case nx of None \<Rightarrow> BNull | Some n \<Rightarrow> BInt64 n)"

definition dead_value :: "mongoDeadRecord option \<Rightarrow> bson" where
  "dead_value q = (case q of None \<Rightarrow> BNull | Some q \<Rightarrow> BDoc (Some (dead_fields q)))"

lemma next_due_of_Inr: "next_due_of v = Inr nx \<longleftrightarrow> v = Some (next_value nx)"
  by (cases nx) (auto simp: next_due_of_def next_value_def split: option.splits bson.splits)

lemma dead_of_Inr: "dead_of v = Inr q \<longleftrightarrow> (\<exists>w. v = Some w \<and> same_bson w (dead_value q))"
proof (cases v)
  case (Some w)
  show ?thesis
  proof (cases w)
    case (BDoc doc)
    with Some have "dead_of v = Inr q \<longleftrightarrow> (\<exists>q'. q = Some q' \<and> dead_doc doc = Inr q')"
      by (auto simp: dead_of_def split: sum.splits)
    with Some BDoc show ?thesis
      by (cases q; cases doc) (simp_all add: dead_doc_Inr dead_value_def)
  qed (use Some in \<open>cases q; simp add: dead_of_def dead_value_def\<close>)+
qed (simp add: dead_of_def)

lemma encode_row_fields:
  "encode_row row = [(''_id'', BString (rowURL row)), (''schema'', BInt32 (Schema row)), (''next_due'', next_value (NextDue row)),
     (''barren'', BInt64 (Barren row)), (''dead'', dead_value (Quarantine row))]"
  by (simp add: encode_row_def next_value_def dead_value_def dead_fields_def split: option.split)

lemma decode_Inr:
  "decodeMongoCrawlRecord net raw = Inr row \<longleftrightarrow>
     validate net row = None \<and> validateMongoFields raw [''_id'', ''schema'', ''next_due'', ''barren'', ''dead''] = None \<and>
     Lookup raw ''_id'' = Some (BString (rowURL row)) \<and> Lookup raw ''schema'' = Some (BInt32 (Schema row)) \<and>
     Lookup raw ''barren'' = Some (BInt64 (Barren row)) \<and> Lookup raw ''next_due'' = Some (next_value (NextDue row)) \<and>
     (\<exists>w. Lookup raw ''dead'' = Some w \<and> same_bson w (dead_value (Quarantine row)))"
    (is "?l \<longleftrightarrow> ?r")
proof
  assume l: ?l
  then obtain u sch b where f: "validateMongoFields raw [''_id'', ''schema'', ''next_due'', ''barren'', ''dead''] = None"
    "Lookup raw ''_id'' = Some (BString u)" "Lookup raw ''schema'' = Some (BInt32 sch)" "Lookup raw ''barren'' = Some (BInt64 b)"
    by (auto simp: decodeMongoCrawlRecord_def split: option.splits bson.splits)
  from l f obtain nx q where g: "next_due_of (Lookup raw ''next_due'') = Inr nx" "dead_of (Lookup raw ''dead'') = Inr q"
    "row = \<lparr>rowURL = u, Schema = sch, NextDue = nx, Barren = b, Quarantine = q\<rparr>" "validate net row = None"
    by (auto simp: decodeMongoCrawlRecord_def Let_def split: sum.splits option.splits)
  with f show ?r by (simp add: next_due_of_Inr dead_of_Inr)
next
  assume r: ?r
  then have "next_due_of (Lookup raw ''next_due'') = Inr (NextDue row)" "dead_of (Lookup raw ''dead'') = Inr (Quarantine row)"
    by (simp_all add: next_due_of_Inr dead_of_Inr)
  with r show ?l by (cases row) (simp add: decodeMongoCrawlRecord_def)
qed

lemma same_scalar:
  "same_bson w (BString t) \<longleftrightarrow> w = BString t" "same_bson w (BInt32 i) \<longleftrightarrow> w = BInt32 i"
  "same_bson w (BInt64 i) \<longleftrightarrow> w = BInt64 i" "same_bson w (next_value nx) \<longleftrightarrow> w = next_value nx"
  by (cases w; cases nx; simp add: next_value_def)+

lemma same_dead_value: "same_bson (dead_value q) (dead_value q)"
  by (cases q) (simp_all add: dead_value_def same_fields_def dead_fields_def)

lemma row_field_names: "distinct [''_id'', ''schema'', ''next_due'', ''barren'', ''dead'']"
  by code_simp

lemma encode_row_keys: "fst ` set (encode_row row) = set [''_id'', ''schema'', ''next_due'', ''barren'', ''dead'']"
  by (simp add: encode_row_fields)

lemma decode_encode: "validate net row = None \<Longrightarrow> decodeMongoCrawlRecord net (Some (encode_row row)) = Inr row"
  unfolding decode_Inr validateMongoFields_None [OF row_field_names]
  by (simp add: encode_row_keys Lookup_def) (simp add: encode_row_fields same_dead_value)

text \<open>C18: Checkpoint documents are decoded strictly. A document decodes to a row exactly when the row is valid
  and the document has the five fields the row is written with, each once, in any order, with the types
  they are written with; the entry of a quarantine likewise. In particular what was written is read back.\<close>

theorem decode_strict:
  "(decodeMongoCrawlRecord net raw = Inr row \<longleftrightarrow>
      validate net row = None \<and>
      (\<exists>es. raw = Some es \<and> distinct (map fst es) \<and> fst ` set es = fst ` set (encode_row row) \<and>
        (\<forall>(k, v) \<in> set (encode_row row). \<exists>w. map_of es k = Some w \<and> same_bson w v))) \<and>
   (validate net row = None \<longrightarrow> decodeMongoCrawlRecord net (Some (encode_row row)) = Inr row)"
proof
  have fields: "(\<forall>(k, v) \<in> set (encode_row row). \<exists>w. map_of es k = Some w \<and> same_bson w v) \<longleftrightarrow>
      map_of es ''_id'' = Some (BString (rowURL row)) \<and> map_of es ''schema'' = Some (BInt32 (Schema row)) \<and>
      map_of es ''barren'' = Some (BInt64 (Barren row)) \<and> map_of es ''next_due'' = Some (next_value (NextDue row)) \<and>
      (\<exists>w. map_of es ''dead'' = Some w \<and> same_bson w (dead_value (Quarantine row)))" for es
    by (auto simp: encode_row_fields same_scalar)
  show "decodeMongoCrawlRecord net raw = Inr row \<longleftrightarrow>
      validate net row = None \<and>
      (\<exists>es. raw = Some es \<and> distinct (map fst es) \<and> fst ` set es = fst ` set (encode_row row) \<and>
        (\<forall>(k, v) \<in> set (encode_row row). \<exists>w. map_of es k = Some w \<and> same_bson w v))"
    unfolding decode_Inr validateMongoFields_None [OF row_field_names] fields encode_row_keys
    by (cases raw) (simp_all add: Lookup_def conj_ac)
  show "validate net row = None \<longrightarrow> decodeMongoCrawlRecord net (Some (encode_row row)) = Inr row"
    by (simp add: decode_encode)
qed

theorem decode_strict_witness:
  "let net = go_url (\<lambda>_. None); row = hd saved_rows; raw = Some (rev (encode_row row))
   in ((decodeMongoCrawlRecord net raw = Inr row \<longleftrightarrow>
          validate net row = None \<and>
          (\<exists>es. raw = Some es \<and> distinct (map fst es) \<and> fst ` set es = fst ` set (encode_row row) \<and>
            (\<forall>(k, v) \<in> set (encode_row row). \<exists>w. map_of es k = Some w \<and> same_bson w v))) \<and>
       (validate net row = None \<longrightarrow> decodeMongoCrawlRecord net (Some (encode_row row)) = Inr row)) \<and>
      validate net row = None \<and> decodeMongoCrawlRecord net raw = Inr row \<and>
      isl (decodeMongoCrawlRecord net (Some (tl (encode_row row))))"
  unfolding Let_def
proof (rule conjI [OF decode_strict], intro conjI)
  show "validate (go_url (\<lambda>_. None)) (hd saved_rows) = None" by code_simp
  show "decodeMongoCrawlRecord (go_url (\<lambda>_. None)) (Some (rev (encode_row (hd saved_rows)))) = Inr (hd saved_rows)" by code_simp
  show "isl (decodeMongoCrawlRecord (go_url (\<lambda>_. None)) (Some (tl (encode_row (hd saved_rows)))))" by code_simp
qed

section \<open>Rows\<close>

text \<open>The row that reading a URL gives in a state of Redis.\<close>

definition row_of :: "net_url \<Rightarrow> url \<Rightarrow> keyspace \<Rightarrow> go_error + mongoCrawlRecord" where
  "row_of net u d =
     read_row net u (case listing_next d u of None \<Rightarrow> RNil | Some sc \<Rightarrow> RStr (show_int sc))
       (case barren d u of None \<Rightarrow> RNil | Some w \<Rightarrow> RStr w) (case dead d u of None \<Rightarrow> RNil | Some w \<Rightarrow> RStr w)"

definition quarantine :: "keyspace \<Rightarrow> url \<Rightarrow> int option" where
  "quarantine d u = Option.bind (dead d u) until_of"

lemma blocked_quarantine: "blocked d u t \<longleftrightarrow> (\<exists>q. quarantine d u = Some q \<and> (q = 0 \<or> t < q))"
  by (auto simp: blocked_def quarantine_def split: option.splits)

lemma row_of_next: "row_of net u d = Inr row \<Longrightarrow> rowURL row = u \<and> NextDue row = listing_next d u \<and> validate net row = None"
  by (auto simp: row_of_def read_row_def read_next_def Let_def split: option.splits sum.splits if_splits)

lemma row_of_barren:
  assumes "row_of net u d = Inr row" "values_inv d"
  shows "Barren row = tally (barren d u) \<and> in_int64 (Barren row)"
proof -
  from assms(1) have b: "read_barren (case barren d u of None \<Rightarrow> RNil | Some w \<Rightarrow> RStr w) = Inr (Barren row)"
    by (auto simp: row_of_def read_row_def Let_def split: option.splits sum.splits)
  show ?thesis
  proof (cases "barren d u")
    case None
    with b show ?thesis by (simp add: read_barren_def tally_def in_int64_def)
  next
    case (Some v)
    with assms(2) obtain n where "v = show_int n" "in_int64 n" by (metis values_inv_def count_entry_def)
    with Some b show ?thesis by (auto simp: read_barren_def tally_def split: if_splits)
  qed
qed

lemma row_of_dead:
  assumes "row_of net u d = Inr row"
  shows "quarantine d u = map_option Until (Quarantine row)"
proof -
  from assms have b: "read_dead (case dead d u of None \<Rightarrow> RNil | Some w \<Rightarrow> RStr w) = Inr (Quarantine row)"
    by (auto simp: row_of_def read_row_def Let_def split: option.splits sum.splits)
  show ?thesis
  proof (cases "dead d u")
    case (Some v)
    with b obtain r t n where "Gfap_Prelude.cut CHR ''|'' v = Some (r, t)" "atoi t = Some n"
      "Quarantine row = Some \<lparr>Reason = r, Until = n\<rparr>"
      by (auto simp: read_dead_def split: option.splits)
    with Some show ?thesis
      by (auto simp: quarantine_def until_of_def after_bar_def tonumber_def atoi_def split: option.splits if_splits)
  qed (use b in \<open>simp add: read_dead_def quarantine_def\<close>)
qed

lemma restored_quarantine:
  "snd (restored_row now row) = (case Quarantine row of None \<Rightarrow> None | Some q \<Rightarrow> if Until q \<noteq> 0 \<and> Until q \<le> now then None else Some q)"
  by (auto simp: restored_row_def Let_def split: option.split)

lemma restored_next:
  assumes "\<And>n. NextDue row = Some n \<Longrightarrow> 0 \<le> n"
  shows "fst (restored_row now row) =
    (if map_option Until (Quarantine row) = Some 0 then None
     else map_option (\<lambda>n. max (if n = PendingScore then 0 else n)
            (case map_option Until (Quarantine row) of None \<Rightarrow> 0 | Some q \<Rightarrow> if now < q then q else 0)) (NextDue row))"
  using assms by (cases "Quarantine row"; cases "NextDue row") (auto simp: restored_row_def max_def PendingScore_def)

lemma installed_dead:
  assumes "installed now row d" "validate net row = None"
  shows "quarantine d (rowURL row) = map_option Until (snd (restored_row now row))"
proof -
  have "CHR ''|'' \<notin> set (Reason q)" if "Quarantine row = Some q" for q
    using assms(2) that by (auto simp: validate_def contains_any_def list_ex_iff split: if_splits)
  moreover have "snd (restored_row now row) \<in> {None, Quarantine row}"
    by (auto simp: restored_row_def Let_def split: option.split)
  ultimately show ?thesis using assms(1)
    by (cases "Quarantine row") (auto simp: installed_iff quarantine_def dead_field_def)
qed

lemma restored_row_like:
  assumes "values_inv d" "row_of net u d = Inr row" "installed now row d'" "now \<le> t"
  shows "(blocked d' u t \<longleftrightarrow> blocked d u t) \<and> tally (barren d' u) = tally (barren d u) \<and>
    listing_next d' u =
      (if quarantine d u = Some 0 then None
       else map_option (\<lambda>n. max (if n = PendingScore then 0 else n)
              (case quarantine d u of None \<Rightarrow> 0 | Some q \<Rightarrow> if now < q then q else 0)) (listing_next d u))"
proof -
  note nx = row_of_next [OF assms(2)] and barren = row_of_barren [OF assms(2,1)] and dead = row_of_dead [OF assms(2)]
  have valid: "validate net row = None" using nx by simp
  have pos: "0 \<le> n" if "NextDue row = Some n" for n
    using valid that by (simp add: validate_def split: if_splits)
  have "blocked d' u t \<longleftrightarrow> blocked d u t"
    using installed_dead [OF assms(3) valid] nx dead assms(4)
    by (auto simp: blocked_quarantine restored_quarantine split: option.splits if_splits)
  moreover have "tally (barren d' u) = tally (barren d u)"
    using assms(3) nx barren by (auto simp: installed_iff barren_field_def tally_def split: if_splits)
  moreover have "listing_next d' u = fst (restored_row now row)" using assms(3) nx by (simp add: installed_iff)
  moreover have "NextDue row = listing_next d u" "map_option Until (Quarantine row) = quarantine d u" using nx dead by simp_all
  moreover note restored_next [of row now, OF pos]
  ultimately show ?thesis by (simp only: simp_thms)
qed

text \<open>What is restored is what was saved. Take a URL read from Redis into a row, and any later state
  into which that row was written back at time \<open>now\<close>. From then on the URL is blocked exactly when it
  would have been before, and its count of barren visits is the same. It keeps its place in the listing
  schedule, except that a pending visit is due at once, one during a quarantine waits for its end,
  and a URL that is dead forever leaves the schedule.\<close>

theorem restored_like_saved:
  assumes "values_inv d" "row_of net u d = Inr row" "installed now row d'" "now \<le> t"
  shows "(blocked d' u t \<longleftrightarrow> blocked d u t) \<and> tally (barren d' u) = tally (barren d u) \<and>
    listing_next d' u =
      (if quarantine d u = Some 0 then None
       else map_option (\<lambda>n. max (if n = PendingScore then 0 else n)
              (case quarantine d u of None \<Rightarrow> 0 | Some q \<Rightarrow> if now < q then q else 0)) (listing_next d u))"
  by (rule restored_row_like [OF assms])

definition resting_url :: url where
  "resting_url = ''https://www.vidlii.com/videos''"

definition resting :: keyspace where
  "resting = put_score keyListingNext resting_url (Some 5000) (put_field keyListingBarren resting_url (Some ''2'')
     (put_field keyDead resting_url (Some ''server_error|9000'') (store_data empty_store)))"

definition resting_row :: mongoCrawlRecord where
  "resting_row = \<lparr>rowURL = resting_url, Schema = 1, NextDue = Some 5000, Barren = 2,
     Quarantine = Some \<lparr>Reason = ''server_error'', Until = 9000\<rparr>\<rparr>"

lemma resting_values: "values_inv resting"
proof -
  have "dead_entry ''server_error|9000''"
    unfolding dead_entry_def by (intro exI [of _ "''server_error''"] exI [of _ 9000]) code_simp
  moreover have "count_entry 0 ''2''" unfolding count_entry_def by (intro exI [of _ 2]) code_simp
  ultimately show ?thesis by (simp add: values_inv_def resting_def store_data_def empty_store_def)
qed

theorem restored_like_saved_witness:
  "let d' = fold cmd_effect (row_cmds 6000 resting_row) (store_data empty_store)
   in ((blocked d' resting_url 7000 \<longleftrightarrow> blocked resting resting_url 7000) \<and>
       tally (barren d' resting_url) = tally (barren resting resting_url) \<and>
       listing_next d' resting_url =
         (if quarantine resting resting_url = Some 0 then None
          else map_option (\<lambda>n. max (if n = PendingScore then 0 else n)
              (case quarantine resting resting_url of None \<Rightarrow> 0 | Some q \<Rightarrow> if 6000 < q then q else 0))
            (listing_next resting resting_url))) \<and>
      blocked resting resting_url 7000 \<and> quarantine resting resting_url = Some 9000"
proof -
  have r: "row_of (go_url (\<lambda>_. None)) resting_url resting = Inr resting_row" by code_simp
  have "blocked resting resting_url 7000 \<and> quarantine resting resting_url = Some 9000" by code_simp
  moreover have "(6000 :: int) \<le> 7000" by simp
  note restored_like_saved [OF resting_values r row_effect [of 6000 resting_row "store_data empty_store"] this]
  ultimately show ?thesis unfolding Let_def by blast
qed

end
