(* ===== verification/Crawl_Checkpoint_Correct.thy ===== *)
theory Crawl_Checkpoint_Correct
  imports Crawl_Roundtrip
begin

text \<open>
  What a checkpoint pass saves, whatever the workers do to Redis between its batches and wherever it
  fails: every row it writes is the state of its URL at one moment of the pass.
\<close>

section \<open>Batches of a reply\<close>

lemma evens_split: "evens xs = evens (take (2 * n) xs) @ evens (drop (2 * n) xs)"
proof (induction n arbitrary: xs)
  case (Suc n)
  show ?case
  proof (cases xs rule: evens.cases)
    case (1 a b ys)
    with Suc [of ys] show ?thesis by simp
  qed auto
qed simp

lemma set_unseen: "set (unseen seen us) = set us - set seen"
  by (induction seen us rule: unseen.induct) auto

lemma distinct_unseen: "distinct (unseen seen us)"
  by (induction seen us rule: unseen.induct) (auto simp: set_unseen)

lemma length_unseen: "length (unseen seen us) \<le> length us"
  by (induction seen us rule: unseen.induct) auto

lemma length_evens: "length (evens xs) = length xs div 2"
  by (induction xs rule: evens.induct) auto

lemma set_page_batches: "set (concat (page_batches pairs)) = set (evens pairs)"
proof (induction pairs rule: page_batches.induct)
  case (1 pairs)
  show ?case
  proof (cases "pairs = []")
    case False
    with 1 show ?thesis
      using evens_split [of pairs crawlStateBatchSize] by (simp add: page_batches.simps [of pairs] set_unseen)
  qed (simp add: page_batches.simps)
qed

lemma page_batches_bounded: "urls \<in> set (page_batches pairs) \<Longrightarrow> distinct urls \<and> length urls \<le> crawlStateBatchSize"
proof (induction pairs rule: page_batches.induct)
  case (1 pairs)
  have "length (unseen [] (evens (take (2 * crawlStateBatchSize) pairs))) \<le> crawlStateBatchSize"
    using length_unseen [of "[]" "evens (take (2 * crawlStateBatchSize) pairs)"] by (simp add: length_evens)
  with 1 show ?case by (cases "pairs = []") (auto simp: page_batches.simps [of pairs] page_batches.simps [of "[]"] distinct_unseen)
qed

section \<open>Reads and writes\<close>

lemma fold_replace:
  "fold replace_one rows c u = c u \<and> u \<notin> rowURL ` set rows \<or>
   (\<exists>row \<in> set rows. rowURL row = u \<and> fold replace_one rows c u = Some row)"
proof (induction rows arbitrary: c)
  case (Cons r rows)
  show ?case using Cons [of "replace_one r c"] by (auto simp: replace_one_def)
qed simp

lemma BulkWrite_coll:
  assumes "BulkWrite e rows c = (res, err, c')"
  shows "\<exists>ws. set ws \<subseteq> set rows \<and> (err = None \<longrightarrow> ws = rows) \<and> c' = fold replace_one ws c"
  using assms
  by (intro exI [of _ "case bulk_err e of None \<Rightarrow> rows | Some _ \<Rightarrow> take (applied e) rows"])
    (auto simp: BulkWrite_def Let_def dest: in_set_takeD split: option.splits)

context redis_server
begin

lemma read_rows_of:
  assumes "map Some rs = map (\<lambda>c. read_reply c d) (concat (map tuple_cmds urls))" "read_rows net urls rs = Inr rows"
  shows "list_all2 (\<lambda>u row. row_of net u d = Inr row) urls rows"
  using assms
proof (induction urls arbitrary: rs rows)
  case (Cons u urls)
  from Cons.prems(1) obtain a b c rest where rs: "rs = a # b # c # rest"
    "Some a = read_reply (ZSCORE keyListingNext u) d" "Some b = read_reply (HGET keyListingBarren u) d"
    "Some c = read_reply (HGET keyDead u) d" "map Some rest = map (\<lambda>c. read_reply c d) (concat (map tuple_cmds urls))"
    by (auto simp: tuple_cmds_def [of u] Cons_eq_map_conv)
  then have "read_row net u a b c = row_of net u d" by (simp add: row_of_def)
  with Cons rs show ?case by (auto split: sum.splits)
qed simp

lemma readRedisCrawlRecords_rows:
  assumes "readRedisCrawlRecords call net E st urls x = (r, x')"
  shows "data (srv x') = data (srv x)"
    "r = Inr rows \<Longrightarrow> list_all2 (\<lambda>u row. row_of net u (data (srv x)) = Inr row) urls rows"
proof -
  obtain e1 x1 where i1: "checkIdentity E st x = (e1, x1)" by fastforce
  obtain t x2 where t: "transact call E (concat (map tuple_cmds urls)) x1 = (t, x2)" by fastforce
  obtain e2 x3 where i2: "checkIdentity E st x2 = (e2, x3)" by fastforce
  have d: "data (srv x1) = data (srv x)" "data (srv x2) = data (srv x)" "data (srv x3) = data (srv x)"
    using checkIdentity_srv [OF i1] checkIdentity_srv [OF i2] transact_reads(1) [OF tuple_reads t] by simp_all
  with assms i1 t i2 show "data (srv x') = data (srv x)"
    by (auto simp: readRedisCrawlRecords_def split: option.splits sum.splits)
  assume "r = Inr rows"
  with assms i1 t i2 obtain rs where "t = Inr rs" "read_rows net urls rs = Inr rows"
    by (auto simp: readRedisCrawlRecords_def split: option.splits sum.splits)
  with read_rows_of [OF transact_reads(2) [OF tuple_reads t]] d(1)
  show "list_all2 (\<lambda>u row. row_of net u (data (srv x)) = Inr row) urls rows" by simp
qed

end

section \<open>A pass\<close>

text \<open>The row of a URL in the collection is what the URL was in a state with \<open>I\<close>.\<close>

definition saved :: "(keyspace \<Rightarrow> bool) \<Rightarrow> net_url \<Rightarrow> coll \<Rightarrow> url \<Rightarrow> bool" where
  "saved I net c u \<longleftrightarrow> (\<exists>d row. I d \<and> row_of net u d = Inr row \<and> c u = Some row)"

text \<open>From one collection to a later one: rows stay, or are saved anew; those of \<open>us\<close> are, others are not.\<close>

definition progress :: "(keyspace \<Rightarrow> bool) \<Rightarrow> net_url \<Rightarrow> url set \<Rightarrow> bool \<Rightarrow> coll \<Rightarrow> coll \<Rightarrow> bool" where
  "progress I net us whole c c' \<longleftrightarrow>
     (\<forall>u. (c' u = c u \<or> u \<in> us \<and> saved I net c' u) \<and> (whole \<and> u \<in> us \<longrightarrow> saved I net c' u))"

lemma progress_refl: "\<not> whole \<Longrightarrow> progress I net us whole c c"
  by (simp add: progress_def)

lemma saved_cong: "c u = c' u \<Longrightarrow> saved I net c u \<longleftrightarrow> saved I net c' u"
  by (simp add: saved_def)

lemma progress_trans:
  assumes "progress I net us True c c'" "progress I net vs whole c' c''"
  shows "progress I net (us \<union> vs) whole c c''"
  unfolding progress_def
proof
  fix u
  from assms have "c' u = c u \<or> u \<in> us \<and> saved I net c' u" "u \<in> us \<longrightarrow> saved I net c' u"
    "c'' u = c' u \<or> u \<in> vs \<and> saved I net c'' u" "whole \<and> u \<in> vs \<longrightarrow> saved I net c'' u"
    by (auto simp: progress_def)
  with saved_cong [of c'' u c' I net]
  show "(c'' u = c u \<or> u \<in> us \<union> vs \<and> saved I net c'' u) \<and> (whole \<and> u \<in> us \<union> vs \<longrightarrow> saved I net c'' u)" by auto
qed

lemma progress_mono: "progress I net us whole c c' \<Longrightarrow> us \<subseteq> vs \<Longrightarrow> \<not> whole' \<Longrightarrow> progress I net vs whole' c c'"
  by (auto simp: progress_def)

lemma progress_write:
  assumes "I d" "list_all2 (\<lambda>u row. row_of net u d = Inr row) urls rows" "set ws \<subseteq> set rows" "whole \<longrightarrow> ws = rows"
  shows "progress I net (set urls) whole c (fold replace_one ws c)"
proof -
  have row: "\<exists>u \<in> set urls. row_of net u d = Inr row \<and> rowURL row = u" if "row \<in> set rows" for row
    using assms(2) that row_of_next by (fastforce simp: list_all2_conv_all_nth in_set_conv_nth)
  have url: "\<exists>row \<in> set rows. rowURL row = u" if "u \<in> set urls" for u
    using assms(2) that row_of_next by (fastforce simp: list_all2_conv_all_nth in_set_conv_nth)
  show ?thesis unfolding progress_def
  proof
    fix u
    from fold_replace [of ws c u] consider "fold replace_one ws c u = c u" "u \<notin> rowURL ` set ws"
      | r where "r \<in> set ws" "rowURL r = u" "fold replace_one ws c u = Some r" by blast
    then show "(fold replace_one ws c u = c u \<or> u \<in> set urls \<and> saved I net (fold replace_one ws c) u) \<and>
        (whole \<and> u \<in> set urls \<longrightarrow> saved I net (fold replace_one ws c) u)"
    proof cases
      case 1
      then show ?thesis using url assms(4) by auto
    next
      case 2
      with row [of r] assms(1,3) have "u \<in> set urls" "saved I net (fold replace_one ws c) u" by (auto simp: saved_def)
      then show ?thesis by simp
    qed
  qed
qed

text \<open>The URLs of a scan up to the reply with cursor zero.\<close>

fun scanned :: "'s scan_page list \<Rightarrow> url set" where
  "scanned [] = {}"
| "scanned (page # pages) = (case scan_reply page of
     Inl _ \<Rightarrow> {}
   | Inr (pairs, cur) \<Rightarrow> set (evens pairs) \<union> (if cur = 0 then {} else scanned pages))"

definition undisturbed :: "('s \<Rightarrow> keyspace) \<Rightarrow> (keyspace \<Rightarrow> bool) \<Rightarrow> (nat \<Rightarrow> 's bulk_env) \<Rightarrow> bool" where
  "undisturbed data I es \<longleftrightarrow> (\<forall>i s. I (data s) \<longrightarrow> I (data (meanwhile (es i) s)))"

lemma checkpoint_batches_step:
  assumes "readRedisCrawlRecords call net E st urls ((sess p)\<lparr>srv := meanwhile (es 0) (srv (sess p))\<rparr>) = (Inr rows, x)"
    "BulkWrite (es 0) rows (coll p) = (res, e, c)"
  obtains s s' where "checkpoint_batches call net E st es (urls # rest) p =
    (case e of Some err \<Rightarrow> (Some err, p\<lparr>cstats := s, coll := c, sess := x\<rparr>)
     | None \<Rightarrow> checkpoint_batches call net E st (\<lambda>i. es (Suc i)) rest (p\<lparr>cstats := s', coll := c, sess := x\<rparr>))"
  using assms by (simp add: Let_def)

context redis_server
begin

lemma checkpoint_batches_progress:
  assumes "checkpoint_batches call net E st es batches p = (err, p')" "I (data (srv (sess p)))" "undisturbed data I es"
  shows "I (data (srv (sess p'))) \<and> progress I net (set (concat batches)) (err = None) (coll p) (coll p')"
  using assms
proof (induction batches arbitrary: p es)
  case (Cons urls rest)
  let ?x = "(sess p)\<lparr>srv := meanwhile (es 0) (srv (sess p))\<rparr>"
  obtain r x where read: "readRedisCrawlRecords call net E st urls ?x = (r, x)" by fastforce
  have "I (data (srv ?x))" using Cons.prems(2,3) by (simp add: undisturbed_def)
  then have I: "I (data (srv x))" "I (data (srv ?x))" using readRedisCrawlRecords_rows(1) [OF read] by simp_all
  show ?case
  proof (cases r)
    case (Inl e)
    with Cons.prems(1) read have "err = Some e" "p' = p\<lparr>sess := x\<rparr>" by auto
    with I show ?thesis by (simp add: progress_refl)
  next
    case (Inr rows)
    obtain res e c where w: "BulkWrite (es 0) rows (coll p) = (res, e, c)" by (cases "BulkWrite (es 0) rows (coll p)")
    from BulkWrite_coll [OF w] obtain ws where ws: "set ws \<subseteq> set rows" "e = None \<longrightarrow> ws = rows"
      "c = fold replace_one ws (coll p)" by blast
    have step: "progress I net (set urls) (e = None) (coll p) c"
      unfolding ws(3) by (rule progress_write [of I "data (srv ?x)", OF I(2) readRedisCrawlRecords_rows(2) [OF read Inr] ws(1,2)])
    obtain s s' where next_batch: "checkpoint_batches call net E st es (urls # rest) p =
      (case e of Some err \<Rightarrow> (Some err, p\<lparr>cstats := s, coll := c, sess := x\<rparr>)
       | None \<Rightarrow> checkpoint_batches call net E st (\<lambda>i. es (Suc i)) rest (p\<lparr>cstats := s', coll := c, sess := x\<rparr>))"
      by (rule checkpoint_batches_step [where es = es and p = p and rest = rest, OF read [unfolded Inr] w])
    show ?thesis
    proof (cases e)
      case (Some e')
      with Cons.prems(1) next_batch have "err = Some e'" "coll p' = c" "sess p' = x" by auto
      moreover have "progress I net (set (concat (urls # rest))) False (coll p) c" by (rule progress_mono [OF step]) auto
      ultimately show ?thesis using I by simp
    next
      case None
      with Cons.prems(1) next_batch have
        "checkpoint_batches call net E st (\<lambda>i. es (Suc i)) rest (p\<lparr>cstats := s', coll := c, sess := x\<rparr>) = (err, p')"
        by simp
      from Cons.IH [OF this] Cons.prems(3) I
      have "I (data (srv (sess p')))" "progress I net (set (concat rest)) (err = None) c (coll p')" by (simp_all add: undisturbed_def)
      with progress_trans [OF step [unfolded None, simplified]] show ?thesis by simp
    qed
  qed
qed (simp add: progress_def)

lemma checkpoint_scan_progress:
  assumes "checkpoint_scan call net E st pages p = Some (err, p')" "I (data (srv (sess p)))"
    "\<forall>page \<in> set pages. undisturbed data I (bulks page)"
  shows "I (data (srv (sess p'))) \<and> progress I net (scanned pages) (err = None) (coll p) (coll p')"
  using assms
proof (induction pages arbitrary: p)
  case (Cons page pages)
  show ?case
  proof (cases "\<exists>pairs cur. scan_ctx page = None \<and> scan_reply page = Inr (pairs, cur) \<and> even (length pairs)")
    case False
    with Cons.prems(1) have "p' = p" "err \<noteq> None"
      by (cases "scan_ctx page"; auto split: sum.splits prod.splits if_splits)+
    with Cons.prems(2) show ?thesis by (simp add: progress_refl)
  next
    case True
    then obtain pairs cur where r: "scan_ctx page = None" "scan_reply page = Inr (pairs, cur)" "even (length pairs)" by blast
    obtain e p1 where b: "checkpoint_batches call net E st (bulks page) (page_batches pairs) p = (e, p1)" by fastforce
    with checkpoint_batches_progress [where I = I, OF b Cons.prems(2)] Cons.prems(3)
    have step: "I (data (srv (sess p1)))" "progress I net (set (evens pairs)) (e = None) (coll p) (coll p1)"
      by (auto simp: set_page_batches simp del: set_concat)
    show ?thesis
    proof (cases "e = None \<and> cur \<noteq> 0")
      case True
      with Cons.prems r b have "checkpoint_scan call net E st pages p1 = Some (err, p')" by simp
      from Cons.IH [OF this step(1)] Cons.prems(3)
      have "I (data (srv (sess p')))" "progress I net (scanned pages) (err = None) (coll p1) (coll p')" by simp_all
      with progress_trans [of I net "set (evens pairs)" "coll p" "coll p1"] step(2) True r show ?thesis by simp
    next
      case False
      with Cons.prems(1) r b have "err = e" "p' = p1" by (auto split: option.splits)
      with step r False show ?thesis by (cases "e = None") (auto elim: progress_mono)
    qed
  qed
qed simp

lemma checkpoint_scans_progress:
  assumes "checkpoint_scans call net E st scans p = Some (err, p')" "I (data (srv (sess p)))"
    "\<forall>pages \<in> set scans. \<forall>page \<in> set pages. undisturbed data I (bulks page)"
  shows "I (data (srv (sess p'))) \<and> progress I net (\<Union>pages \<in> set scans. scanned pages) (err = None) (coll p) (coll p')"
  using assms
proof (induction scans arbitrary: p)
  case (Cons pages scans)
  from Cons.prems(1) obtain e p1 where s: "checkpoint_scan call net E st pages p = Some (e, p1)"
    by (auto split: option.splits)
  with checkpoint_scan_progress [where I = I, OF s Cons.prems(2)] Cons.prems(3)
  have step: "I (data (srv (sess p1)))" "progress I net (scanned pages) (e = None) (coll p) (coll p1)" by auto
  show ?case
  proof (cases e)
    case None
    with Cons.prems s have "checkpoint_scans call net E st scans p1 = Some (err, p')" by simp
    from Cons.IH [OF this step(1)] Cons.prems(3)
    have "I (data (srv (sess p')))" "progress I net (\<Union>pages \<in> set scans. scanned pages) (err = None) (coll p1) (coll p')" by simp_all
    with progress_trans [of I net "scanned pages" "coll p" "coll p1"] step(2) None show ?thesis by simp
  next
    case (Some e')
    with Cons.prems(1) s have "err = Some e'" "p' = p1" by simp_all
    with step Some show ?thesis by (auto elim: progress_mono)
  qed
qed (simp add: progress_def)

lemma Checkpoint_progress:
  assumes "Checkpoint call net E st a b c col x = Some (err, p')" "I (data (srv x))"
    "\<forall>page \<in> set (a @ b @ c). undisturbed data I (bulks page)"
  shows "I (data (srv (sess p'))) \<and> progress I net (scanned a \<union> scanned b \<union> scanned c) (err = None) col (coll p')"
proof -
  let ?p = "\<lparr>cstats = no_stats, coll = col, sess = x\<rparr>"
  obtain e1 x1 where i1: "checkIdentity E st x = (e1, x1)" by fastforce
  show ?thesis
  proof (cases "startupComplete st \<and> e1 = None")
    case False
    with assms(1) i1 have "err \<noteq> None" "coll p' = col" "sess p' = x \<or> sess p' = x1"
      by (cases "startupComplete st"; cases e1; auto simp: Checkpoint_def Let_def)+
    with assms(2) checkIdentity_srv [OF i1] show ?thesis by (auto simp: progress_refl)
  next
    case True
    with assms(1) i1 obtain e p1 where s: "checkpoint_scans call net E st [a, b, c] (?p\<lparr>sess := x1\<rparr>) = Some (e, p1)"
      by (auto simp: Checkpoint_def Let_def split: option.splits)
    with checkpoint_scans_progress [where I = I, OF s] assms(2,3) checkIdentity_srv [OF i1]
    have step: "I (data (srv (sess p1)))" "progress I net (scanned a \<union> scanned b \<union> scanned c) (e = None) col (coll p1)"
      by (auto simp: Un_assoc)
    obtain e2 x2 where i2: "checkIdentity E st (sess p1) = (e2, x2)" by fastforce
    from assms(1) True i1 i2 s have "coll p' = coll p1" "sess p' = x2 \<or> sess p' = sess p1" "err = None \<longrightarrow> e = None"
      by (auto simp: Checkpoint_def Let_def split: option.splits)
    with step checkIdentity_srv [OF i2] show ?thesis by (auto simp: progress_def)
  qed
qed

end

text \<open>A checkpoint saves observed states. Let \<open>I\<close> be anything that holds in Redis at the start of a pass and
  that other clients keep. However the pass ends, a row of the collection is as it was, or is what a
  scanned URL was in one state of Redis with \<open>I\<close>, all its fields from that one state. A pass
  that succeeds has saved every URL of its three scans. Before a successful restore it saves nothing.\<close>

theorem Checkpoint_saves:
  assumes "redis_server call data" "Checkpoint call net E st a b c col x = Some (err, p')" "I (data (srv x))"
    "\<forall>page \<in> set (a @ b @ c). \<forall>i s. I (data s) \<longrightarrow> I (data (meanwhile (bulks page i) s))"
  shows "(\<forall>u. coll p' u = col u \<or> u \<in> scanned a \<union> scanned b \<union> scanned c \<and>
        (\<exists>d row. I d \<and> row_of net u d = Inr row \<and> coll p' u = Some row)) \<and>
    (err = None \<longrightarrow> (\<forall>u \<in> scanned a \<union> scanned b \<union> scanned c. \<exists>d row. I d \<and> row_of net u d = Inr row \<and> coll p' u = Some row)) \<and>
    (\<not> startupComplete st \<longrightarrow> err \<noteq> None \<and> coll p' = col \<and> srv (sess p') = srv x)"
proof (intro conjI)
  have "\<forall>page \<in> set (a @ b @ c). undisturbed data I (bulks page)" using assms(4) by (simp add: undisturbed_def)
  from redis_server.Checkpoint_progress [where I = I, OF assms(1,2,3) this]
  have p: "progress I net (scanned a \<union> scanned b \<union> scanned c) (err = None) col (coll p')" by simp
  then show "\<forall>u. coll p' u = col u \<or> u \<in> scanned a \<union> scanned b \<union> scanned c \<and>
        (\<exists>d row. I d \<and> row_of net u d = Inr row \<and> coll p' u = Some row)"
    unfolding progress_def saved_def by blast
  from p show "err = None \<longrightarrow> (\<forall>u \<in> scanned a \<union> scanned b \<union> scanned c. \<exists>d row. I d \<and> row_of net u d = Inr row \<and> coll p' u = Some row)"
    unfolding progress_def saved_def by blast
  show "\<not> startupComplete st \<longrightarrow> err \<noteq> None \<and> coll p' = col \<and> srv (sess p') = srv x"
    using assms(2) by (auto simp: Checkpoint_def Let_def)
qed

definition calm_page :: "string list \<Rightarrow> rstore scan_page" where
  "calm_page pairs = \<lparr>scan_ctx = None, scan_reply = Inr (pairs, 0),
     bulks = (\<lambda>_. \<lparr>meanwhile = (\<lambda>s. s), applied = 0, bulk_err = None, no_result = False\<rparr>)\<rparr>"

definition queued_listing :: rstore where
  "queued_listing = replay [OAdmitListing resting_url 100]"

definition sample_pass :: "(go_error option \<times> rstore session pass_state) option" where
  "sample_pass = Checkpoint store_call (go_url (\<lambda>_. None)) quiet (sample_store\<lparr>startupComplete := True\<rparr>)
     [calm_page [resting_url, ''253402300799'']] [calm_page []] [calm_page []] Map.empty \<lparr>srv = queued_listing, step = 0\<rparr>"

theorem Checkpoint_saves_witness:
  "case sample_pass of None \<Rightarrow> False | Some (err, p') \<Rightarrow>
    (let I = (\<lambda>d. d = store_data queued_listing); net = go_url (\<lambda>_. None);
         us = scanned [calm_page [resting_url, ''253402300799'']] \<union> scanned [calm_page []] \<union> scanned [calm_page []]
     in (\<forall>u. coll p' u = None \<or> u \<in> us \<and> (\<exists>d row. I d \<and> row_of net u d = Inr row \<and> coll p' u = Some row)) \<and>
        (err = None \<longrightarrow> (\<forall>u \<in> us. \<exists>d row. I d \<and> row_of net u d = Inr row \<and> coll p' u = Some row))) \<and>
    err = None \<and> map_option NextDue (coll p' resting_url) = Some (Some PendingScore)"
proof -
  have "case sample_pass of None \<Rightarrow> False | Some (err, p') \<Rightarrow>
      err = None \<and> map_option NextDue (coll p' resting_url) = Some (Some PendingScore)" by code_simp
  then obtain err p' where p: "sample_pass = Some (err, p')" "err = None"
      "map_option NextDue (coll p' resting_url) = Some (Some PendingScore)"
    by (auto split: option.splits)
  note pass = p(1) [unfolded sample_pass_def]
  from Checkpoint_saves [where I = "\<lambda>d. d = store_data queued_listing", OF store.redis_server_axioms pass] p(2,3)
  show ?thesis unfolding p(1) option.case prod.case Let_def by (simp add: calm_page_def)
qed

end
