(* ===== verification/Worker_Canonical.thy ===== *)
theory Worker_Canonical
  imports Worker
begin

text \<open>
  Canonical URLs, \<open>canonicalize\<close> of \<open>src/internal/crawler/crawler.go\<close> over the URLs of Go: escapes are
  undone by parsing, a printed URL is parsed back, and what the crawler admits it recognises again.
\<close>

section \<open>Escapes\<close>

lemma unhex_upperhex:
  assumes "n < 16"
  shows "unhex (upperhex n) = Some n"
proof -
  have "\<forall>n \<in> {0..<16}. unhex (upperhex n) = Some n" by code_simp
  with assms show ?thesis by simp
qed

text \<open>Bytes that are escaped everywhere.\<close>

definition special :: "char \<Rightarrow> bool" where
  "special c \<longleftrightarrow> c = CHR ''%'' \<or> c = CHR ''#'' \<or> c = CHR ''|'' \<or> c = CHR '' '' \<or> ctl_byte c"

lemma not_special: "list_all (\<lambda>x. \<not> special x) cs \<Longrightarrow> special c \<Longrightarrow> c \<notin> set cs"
  by (auto simp: list_all_iff)

lemma special_escaped:
  assumes "special c"
  shows "shouldEscape c mode"
proof -
  have "\<not> letter_byte c" "\<not> digit_byte c"
    using assms by (auto simp: special_def letter_byte_def digit_byte_def ctl_byte_def Let_def)
  moreover have "c \<notin> set (CHR 0x27 # ''!$&()*+,;=:[]<>'' @ [CHR 0x22])" "c \<notin> set ''-_.~''" "c \<notin> set ''$&+,/:;=?@''"
      "c \<notin> set ''!()*''"
    by (rule not_special [OF _ assms], code_simp)+
  ultimately show ?thesis unfolding shouldEscape_def by presburger
qed

lemma not_escaped: "\<not> shouldEscape c mode \<Longrightarrow> \<not> special c"
  using special_escaped by blast

lemma plus_escaped: "shouldEscape CHR ''+'' encodeQueryComponent"
  by code_simp

lemma char_halves: "char_of (16 * (of_char c div 16) + of_char c mod (16 :: nat)) = c"
  by (simp add: mult_div_mod_eq)

lemma char_div_16: "of_char c div 16 < (16 :: nat)"
  by (rule less_mult_imp_div_less) (use of_char_of [of "of_char c :: nat"] in simp)

lemma unescape_escape:
  assumes "mode \<noteq> encodeHost"
  shows "unescape mode (escape mode s) = Some s"
proof (induction s)
  case (Cons c s)
  have "unescape mode (escape_char mode c @ t) = map_option (Cons c) (unescape mode t)" for t
    using assms not_escaped [of c mode] plus_escaped
    by (auto simp: escape_char_def special_def unhex_upperhex char_div_16 char_halves split: if_splits)
  with Cons show ?case by (simp add: escape_def)
qed (simp add: escape_def)

definition escape_bytes :: string where
  "escape_bytes = ''%+0123456789ABCDEF''"

lemma escape_char_set: "set (escape_char mode c) \<subseteq> set escape_bytes \<or> \<not> shouldEscape c mode \<and> set (escape_char mode c) = {c}"
proof -
  have "\<forall>n \<in> {0..<16}. upperhex n \<in> set escape_bytes" "CHR ''%'' \<in> set escape_bytes" "CHR ''+'' \<in> set escape_bytes"
    by code_simp+
  then show ?thesis using char_div_16 [of c] by (simp add: escape_char_def)
qed

lemma escape_avoids:
  assumes "shouldEscape x mode" "x \<notin> set escape_bytes"
  shows "x \<notin> set (escape mode s)"
proof -
  have "x \<notin> set (escape_char mode c)" for c using assms escape_char_set [of mode c] by auto
  then show ?thesis by (simp add: escape_def)
qed

lemma escape_no_special: "special x \<Longrightarrow> x \<noteq> CHR ''%'' \<Longrightarrow> x \<notin> set (escape mode s)"
  by (rule escape_avoids [OF special_escaped]) (auto simp: special_def ctl_byte_def escape_bytes_def)

lemma escape_no_ctl: "\<not> list_ex ctl_byte (escape mode s)"
proof -
  have "ctl_byte c \<Longrightarrow> c \<notin> set (escape mode s)" for c
    by (rule escape_no_special) (auto simp: special_def ctl_byte_def)
  then show ?thesis by (auto simp: list_ex_iff)
qed

section \<open>Sites\<close>

text \<open>A base URL that is a scheme and a host name and nothing else, with the site's pattern of video pages.\<close>

definition host_byte :: "char \<Rightarrow> bool" where
  "host_byte c \<longleftrightarrow> letter_byte c \<or> digit_byte c \<or> c = CHR ''-'' \<or> c = CHR ''.''"

definition lower_byte :: "char \<Rightarrow> bool" where
  "lower_byte c \<longleftrightarrow> (let k = of_char c :: nat in 97 \<le> k \<and> k \<le> 122)"

definition plain_site :: "Config \<Rightarrow> string \<Rightarrow> string \<Rightarrow> bool" where
  "plain_site cfg sch host \<longleftrightarrow> BaseUrl cfg = sch @ ''://'' @ host \<and> VideoPattern cfg = ''/watch?v='' \<and>
     sch \<noteq> [] \<and> list_all lower_byte sch \<and> host \<noteq> [] \<and> list_all host_byte host"

lemma scheme_from_lower: "list_all lower_byte sch \<Longrightarrow> scheme_from acc (sch @ CHR '':'' # rest) = Some (acc @ sch, rest)"
  by (induction sch arbitrary: acc) (auto simp: lower_byte_def letter_byte_def digit_byte_def Let_def)

lemma to_lower_lower: "list_all lower_byte sch \<Longrightarrow> to_lower sch = sch"
  by (induction sch) (auto simp: to_lower_def lower_byte_def Let_def)

lemma host_kept: "host_byte c \<Longrightarrow> \<not> shouldEscape c mode"
proof -
  assume "host_byte c"
  then consider "letter_byte c \<or> digit_byte c" | "c = CHR ''-''" | "c = CHR ''.''" by (auto simp: host_byte_def)
  then show ?thesis
  proof cases
    case 1
    then show ?thesis by (simp add: shouldEscape_def)
  qed (simp_all add: shouldEscape_def)
qed

lemma host_plain: "host_byte c \<Longrightarrow> \<not> special c \<and> c \<noteq> CHR '':'' \<and> c \<noteq> CHR ''['' \<and> c \<noteq> CHR ''@'' \<and> c \<noteq> CHR ''/'' \<and> c \<noteq> CHR ''?'' \<and>
    c \<noteq> CHR ''+''"
  using host_kept [of c] special_escaped [of c]
  by (auto simp: host_byte_def letter_byte_def digit_byte_def)

lemma lower_plain: "lower_byte c \<Longrightarrow> \<not> special c \<and> c \<noteq> CHR ''*'' \<and> c \<noteq> CHR ''?''"
  by (auto simp: lower_byte_def special_def ctl_byte_def Let_def)

lemma host_unescape: "list_all host_byte h \<Longrightarrow> unescape encodeHost h = Some h"
proof (induction h)
  case (Cons c h)
  then show ?case using host_plain [of c] host_kept [of c] by (simp add: special_def)
qed simp

lemma host_escape: "list_all host_byte h \<Longrightarrow> escape encodeHost h = h"
  by (induction h) (auto dest: host_plain simp: host_kept escape_def escape_char_def special_def)

lemma host_authority: "list_all host_byte h \<Longrightarrow> parseAuthority ip h = Some (False, h)"
proof -
  assume h: "list_all host_byte h"
  then have "CHR '':'' \<notin> set h" "CHR ''['' \<notin> set h" "CHR ''@'' \<notin> set h"
    using host_plain by (auto simp: list_all_iff)
  then have "cut_last CHR '':'' h = None" "cut_last CHR ''@'' h = None" by (simp_all add: cut_last_def)
  with h \<open>CHR ''['' \<notin> set h\<close> show ?thesis by (simp add: parseAuthority_def parseHost_def host_unescape)
qed

section \<open>Printed URLs\<close>

text \<open>The URL of a site with a decoded path, a forced question mark or a query.\<close>

definition site_url :: "string \<Rightarrow> string \<Rightarrow> string \<Rightarrow> bool \<Rightarrow> string \<Rightarrow> URLrec" where
  "site_url sch host p fq q = \<lparr>Scheme = sch, Opaque = [], HasUser = False, Host = host, Path = p, RawPath = [],
     OmitHost = False, ForceQuery = fq, RawQuery = q, Fragment = []\<rparr>"

definition rooted :: "string \<Rightarrow> bool" where
  "rooted p \<longleftrightarrow> p = [] \<or> prefix ''/'' p"

definition query_text :: "bool \<Rightarrow> string \<Rightarrow> string" where
  "query_text fq q = (if fq \<or> q \<noteq> [] then CHR ''?'' # q else [])"

definition clean :: "string \<Rightarrow> bool" where
  "clean q \<longleftrightarrow> \<not> list_ex ctl_byte q \<and> CHR ''#'' \<notin> set q"

lemma escape_rooted: "rooted p \<Longrightarrow> rooted (escape encodePath p)"
proof -
  have "escape_char encodePath CHR ''/'' = ''/''" by code_simp
  then show "rooted p \<Longrightarrow> ?thesis" by (auto simp: rooted_def escape_def prefix_def)
qed

lemma site_String:
  assumes "sch \<noteq> []" "host \<noteq> []" "list_all host_byte host" "rooted p"
  shows "go_String (site_url sch host p fq q) = sch @ ''://'' @ host @ escape encodePath p @ query_text fq q"
proof -
  have "p \<noteq> ''*''" using assms(4) by (auto simp: rooted_def)
  with assms escape_rooted [OF assms(4)] show ?thesis
    by (auto simp: go_String_def site_url_def EscapedPath_def host_escape query_text_def rooted_def Let_def)
qed

lemma setPath_escaped: "setPath (escape encodePath p) u = Some (u\<lparr>Path := p, RawPath := []\<rparr>)"
  by (simp add: setPath_def unescape_escape)

lemma parse_rest_site:
  assumes "Scheme u \<noteq> []" "list_all host_byte host" "rooted p"
  shows "parse_rest ip (''//'' @ host @ escape encodePath p) u =
    Some (u\<lparr>HasUser := False, Host := host, Path := p, RawPath := []\<rparr>)"
proof -
  have "CHR ''/'' \<notin> set host" using assms(2) by (auto simp: list_all_iff dest: host_plain)
  then have "takeWhile (\<lambda>c. c \<noteq> CHR ''/'') (host @ t) = host @ takeWhile (\<lambda>c. c \<noteq> CHR ''/'') t" for t
    by (intro takeWhile_append2) auto
  moreover have "takeWhile (\<lambda>c. c \<noteq> CHR ''/'') (escape encodePath p) = []"
    using escape_rooted [OF assms(3)] by (cases "escape encodePath p") (auto simp: rooted_def)
  ultimately have "takeWhile (\<lambda>c. c \<noteq> CHR ''/'') (host @ escape encodePath p) = host" by simp
  with assms(1) host_authority [OF assms(2), of ip] show ?thesis
    by (simp add: parse_rest_def setPath_escaped Let_def del: takeWhile_append)
qed

lemma site_clean:
  assumes "list_all lower_byte sch" "list_all host_byte host" "clean q"
  shows "clean (sch @ ''://'' @ host @ escape mode p @ query_text fq q)"
  using assms lower_plain host_plain escape_no_ctl [of mode p] escape_no_special [of "CHR ''#''" mode p]
  by (fastforce simp: clean_def list_ex_iff list_all_iff special_def query_text_def ctl_byte_def)

lemma Cut_missing: "c \<notin> set s \<Longrightarrow> Cut c s = (s, [])"
  by (auto simp: Cut_def dest: cut_SomeD split: option.split)

lemma cut_question:
  assumes "CHR ''?'' \<notin> set a" "fq \<longrightarrow> q = []"
  shows "suffix ''?'' (a @ query_text fq q) \<and> count_list (a @ query_text fq q) CHR ''?'' = 1 \<longleftrightarrow> fq"
    "\<not> fq \<Longrightarrow> Cut CHR ''?'' (a @ query_text fq q) = (a, q)"
proof -
  have "suffix ''?'' s \<longleftrightarrow> s \<noteq> [] \<and> last s = CHR ''?''" for s
    by (cases s rule: rev_cases) (auto simp: suffix_def)
  moreover have "count_list a CHR ''?'' = 0" "a \<noteq> [] \<Longrightarrow> last a \<noteq> CHR ''?''"
    using assms(1) by (simp add: count_list_0_iff) (metis assms(1) last_in_set)
  ultimately show "suffix ''?'' (a @ query_text fq q) \<and> count_list (a @ query_text fq q) CHR ''?'' = 1 \<longleftrightarrow> fq"
    using assms(2) by (cases q rule: rev_cases) (auto simp: query_text_def)
  show "\<not> fq \<Longrightarrow> Cut CHR ''?'' (a @ query_text fq q) = (a, q)"
    using assms(1) by (cases "q = []") (simp_all add: query_text_def Cut_missing, simp add: Cut_def)
qed

lemma parse_url_split:
  assumes "clean s" "s \<noteq> ''*''" "getScheme s = Some (sch, a @ query_text fq q)" "CHR ''?'' \<notin> set a" "fq \<longrightarrow> q = []"
  shows "parse_url ip s = parse_rest ip a (no_url\<lparr>Scheme := to_lower sch, ForceQuery := fq, RawQuery := q\<rparr>)"
proof (cases fq)
  case True
  then have "butlast (a @ query_text fq q) = a" using assms(5) by (simp add: query_text_def butlast_append)
  with assms cut_question(1) [OF assms(4,5)] True show ?thesis
    by (simp add: parse_url_def clean_def no_url_def Let_def)
next
  case False
  with assms cut_question [OF assms(4,5)] show ?thesis
    by (auto simp: parse_url_def clean_def no_url_def Let_def)
qed

lemma parse_site:
  assumes "sch \<noteq> []" "list_all lower_byte sch" "list_all host_byte host" "rooted p" "clean q" "fq \<longrightarrow> q = []"
  shows "go_Parse ip (sch @ ''://'' @ host @ escape encodePath p @ query_text fq q) = Some (site_url sch host p fq q)"
proof -
  let ?a = "''//'' @ host @ escape encodePath p" and ?s = "sch @ ''://'' @ host @ escape encodePath p @ query_text fq q"
  have c: "clean ?s" by (rule site_clean) (use assms in auto)
  have "CHR ''?'' \<notin> set (escape encodePath p)" by (rule escape_avoids) code_simp+
  then have nq: "CHR ''?'' \<notin> set ?a" using assms(3) host_plain by (auto simp: list_all_iff)
  have g: "getScheme ?s = Some (sch, ?a @ query_text fq q)"
    using scheme_from_lower [OF assms(2), of "[]" "?a @ query_text fq q"] assms(1) by (simp add: getScheme_def)
  have "parse_url ip ?s = parse_rest ip ?a (no_url\<lparr>Scheme := to_lower sch, ForceQuery := fq, RawQuery := q\<rparr>)"
    by (rule parse_url_split [OF c _ g nq assms(6)]) (use assms(1) in \<open>cases sch; simp\<close>)
  also have "\<dots> = Some (site_url sch host p fq q)"
    by (subst parse_rest_site) (use assms in \<open>simp_all add: to_lower_lower site_url_def no_url_def\<close>)
  finally show ?thesis using c Cut_missing [of "CHR ''#''" ?s] by (simp add: go_Parse_def clean_def)
qed

section \<open>Parsed URLs\<close>

text \<open>What holds of every parsed URL that has a host.\<close>

definition hosted :: "URLrec \<Rightarrow> bool" where
  "hosted u \<longleftrightarrow> clean (RawQuery u) \<and> (ForceQuery u \<longrightarrow> RawQuery u = []) \<and> (Host u \<noteq> [] \<longrightarrow> Opaque u = [] \<and> \<not> OmitHost u)"

lemma setPath_hosted: "setPath p u0 = Some u \<Longrightarrow> hosted u0 \<Longrightarrow> hosted u"
  by (auto simp: setPath_def hosted_def)

lemma parse_rest_hosted:
  assumes "parse_rest ip rest u0 = Some u" "hosted u0" "Host u0 = []" "Opaque u0 = []" "\<not> OmitHost u0"
  shows "hosted u"
proof (cases "\<not> prefix ''/'' rest \<and> Scheme u0 \<noteq> []")
  case True
  with assms show ?thesis by (auto simp: parse_rest_def hosted_def)
next
  case not_opaque: False
  show ?thesis
  proof (cases "(Scheme u0 \<noteq> [] \<or> \<not> prefix ''///'' rest) \<and> prefix ''//'' rest")
    case True
    with assms(1) not_opaque obtain p user host where "setPath p (u0\<lparr>HasUser := user, Host := host\<rparr>) = Some u"
      unfolding parse_rest_def Let_def by (auto split: if_splits option.splits)
    then show ?thesis by (rule setPath_hosted) (use assms in \<open>simp add: hosted_def\<close>)
  next
    case False
    with assms(1) not_opaque obtain b where "setPath rest (u0\<lparr>OmitHost := b\<rparr>) = Some u"
      unfolding parse_rest_def Let_def by (auto split: if_splits)
    then show ?thesis by (rule setPath_hosted) (use assms in \<open>simp add: hosted_def\<close>)
  qed
qed

lemma clean_Cut: "clean s \<Longrightarrow> clean (snd (Cut c s))"
  by (auto simp: clean_def Cut_def dest!: cut_SomeD split: option.split)

lemma clean_scheme_from: "clean s \<Longrightarrow> scheme_from acc s = Some (a, rest) \<Longrightarrow> clean rest"
  by (induction s arbitrary: acc) (auto simp: clean_def split: if_splits)

lemma parse_url_hosted:
  assumes "parse_url ip s = Some u" "CHR ''#'' \<notin> set s"
  shows "hosted u"
proof -
  have h: "hosted (no_url\<lparr>Scheme := x, ForceQuery := fq, RawQuery := q\<rparr>)" if "clean q" "fq \<longrightarrow> q = []" for x fq q
    using that by (simp add: hosted_def no_url_def)
  have c: "clean s" using assms by (auto simp: parse_url_def clean_def split: if_splits)
  show ?thesis
  proof (cases "s = ''*''")
    case True
    with assms c show ?thesis by (auto simp: parse_url_def hosted_def no_url_def clean_def)
  next
    case False
    with assms(1) c obtain sch rest where g: "getScheme s = Some (sch, rest)"
      by (auto simp: parse_url_def clean_def split: option.splits)
    then have r: "clean rest" using c clean_scheme_from [of s "[]"] by (auto simp: getScheme_def split: option.splits if_splits)
    from assms(1) c False g obtain fq q a where
      "parse_rest ip a (no_url\<lparr>Scheme := to_lower sch, ForceQuery := fq, RawQuery := q\<rparr>) = Some u" "clean q" "fq \<longrightarrow> q = []"
      using r clean_Cut [OF r, of "CHR ''?''"]
      by (fastforce simp: parse_url_def clean_def no_url_def Let_def split: if_splits)
    from parse_rest_hosted [OF this(1) h] this(2,3) show ?thesis by (simp add: no_url_def)
  qed
qed

lemma go_Parse_hosted: "go_Parse ip s = Some u \<Longrightarrow> hosted u"
proof -
  assume p: "go_Parse ip s = Some u"
  have "CHR ''#'' \<notin> set (fst (Cut CHR ''#'' s))"
    by (auto simp: Cut_def dest: cut_SomeD split: option.split)
  with p parse_url_hosted [of ip "fst (Cut CHR ''#'' s)"] show ?thesis
    by (auto simp: go_Parse_def hosted_def split: option.splits prod.splits if_splits)
qed

section \<open>Canonical URLs\<close>

lemma EqualFold_Nil: "EqualFold [] host \<Longrightarrow> host = []"
  by (cases host) (simp_all add: EqualFold_def runes_of_def split: prod.splits)

lemma trim_right_idem: "trim_right c (trim_right c p) = trim_right c p"
  by (simp add: trim_right_def)

lemma base_parse:
  assumes "plain_site cfg sch host"
  shows "go_Parse ip (BaseUrl cfg) = Some (site_url sch host [] False [])"
  using parse_site [of sch host "[]" "[]" False ip] assms
  by (simp add: plain_site_def rooted_def clean_def escape_def query_text_def)

definition listing_path :: "string \<Rightarrow> bool" where
  "listing_path p \<longleftrightarrow> trim_right CHR ''/'' p = p \<and> (p \<in> set discovery_pages \<or> prefix ''/user/'' p \<or> prefix ''/contest/'' p)"

definition video_id :: "string \<Rightarrow> bool" where
  "video_id vid \<longleftrightarrow> vid \<noteq> [] \<and> \<not> contains_any vid unsafe_id_chars"

definition site_text :: "string \<Rightarrow> string \<Rightarrow> string \<Rightarrow> bool \<Rightarrow> string \<Rightarrow> url" where
  "site_text sch host p fq q = sch @ ''://'' @ host @ escape encodePath p @ query_text fq q"

definition video_query :: "string \<Rightarrow> string" where
  "video_query vid = ''v='' @ escape encodeQueryComponent vid"

lemma listing_path_facts: "listing_path p \<Longrightarrow> rooted p \<and> p \<noteq> ''/watch''"
  by (auto simp: listing_path_def rooted_def discovery_pages_def prefix_def)

lemma video_query_clean: "clean (video_query vid)"
  using escape_no_ctl [of encodeQueryComponent vid] escape_no_special [of "CHR ''#''" encodeQueryComponent vid]
  by (auto simp: clean_def video_query_def special_def ctl_byte_def)

lemma video_text: "BaseUrl cfg @ VideoPattern cfg @ escape encodeQueryComponent vid = site_text sch host ''/watch'' False (video_query vid)"
  if "plain_site cfg sch host"
proof -
  have "escape encodePath ''/watch'' = ''/watch''" by code_simp
  with that show ?thesis by (simp add: plain_site_def site_text_def query_text_def video_query_def)
qed

lemma video_Get: "go_Get (site_url sch host p fq (video_query vid)) ''v'' = vid"
proof -
  let ?e = "escape encodeQueryComponent vid"
  have "CHR ''&'' \<notin> set ?e" "CHR '';'' \<notin> set ?e" by (rule escape_avoids; code_simp)+
  then have "split_on CHR ''&'' (video_query vid) = [video_query vid]" "CHR '';'' \<notin> set (video_query vid)"
    by (simp_all add: split_on_no video_query_def)
  moreover have "Cut CHR ''='' (video_query vid) = (''v'', ?e)" by (simp add: Cut_def video_query_def)
  moreover have "unescape encodeQueryComponent ''v'' = Some ''v''" by code_simp
  moreover have "unescape encodeQueryComponent ?e = Some vid" by (rule unescape_escape) simp
  moreover have "video_query vid \<noteq> []" by (simp add: video_query_def)
  ultimately show ?thesis by (simp add: go_Get_def parameter_def site_url_def List.map_filter_simps del: unescape.simps)
qed

lemma canonicalize_parsed:
  assumes "plain_site cfg sch host" "go_Parse ip raw = Some u" "\<not> HasUser u" "Scheme u = sch" "EqualFold (Host u) host"
  shows "canonicalize (go_url ip) cfg raw =
    (let u1 = u\<lparr>Fragment := [], Host := host\<rparr>; p = trim_right CHR ''/'' (Path u); vid = go_Get u1 ''v'' in
     if p = ''/watch'' then (if video_id vid then site_text sch host ''/watch'' False (video_query vid) else [])
     else if listing_path p then go_String (u1\<lparr>Path := p, RawPath := []\<rparr>) else [])"
proof -
  have "listing_path p \<longleftrightarrow> p \<in> set discovery_pages \<or> prefix ''/user/'' p \<or> prefix ''/contest/'' p"
    if "p = trim_right CHR ''/'' (Path u)" for p
    using that by (simp add: listing_path_def trim_right_idem)
  with assms base_parse [OF assms(1), of ip] video_text [OF assms(1)] show ?thesis
    by (simp add: canonicalize_def go_url_def site_url_def video_id_def Let_def)
qed

lemma canonicalize_cases:
  assumes "plain_site cfg sch host" "canonicalize (go_url ip) cfg raw \<noteq> []"
  obtains vid where "video_id vid" "canonicalize (go_url ip) cfg raw = site_text sch host ''/watch'' False (video_query vid)"
  | p fq q where "listing_path p" "clean q" "fq \<longrightarrow> q = []" "canonicalize (go_url ip) cfg raw = site_text sch host p fq q"
proof -
  from assms(2) base_parse [OF assms(1), of ip] obtain u where
    u: "go_Parse ip raw = Some u" "\<not> HasUser u" "Scheme u = sch" "EqualFold (Host u) host"
    by (auto simp: canonicalize_def go_url_def site_url_def split: option.splits if_splits)
  have host: "sch \<noteq> []" "host \<noteq> []" "list_all host_byte host" using assms(1) by (auto simp: plain_site_def)
  with u(4) EqualFold_Nil have "Host u \<noteq> []" by metis
  with go_Parse_hosted [OF u(1)] have h: "clean (RawQuery u)" "ForceQuery u \<longrightarrow> RawQuery u = []" "Opaque u = []" "\<not> OmitHost u"
    by (auto simp: hosted_def)
  let ?p = "trim_right CHR ''/'' (Path u)"
  have "go_String (u\<lparr>Fragment := [], Host := host, Path := ?p, RawPath := []\<rparr>) = site_text sch host ?p (ForceQuery u) (RawQuery u)"
    if "listing_path ?p"
    using site_String [OF host, of ?p] listing_path_facts [OF that] u h by (cases u) (simp add: site_text_def site_url_def)
  with canonicalize_parsed [OF assms(1) u] that assms(2) h show thesis by (auto simp: Let_def split: if_splits)
qed

lemma canonicalize_video:
  assumes "plain_site cfg sch host" "video_id vid"
  shows "canonicalize (go_url ip) cfg (site_text sch host ''/watch'' False (video_query vid)) =
    site_text sch host ''/watch'' False (video_query vid)"
proof -
  have "go_Parse ip (site_text sch host ''/watch'' False (video_query vid)) = Some (site_url sch host ''/watch'' False (video_query vid))"
    using parse_site [of sch host "''/watch''" "video_query vid" False ip] assms video_query_clean [of vid]
    by (simp add: site_text_def plain_site_def rooted_def)
  moreover have "trim_right CHR ''/'' ''/watch'' = ''/watch''" by code_simp
  ultimately show ?thesis
    using canonicalize_parsed [OF assms(1), of ip _ "site_url sch host ''/watch'' False (video_query vid)"] assms(2)
      video_Get [of sch host "''/watch''" False vid]
    by (simp add: EqualFold_def site_url_def)
qed

lemma canonicalize_listing:
  assumes "plain_site cfg sch host" "listing_path p" "clean q" "fq \<longrightarrow> q = []"
  shows "canonicalize (go_url ip) cfg (site_text sch host p fq q) = site_text sch host p fq q"
proof -
  have site: "sch \<noteq> []" "list_all lower_byte sch" "host \<noteq> []" "list_all host_byte host" using assms(1) by (auto simp: plain_site_def)
  note p = listing_path_facts [OF assms(2)]
  have "go_Parse ip (site_text sch host p fq q) = Some (site_url sch host p fq q)"
    using parse_site [OF site(1,2,4) _ assms(3,4)] p by (simp add: site_text_def)
  moreover have "go_String (site_url sch host p fq q) = site_text sch host p fq q"
    using site_String [OF site(1,3,4)] p by (simp add: site_text_def)
  moreover have "trim_right CHR ''/'' p = p" using assms(2) by (simp add: listing_path_def)
  ultimately show ?thesis
    using canonicalize_parsed [OF assms(1), of ip _ "site_url sch host p fq q"] p assms(2)
    by (simp add: EqualFold_def site_url_def Let_def)
qed

lemma site_text_parse:
  assumes "plain_site cfg sch host" "rooted p" "clean q" "fq \<longrightarrow> q = []"
  shows "go_Parse ip (site_text sch host p fq q) = Some (site_url sch host p fq q)" "prefix (BaseUrl cfg) (site_text sch host p fq q)"
  using parse_site [of sch host p q fq ip] assms by (auto simp: site_text_def plain_site_def)

text \<open>C19: Canonical URLs are fixed points, and stay on the site. Canonicalizing a canonical URL gives it back,
  so a URL that was admitted is never skipped as excluded when its job is leased; and the canonical URL
  is parsed as a URL of the base site without user and fragment, whatever link it came from.\<close>

theorem canonicalize_idempotent:
  assumes "plain_site cfg sch host"
  shows "let u = canonicalize (go_url ip) cfg raw
    in canonicalize (go_url ip) cfg u = u \<and>
       (u \<noteq> [] \<longrightarrow> prefix (BaseUrl cfg) u \<and>
         (\<exists>r. url_Parse (go_url ip) u = Some r \<and> Scheme r = sch \<and> Host r = host \<and> \<not> HasUser r \<and> Fragment r = []))"
proof (cases "canonicalize (go_url ip) cfg raw = []")
  case True
  have "go_Parse ip [] = Some no_url" by (simp add: go_Parse_def Cut_def parse_url_def getScheme_def
        parse_rest_def setPath_def escape_def no_url_def to_lower_def Let_def)
  with base_parse [OF assms, of ip] assms have "canonicalize (go_url ip) cfg [] = []"
    by (auto simp: canonicalize_def go_url_def plain_site_def no_url_def site_url_def)
  with True show ?thesis by simp
next
  case False
  show ?thesis
  proof (rule canonicalize_cases [OF assms False])
    fix vid
    assume "video_id vid" "canonicalize (go_url ip) cfg raw = site_text sch host ''/watch'' False (video_query vid)"
    with canonicalize_video [OF assms] site_text_parse(1) [OF assms, of "''/watch''" "video_query vid" False ip]
      site_text_parse(2) [OF assms, of "''/watch''" "video_query vid" False] video_query_clean
    show ?thesis by (simp add: rooted_def go_url_def site_url_def)
  next
    fix p fq q
    assume "listing_path p" "clean q" "fq \<longrightarrow> q = []" "canonicalize (go_url ip) cfg raw = site_text sch host p fq q"
    with canonicalize_listing [OF assms] site_text_parse(1) [OF assms, of p q fq ip] site_text_parse(2) [OF assms, of p q fq] listing_path_facts [of p]
    show ?thesis by (simp add: go_url_def site_url_def)
  qed
qed

theorem canonicalize_idempotent_witness:
  "plain_site (Load (\<lambda>_. [])) ''https'' ''www.vidlii.com'' \<and>
   (let u = canonicalize (go_url (\<lambda>_. None)) (Load (\<lambda>_. [])) ''https://WWW.vidlii.com/user/a%2fb/?p=1#top''
    in canonicalize (go_url (\<lambda>_. None)) (Load (\<lambda>_. [])) u = u \<and>
       (u \<noteq> [] \<longrightarrow> prefix (BaseUrl (Load (\<lambda>_. []))) u \<and>
         (\<exists>r. url_Parse (go_url (\<lambda>_. None)) u = Some r \<and> Scheme r = ''https'' \<and> Host r = ''www.vidlii.com'' \<and>
            \<not> HasUser r \<and> Fragment r = []))) \<and>
   canonicalize (go_url (\<lambda>_. None)) (Load (\<lambda>_. [])) ''https://WWW.vidlii.com/user/a%2fb/?p=1#top'' =
     ''https://www.vidlii.com/user/a/b?p=1''"
proof (intro conjI)
  show site: "plain_site (Load (\<lambda>_. [])) ''https'' ''www.vidlii.com''" by code_simp
  show "canonicalize (go_url (\<lambda>_. None)) (Load (\<lambda>_. [])) ''https://WWW.vidlii.com/user/a%2fb/?p=1#top'' =
     ''https://www.vidlii.com/user/a/b?p=1''" by code_simp
  show "let u = canonicalize (go_url (\<lambda>_. None)) (Load (\<lambda>_. [])) ''https://WWW.vidlii.com/user/a%2fb/?p=1#top''
    in canonicalize (go_url (\<lambda>_. None)) (Load (\<lambda>_. [])) u = u \<and>
       (u \<noteq> [] \<longrightarrow> prefix (BaseUrl (Load (\<lambda>_. []))) u \<and>
         (\<exists>r. url_Parse (go_url (\<lambda>_. None)) u = Some r \<and> Scheme r = ''https'' \<and> Host r = ''www.vidlii.com'' \<and>
            \<not> HasUser r \<and> Fragment r = []))"
    by (rule canonicalize_idempotent [OF site])
qed

section \<open>Redirects\<close>

text \<open>The \<open>CheckRedirect\<close> hook of \<open>workerLoop\<close>: whether the client follows a redirect to \<open>req\<close> after the requests
  \<open>prior\<close> (\<open>via\<close> in the code); \<open>None\<close> is the panic when there is none. The URLs are given as printed.\<close>

definition CheckRedirect :: "net_url \<Rightarrow> Config \<Rightarrow> string \<Rightarrow> string list \<Rightarrow> bool option" where
  "CheckRedirect net cfg req prior =
     (if length prior \<ge> 10 then Some False
      else let destination = canonicalize net cfg req in
        if destination = [] then Some False
        else case prior of
          [] \<Rightarrow> None
        | v # _ \<Rightarrow>
            (let original = canonicalize net cfg v
             in Some (\<not> (str_contains original (VideoPattern cfg) \<and> destination \<noteq> original))))"

text \<open>The requests of the HTTP client for one page, given the destinations the server names in turn.\<close>

fun redirects :: "net_url \<Rightarrow> Config \<Rightarrow> string list \<Rightarrow> string list \<Rightarrow> string list" where
  "redirects net cfg prior [] = prior"
| "redirects net cfg prior (req # reqs) =
     (if CheckRedirect net cfg req prior = Some True then redirects net cfg (prior @ [req]) reqs else prior)"

lemma redirects_inv:
  assumes "prior = v # vs" "length prior \<le> 10"
    "\<forall>u \<in> set vs. canonicalize net cfg u \<noteq> [] \<and>
       (str_contains (canonicalize net cfg v) (VideoPattern cfg) \<longrightarrow> canonicalize net cfg u = canonicalize net cfg v)"
  shows "\<exists>us. redirects net cfg prior reqs = v # us \<and> length (v # us) \<le> 10 \<and>
    (\<forall>u \<in> set us. canonicalize net cfg u \<noteq> [] \<and>
       (str_contains (canonicalize net cfg v) (VideoPattern cfg) \<longrightarrow> canonicalize net cfg u = canonicalize net cfg v))"
  using assms
proof (induction reqs arbitrary: prior vs)
  case (Cons req reqs)
  show ?case
  proof (cases "CheckRedirect net cfg req prior = Some True")
    case True
    then have "\<not> length prior \<ge> 10" "canonicalize net cfg req \<noteq> []"
      "str_contains (canonicalize net cfg v) (VideoPattern cfg) \<longrightarrow> canonicalize net cfg req = canonicalize net cfg v"
      using Cons.prems(1) by (auto simp: CheckRedirect_def Let_def split: if_splits)
    with True Cons.prems show ?thesis using Cons.IH [of "prior @ [req]" "vs @ [req]"] by auto
  qed (use Cons.prems in auto)
qed auto

text \<open>Redirects are bounded and stay on the site. For one page the client sends at most ten requests,
  every redirect it follows leads to a URL that the crawler would admit, and a video page is redirected
  only to a URL with the same canonical form, so no video is stored under the URL of another.\<close>

theorem redirects_stay:
  "\<exists>us. redirects net cfg [page] reqs = page # us \<and> length us < 10 \<and>
    (\<forall>u \<in> set us. canonicalize net cfg u \<noteq> [] \<and>
       (str_contains (canonicalize net cfg page) (VideoPattern cfg) \<longrightarrow>
          canonicalize net cfg u = canonicalize net cfg page))"
  using redirects_inv [of "[page]" page "[]" net cfg reqs] by auto

theorem redirects_stay_witness:
  "(let net = go_url (\<lambda>_. None); cfg = Load (\<lambda>_. []); page = ''https://www.vidlii.com/watch?v=a'';
        reqs = [''https://www.vidlii.com/watch/?x=1&v=a'', ''https://www.vidlii.com/videos'']
    in (\<exists>us. redirects net cfg [page] reqs = page # us \<and> length us < 10 \<and>
      (\<forall>u \<in> set us. canonicalize net cfg u \<noteq> [] \<and>
         (str_contains (canonicalize net cfg page) (VideoPattern cfg) \<longrightarrow>
            canonicalize net cfg u = canonicalize net cfg page)))) \<and>
   redirects (go_url (\<lambda>_. None)) (Load (\<lambda>_. [])) [''https://www.vidlii.com/watch?v=a'']
      [''https://www.vidlii.com/watch/?x=1&v=a'', ''https://www.vidlii.com/videos''] =
     [''https://www.vidlii.com/watch?v=a'', ''https://www.vidlii.com/watch/?x=1&v=a'']"
proof
  show "redirects (go_url (\<lambda>_. None)) (Load (\<lambda>_. [])) [''https://www.vidlii.com/watch?v=a'']
      [''https://www.vidlii.com/watch/?x=1&v=a'', ''https://www.vidlii.com/videos''] =
     [''https://www.vidlii.com/watch?v=a'', ''https://www.vidlii.com/watch/?x=1&v=a'']" by code_simp
qed (unfold Let_def, rule redirects_stay)

end
