(* ===== verification/Crawl_Saveable.thy ===== *)
theory Crawl_Saveable
  imports Crawl_Checkpoint_Correct Worker_Canonical
begin

text \<open>
  The URLs the workers admit against the URLs a checkpoint can save: canonical URLs of listings keep
  their query as it was written, and a query with a space or a bar is one that no checkpoint accepts.
\<close>

lemma site_Hostname:
  assumes "list_all host_byte host"
  shows "go_Hostname (site_url sch host p fq q) = host"
proof -
  have "CHR '':'' \<notin> set host" "CHR ''['' \<notin> set host" using assms by (auto simp: list_all_iff dest: host_plain)
  then have "cut_last CHR '':'' host = None" "\<not> prefix ''['' host"
    by (simp add: cut_last_def) (use \<open>CHR ''['' \<notin> set host\<close> in \<open>cases host; auto\<close>)
  then show ?thesis by (simp add: go_Hostname_def site_url_def)
qed

lemma site_text_url_ok:
  assumes "plain_site cfg sch host" "sch \<in> {''http'', ''https''}" "rooted p" "clean q" "fq \<longrightarrow> q = []"
  shows "url_ok (go_url ip) (site_text sch host p fq q) \<longleftrightarrow>
    CHR '' '' \<notin> set (site_text sch host p fq q) \<and> CHR ''|'' \<notin> set (site_text sch host p fq q)"
proof -
  let ?u = "site_text sch host p fq q"
  have site: "host \<noteq> []" "list_all lower_byte sch" "list_all host_byte host" using assms(1) by (auto simp: plain_site_def)
  have "clean ?u" using site_clean [OF site(2,3) assms(4)] by (simp add: site_text_def)
  then have "CHR 0x0D \<notin> set ?u" "CHR 0x0A \<notin> set ?u" "CHR 0x09 \<notin> set ?u"
    by (auto simp: clean_def list_ex_iff ctl_byte_def)
  then have "contains_any ?u [CHR ''|'', CHR 0x0D, CHR 0x0A, CHR 0x09, CHR '' ''] \<longleftrightarrow> CHR '' '' \<in> set ?u \<or> CHR ''|'' \<in> set ?u"
    by (auto simp: contains_any_def list_ex_iff)
  moreover have "url_Parse (go_url ip) ?u = Some (site_url sch host p fq q)"
    using site_text_parse(1) [OF assms(1,3-5)] by (simp add: go_url_def)
  moreover have "url_Hostname (go_url ip) (site_url sch host p fq q) = host"
    using site_Hostname [OF site(3)] by (simp add: go_url_def)
  moreover have "Scheme (site_url sch host p fq q) = sch" "\<not> HasUser (site_url sch host p fq q)" "Fragment (site_url sch host p fq q) = []"
    by (simp_all add: site_url_def)
  ultimately show ?thesis using site(1) assms(2) by (auto simp: url_ok_def)
qed

lemma canonical_url_ok:
  assumes "plain_site cfg sch host" "sch \<in> {''http'', ''https''}" "canonicalize (go_url ip) cfg raw \<noteq> []"
  shows "url_ok (go_url ip) (canonicalize (go_url ip) cfg raw) \<longleftrightarrow>
    CHR '' '' \<notin> set (canonicalize (go_url ip) cfg raw) \<and> CHR ''|'' \<notin> set (canonicalize (go_url ip) cfg raw)"
proof (rule canonicalize_cases [OF assms(1,3)])
  fix vid
  assume "canonicalize (go_url ip) cfg raw = site_text sch host ''/watch'' False (video_query vid)"
  with site_text_url_ok [OF assms(1,2) _ video_query_clean, of "''/watch''" False vid ip] show ?thesis by (simp add: rooted_def)
next
  fix p fq q
  assume "listing_path p" "clean q" "fq \<longrightarrow> q = []" "canonicalize (go_url ip) cfg raw = site_text sch host p fq q"
  with site_text_url_ok [OF assms(1,2), of p q fq ip] listing_path_facts [of p] show ?thesis by simp
qed

text \<open>A pass that scans a URL it cannot save fails.\<close>

lemma unsaveable_fails:
  assumes "redis_server call data" "\<not> url_ok net u" "Checkpoint call net E st a b c col x = Some (err, p')"
    "u \<in> scanned a \<union> scanned b \<union> scanned c"
  shows "err \<noteq> None"
proof
  assume "err = None"
  then have "progress (\<lambda>_. True) net (scanned a \<union> scanned b \<union> scanned c) True col (coll p')"
    using redis_server.Checkpoint_progress [OF assms(1,3), of "\<lambda>_. True"] by (simp add: undisturbed_def)
  with assms(4) obtain d row where "row_of net u d = Inr row" unfolding progress_def saved_def by blast
  with row_of_next have "validate net row = None" "rowURL row = u" by blast+
  with assms(2) show False by (simp add: validate_def split: if_splits)
qed

lemma admit_new_listing:
  assumes "redis_reliable call data" "delivered e" "healthy 1 (data s)" "dead (data s) u = None" "listing_next (data s) u = None"
    "canonicalize net cfg raw = u" "u \<noteq> []" "\<not> str_contains u (VideoPattern cfg)"
  shows "\<exists>s'. admitURL (NewFrontier call fcfg cl) net cfg e raw s = (Inr New, s') \<and>
    listing_next (data s') u = Some PendingScore \<and> ready (data s') = next_member (data s) u # ready (data s)"
  using AdmitListing_exact [OF assms(1-3), of u] assms(4-8)
  by (auto simp: admitURL_def NewFrontier_def spec_admit_listing_def blocked_def push_job_def admit_result_def)

text \<open>C20: The workers admit listings that stop every checkpoint. A canonical URL can be saved exactly when it
  has no space and no bar. A link to a listing page of the site whose query has a space or a bar is
  canonical as it stands, and admitURL on a healthy frontier that has not seen it answers New, queues it and
  puts it into the listing schedule, one of the collections a checkpoint scans; and no pass that scans it succeeds.\<close>

theorem unsaveable_listings:
  assumes "plain_site cfg sch host" "sch \<in> {''http'', ''https''}" "listing_path p" "clean q"
    "CHR '' '' \<in> set q \<or> CHR ''|'' \<in> set q" "u = sch @ ''://'' @ host @ escape encodePath p @ ''?'' @ q"
    "\<not> str_contains u (VideoPattern cfg)"
    "redis_reliable call data" "delivered e" "healthy 1 (data s)" "dead (data s) u = None" "listing_next (data s) u = None"
  shows "(\<forall>raw. let w = canonicalize (go_url ip) cfg raw in w \<noteq> [] \<longrightarrow>
      (url_ok (go_url ip) w \<longleftrightarrow> CHR '' '' \<notin> set w \<and> CHR ''|'' \<notin> set w)) \<and>
    canonicalize (go_url ip) cfg u = u \<and>
    (\<exists>s'. admitURL (NewFrontier call fcfg cl) (go_url ip) cfg e u s = (Inr New, s') \<and>
       listing_next (data s') u = Some PendingScore \<and> ready (data s') = next_member (data s) u # ready (data s)) \<and>
    (\<forall>E st a b c col x err p'. Checkpoint call (go_url ip) E st a b c col x = Some (err, p') \<and>
       u \<in> scanned a \<union> scanned b \<union> scanned c \<longrightarrow> err \<noteq> None)"
proof -
  have ok: "w \<noteq> [] \<Longrightarrow> url_ok (go_url ip) w \<longleftrightarrow> CHR '' '' \<notin> set w \<and> CHR ''|'' \<notin> set w"
    if "w = canonicalize (go_url ip) cfg raw" for w raw
    using canonical_url_ok [OF assms(1,2)] that by simp
  have "q \<noteq> []" using assms(5) by auto
  then have u: "u = site_text sch host p False q" using assms(6) by (simp add: site_text_def query_text_def)
  then have can: "canonicalize (go_url ip) cfg u = u" using canonicalize_listing [OF assms(1,3,4), of False ip] by simp
  have ne: "u \<noteq> []" and bad: "CHR '' '' \<in> set u \<or> CHR ''|'' \<in> set u" using assms(5,6) by auto
  have "\<not> url_ok (go_url ip) u" using ok [OF can [symmetric] ne] bad by blast
  moreover have "redis_server call data" using assms(8) by (simp add: redis_reliable_def)
  ultimately have fails: "err \<noteq> None"
    if "Checkpoint call (go_url ip) E st a b c col x = Some (err, p')" "u \<in> scanned a \<union> scanned b \<union> scanned c"
    for E st a b c col x err p' using unsaveable_fails that by metis
  show ?thesis
  proof (intro conjI)
    show "\<forall>raw. let w = canonicalize (go_url ip) cfg raw in w \<noteq> [] \<longrightarrow>
        (url_ok (go_url ip) w \<longleftrightarrow> CHR '' '' \<notin> set w \<and> CHR ''|'' \<notin> set w)" using ok by (simp add: Let_def)
    show "\<exists>s'. admitURL (NewFrontier call fcfg cl) (go_url ip) cfg e u s = (Inr New, s') \<and>
        listing_next (data s') u = Some PendingScore \<and> ready (data s') = next_member (data s) u # ready (data s)"
      by (rule admit_new_listing [OF assms(8-12) can ne assms(7)])
  qed (use can fails in blast)+
qed

definition spaced_url :: url where
  "spaced_url = ''https://www.vidlii.com/results?q=a b''"

theorem unsaveable_listings_witness:
  "(\<exists>s'. admitURL (NewFrontier store_call DefaultFrontierConfig None) (go_url (\<lambda>_. None)) (Load (\<lambda>_. []))
       (call_at (100 * second)) spaced_url empty_store = (Inr New, s') \<and>
     listing_next (store_data s') spaced_url = Some PendingScore) \<and>
   (case Checkpoint store_call (go_url (\<lambda>_. None)) quiet (sample_store\<lparr>startupComplete := True\<rparr>)
       [calm_page [spaced_url, ''0'']] [calm_page []] [calm_page []] Map.empty \<lparr>srv = empty_store, step = 0\<rparr> of
      None \<Rightarrow> False | Some (err, p') \<Rightarrow> err \<noteq> None)"
proof -
  let ?pass = "Checkpoint store_call (go_url (\<lambda>_. None)) quiet (sample_store\<lparr>startupComplete := True\<rparr>)
       [calm_page [spaced_url, ''0'']] [calm_page []] [calm_page []] Map.empty \<lparr>srv = empty_store, step = 0\<rparr>"
  have site: "plain_site (Load (\<lambda>_. [])) ''https'' ''www.vidlii.com''" by code_simp
  have page: "listing_path ''/results''" by code_simp
  have query: "clean ''q=a b''" by code_simp
  have url: "spaced_url = ''https'' @ ''://'' @ ''www.vidlii.com'' @ escape encodePath ''/results'' @ ''?'' @ ''q=a b''"
    by code_simp
  have listing: "\<not> str_contains spaced_url (VideoPattern (Load (\<lambda>_. [])))" by code_simp
  have "job_seq (store_data empty_store) + int 1 \<le> id_limit" by code_simp
  then have h: "healthy 1 (store_data empty_store)"
    by (rule replay_healthy_by [of _ "[]", rotated 2]) (simp_all add: replay_def)
  have fresh: "dead (store_data empty_store) spaced_url = None" "listing_next (store_data empty_store) spaced_url = None"
    by (simp_all add: store_data_def empty_store_def)
  have sch: "''https'' \<in> {''http'', ''https''}" "CHR '' '' \<in> set ''q=a b'' \<or> CHR ''|'' \<in> set ''q=a b''" by simp_all
  note claim = unsaveable_listings [OF site sch(1) page query sch(2) url listing store.redis_reliable_axioms
      delivered_call_at [of "100 * second"] h fresh, where ip = "\<lambda>_. None" and fcfg = DefaultFrontierConfig and cl = None]
  have "case ?pass of None \<Rightarrow> False | Some _ \<Rightarrow> True" by code_simp
  then obtain err p' where p: "?pass = Some (err, p')" by (auto split: option.splits)
  moreover have "spaced_url \<in> scanned [calm_page [spaced_url, ''0'']]" by (simp add: calm_page_def)
  ultimately have "err \<noteq> None" using claim by blast
  with p have "case ?pass of None \<Rightarrow> False | Some (err, p') \<Rightarrow> err \<noteq> None" by simp
  with claim show ?thesis by blast
qed

end
