(* ===== verification/Test_Mode.thy ===== *)
theory Test_Mode
  imports Worker Frontier_Correct "HOL-Library.AList"
begin

text \<open>
  The bounded test crawl of \<open>src/internal/crawler/crawler.go\<close>: what the workers record under the
  crawler's mutex (\<open>test_state\<close>, with the debug branches of \<open>workerLoop\<close> in \<open>worker.go\<close> as
  \<open>turn_events\<close>), the checks \<open>RunTest\<close> makes before and after, and \<open>TestWorkerSummary\<close>. Worker goroutines run concurrently:
  their observations are interleaved in some order, and what \<open>RunTest\<close> reads while they run
  is an argument (\<open>poll\<close>).
\<close>

section \<open>Observations\<close>

definition maxTestVideos :: int where "maxTestVideos = 200"
definition testDeadline :: duration where "testDeadline = 600 * second"

text \<open>A Go map is an association list; a missing key counts as zero.\<close>

record test_state =
  testActive :: "(url \<times> int) list"
  testParsed :: "int list"
  testErr :: "go_error option"
  testStored :: "int list"
  testRetired :: "string list"
  testFailures :: "(string \<times> int) list list"
  testFinished :: int

definition count_of :: "'a \<Rightarrow> ('a \<times> int) list \<Rightarrow> int" where
  "count_of k m = (case map_of m k of None \<Rightarrow> 0 | Some n \<Rightarrow> n)"

definition test_reset :: "Config \<Rightarrow> test_state" where
  "test_reset cfg =
     (let n = nat (Workers cfg)
      in \<lparr>testActive = [], testParsed = replicate n 0, testErr = None, testStored = replicate n 0,
          testRetired = replicate n [], testFailures = replicate n [], testFinished = 0\<rparr>)"

definition recordTestStart :: "url \<Rightarrow> test_state \<Rightarrow> test_state" where
  "recordTestStart url c =
     (let c1 = (if count_of url (testActive c) > 0 \<and> testErr c = None
                then c\<lparr>testErr := Some (OtherErr (''test detected concurrent processing of '' @ url))\<rparr> else c)
      in c1\<lparr>testActive := AList.update url (count_of url (testActive c) + 1) (testActive c)\<rparr>)"

definition bump_at :: "nat \<Rightarrow> int list \<Rightarrow> int list" where
  "bump_at i xs = xs[i := xs ! i + 1]"

definition recordTestFinish :: "nat \<Rightarrow> url \<Rightarrow> pageOutcome \<Rightarrow> test_state \<Rightarrow> test_state" where
  "recordTestFinish workerID url out c =
     (let active = AList.update url (count_of url (testActive c) - 1) (testActive c);
          c1 = c\<lparr>testActive := (if count_of url active = 0 then AList.delete url active else active)\<rparr>;
          c2 = (if kind out = pageVideo \<or> kind out = pageListing
                then c1\<lparr>testParsed := bump_at workerID (testParsed c1)\<rparr> else c1)
      in if kind out = pageRetryable \<or> kind out = pageInvalidResponse \<or> kind out = pageUnknown then
           (let why = (if reason out = [] then ''unknown_response'' else reason out);
                m = testFailures c2 ! workerID
            in c2\<lparr>testFailures := (testFailures c2)[workerID := AList.update why (count_of why m + 1) m]\<rparr>)
         else c2)"

definition hasTestFailure :: "test_state \<Rightarrow> bool" where
  "hasTestFailure c \<longleftrightarrow> testErr c \<noteq> None"

text \<open>What a worker records, in the order of \<open>workerLoop\<close>.\<close>

datatype test_event =
    Started url
  | Processed nat url pageOutcome
  | Stored nat
  | Retired nat string
  | Finished

fun record_event :: "test_event \<Rightarrow> test_state \<Rightarrow> test_state" where
  "record_event (Started u) c = recordTestStart u c"
| "record_event (Processed i u out) c = recordTestFinish i u out c"
| "record_event (Stored i) c = c\<lparr>testStored := bump_at i (testStored c)\<rparr>"
| "record_event (Retired i why) c = c\<lparr>testRetired := (testRetired c)[i := why]\<rparr>"
| "record_event Finished c = c\<lparr>testFinished := testFinished c + 1\<rparr>"

text \<open>The debug branches of one turn, beside \<open>worker_turn\<close>: only a turn that fetches records anything.\<close>

definition turn_events :: "'s frontier_methods \<Rightarrow> net_url \<Rightarrow> 'm upsert \<Rightarrow> (int \<Rightarrow> bool) \<Rightarrow> Config \<Rightarrow> nat \<Rightarrow>
    turn \<times> workerFailures \<times> ('s, 'm) world \<Rightarrow> test_event list" where
  "turn_events F net ups isLetter cfg workerID h =
     (case h of (t, f, w) \<Rightarrow>
        if ctx_done t \<or> vcount w \<ge> maxTestVideos then []
        else case with_server (fr_Lease F (lease_env (envs t))) w of
          (Inr (Some job), w1) \<Rightarrow>
            if canonicalize net cfg (URL job) = [] \<or> limiter_failed t then []
            else
              (let out = process isLetter cfg (URL job) (ctx_done_later t) (fetched t);
                   f1 = fst (observe out f);
                   stored = fst (handleOutcome F net ups cfg (envs t) job out w1)
               in [Started (URL job), Processed workerID (URL job) out] @
                  (if stored then [Stored workerID] else []) @
                  (if kind out = pageInvalidResponse \<and> reason out = ''uk_access_notice'' then [Retired workerID ''access_blocked'']
                   else if consecutiveRateLimited f1 \<ge> workerRateLimitStop then [Retired workerID ''rate_limited'']
                   else []))
        | _ \<Rightarrow> [])"

definition worker_events :: "'s frontier_methods \<Rightarrow> net_url \<Rightarrow> 'm upsert \<Rightarrow> (int \<Rightarrow> bool) \<Rightarrow> Config \<Rightarrow> nat \<Rightarrow>
    (turn \<times> workerFailures \<times> ('s, 'm) world) list \<Rightarrow> test_event list" where
  "worker_events F net ups isLetter cfg workerID hs =
     concat (map (turn_events F net ups isLetter cfg workerID) hs) @ [Finished]"

section \<open>Checks\<close>

text \<open>The problems \<open>errors.Join\<close> collects; the result is an error when there is one.\<close>

definition worker_problem :: "test_state \<Rightarrow> nat \<Rightarrow> string list" where
  "worker_problem c i =
     (if testRetired c ! i \<noteq> [] then [''test worker '' @ show_nat i @ '' stopped: '' @ testRetired c ! i]
      else if testStored c ! i = 0 then [''test worker '' @ show_nat i @ '' did not store a video'']
      else [])"

definition validateTestWorkers :: "test_state \<Rightarrow> string list" where
  "validateTestWorkers c =
     (case testErr c of None \<Rightarrow> [] | Some err \<Rightarrow> [case err of OtherErr m \<Rightarrow> m | _ \<Rightarrow> ''error'']) @
     (if length (testActive c) \<noteq> 0 then [''test finished with unfinished processing observations''] else []) @
     concat (map (worker_problem c) [0 ..< length (testParsed c)])"

record summary =
  verified :: int
  unverified :: int
  retired :: int
  withErrors :: int
  writes :: int
  rows_text :: string

definition nl :: string where "nl = [CHR 0x0A]"

definition summary_row :: "nat \<Rightarrow> string \<Rightarrow> int \<Rightarrow> int \<Rightarrow> (string \<times> int) list \<Rightarrow> string" where
  "summary_row i status parsed stored failures =
     nl @ ''worker='' @ show_nat i @ '' proxy_slot='' @ show_nat i @ '' result='' @ status @
     '' parsed_pages='' @ show_int parsed @ '' stored_videos='' @ show_int stored @
     (if failures = [] then '' fetch_parse_errors=none'' else []) @
     concat (map (\<lambda>r. '' '' @ r @ ''='' @ show_int (count_of r failures)) (sort (map fst failures)))"

definition summary_step :: "test_state \<Rightarrow> nat \<Rightarrow> summary \<Rightarrow> summary" where
  "summary_step c i x =
     (let stored = testStored c ! i;
          x1 = x\<lparr>writes := writes x + stored\<rparr>;
          (status, x2) =
            (if testRetired c ! i \<noteq> [] then (testRetired c ! i, x1\<lparr>retired := retired x1 + 1\<rparr>)
             else if stored = 0 then (''unverified'', x1\<lparr>unverified := unverified x1 + 1\<rparr>)
             else (''video_stored'', x1\<lparr>verified := verified x1 + 1\<rparr>));
          failures = testFailures c ! i;
          x3 = (if failures \<noteq> [] then x2\<lparr>withErrors := withErrors x2 + 1\<rparr> else x2)
      in if status = ''video_stored'' \<and> failures = [] then x3
         else x3\<lparr>rows_text := rows_text x3 @ summary_row i status (testParsed c ! i) stored failures\<rparr>)"

definition summarize :: "test_state \<Rightarrow> summary" where
  "summarize c = fold (summary_step c) [0 ..< length (testParsed c)]
     \<lparr>verified = 0, unverified = 0, retired = 0, withErrors = 0, writes = 0, rows_text = []\<rparr>"

definition TestWorkerSummary :: "test_state \<Rightarrow> string" where
  "TestWorkerSummary c =
     (let x = summarize c
      in ''[INFO] Final test worker summary: workers='' @ show_nat (length (testParsed c)) @
         '' verified='' @ show_int (verified x) @ '' unverified='' @ show_int (unverified x) @
         '' retired='' @ show_int (retired x) @ '' workers_with_fetch_parse_errors='' @ show_int (withErrors x) @
         '' reported_video_writes='' @ show_int (writes x) @ rows_text x)"

section \<open>The test run\<close>

text \<open>What one round of the supervising loop reads: the count is read up to three times.\<close>

record poll =
  p_count :: int
  p_failed :: bool
  p_finished :: int
  p_count_finished :: int
  p_ctx :: "go_error option"
  p_idle :: "go_error + bool"
  p_count_idle :: int

text \<open>The loop: \<open>Some\<close> its error once it ended.\<close>

fun supervise :: "Config \<Rightarrow> poll list \<Rightarrow> go_error option option" where
  "supervise cfg [] = None"
| "supervise cfg (p # ps) =
     (if p_count p \<ge> maxTestVideos \<or> p_failed p then Some None
      else if p_finished p = Workers cfg
        then Some (if p_count_finished p < maxTestVideos
               then Some (OtherErr ''all test workers stopped before reaching the video target'') else None)
      else case p_ctx p of
        Some err \<Rightarrow> Some (Some err)
      | None \<Rightarrow> (case p_idle p of
          Inl err \<Rightarrow> Some (Some (OtherErr (''test frontier inspection: '' @ err_text err)))
        | Inr idle \<Rightarrow>
            if idle then Some (if p_count_idle p < maxTestVideos
              then Some (OtherErr (''test frontier drained after '' @ show_int (p_count_idle p) @ '' videos; need '' @ show_int maxTestVideos))
              else None)
            else supervise cfg ps))"

text \<open>The first worker without a proxy.\<close>

definition missing_proxy :: "Config \<Rightarrow> nat option" where
  "missing_proxy cfg =
     find (\<lambda>i. i \<ge> length (StaticProxyURLs cfg) \<or> TrimSpace (StaticProxyURLs cfg ! i) = []) [0 ..< nat (Workers cfg)]"

definition test_guard :: "Config \<Rightarrow> go_error option" where
  "test_guard cfg =
     (if Workers cfg < 2 then Some (OtherErr ''test requires at least two workers'')
      else if RateLimit cfg < 30 * second then Some (OtherErr ''test requires at least 30 seconds between worker requests'')
      else map_option (\<lambda>i. OtherErr (''test worker '' @ show_nat i @ '' has no proxy'')) (missing_proxy cfg))"

text \<open>Admitting the seed and trying to admit it again.\<close>

definition admit_seed :: "'s frontier_methods \<Rightarrow> net_url \<Rightarrow> Config \<Rightarrow> call_env \<Rightarrow> call_env \<Rightarrow> string \<Rightarrow> 's \<Rightarrow> go_error option \<times> 's" where
  "admit_seed F net cfg e1 e2 seedURL s =
     (case admitURL F net cfg e1 seedURL s of
        (Inl err, s1) \<Rightarrow> (Some (OtherErr (''test seed admission: '' @ err_text err)), s1)
      | (Inr admitted, s1) \<Rightarrow>
          if admitted = Suppressed then (Some (OtherErr ''test seed was not admitted''), s1)
          else (case admitURL F net cfg e2 seedURL s1 of
            (Inl err, s2) \<Rightarrow> (Some (OtherErr (''test duplicate seed admission: '' @ err_text err)), s2)
          | (Inr duplicate, s2) \<Rightarrow>
              (if duplicate \<noteq> Suppressed then Some (OtherErr ''test duplicate seed was admitted twice'') else None, s2)))"

text \<open>What the run of the workers leaves: the rounds of the loop, the contexts, the observations and
  counts after every goroutine was joined, and what Mongo counts.\<close>

record test_run =
  seed_envs :: "call_env \<times> call_env"
  polls :: "poll list"
  ctx_after :: "go_error option"
  parent_err :: "go_error option"
  observed :: "test_event list"
  final_count :: int
  mongo_count :: "go_error + int"

text \<open>\<open>RunTest\<close>: \<open>None\<close> while its loop runs, \<open>Some []\<close> is success.\<close>

definition RunTest :: "'s frontier_methods \<Rightarrow> net_url \<Rightarrow> Config \<Rightarrow> test_run \<Rightarrow> string \<Rightarrow> 's \<Rightarrow> string list option" where
  "RunTest F net cfg r seedURL s =
     (case test_guard cfg of
        Some err \<Rightarrow> Some [err_text err]
      | None \<Rightarrow> (case admit_seed F net cfg (fst (seed_envs r)) (snd (seed_envs r)) seedURL s of
          (Some err, s1) \<Rightarrow> Some [err_text err]
        | (None, s1) \<Rightarrow> (case supervise cfg (polls r) of
            None \<Rightarrow> None
          | Some err \<Rightarrow>
              (let runErr = (if err = None then ctx_after r else err);
                   problems = (case runErr of None \<Rightarrow> [] | Some e \<Rightarrow> [err_text e]) @ (case parent_err r of None \<Rightarrow> [] | Some e \<Rightarrow> [err_text e]) @
                     validateTestWorkers (fold record_event (observed r) (test_reset cfg))
               in if problems \<noteq> [] then Some problems
                  else case mongo_count r of
                    Inl err \<Rightarrow> Some [''test Mongo verification: '' @ err_text err]
                  | Inr stored \<Rightarrow>
                      if stored < maxTestVideos \<or> stored \<noteq> final_count r
                      then Some [''test stored '' @ show_int stored @ '' unique videos for '' @ show_int (final_count r) @
                        '' recorded writes; need at least '' @ show_int maxTestVideos]
                      else Some []))))"

end
