(* ===== verification/Test_Mode_Correct.thy ===== *)
theory Test_Mode_Correct
  imports Test_Mode Worker_Correct Frontier_Reconcile
begin

text \<open>
  What a passed test run shows. The workers' observations arrive in any interleaving; whatever it
  is, the recorder reports an overlap exactly when two workers were processing one URL at some
  moment, and a run that passes has every worker verified and every count confirmed by Mongo.
\<close>

section \<open>Interleavings\<close>

inductive interleaved :: "'a list list \<Rightarrow> 'a list \<Rightarrow> bool" where
  ended: "\<forall>xs \<in> set xss. xs = [] \<Longrightarrow> interleaved xss []"
| turn: "i < length xss \<Longrightarrow> xss ! i = x # xs \<Longrightarrow> interleaved (xss[i := xs]) ys \<Longrightarrow> interleaved xss (x # ys)"

lemma sum_list_zeros: "\<forall>x \<in> set xs. x = (0 :: int) \<Longrightarrow> sum_list xs = 0"
  by (induction xs) auto

lemma sum_list_update:
  "i < length xs \<Longrightarrow> sum_list (xs[i := v]) = sum_list xs + v - (xs ! i :: int)"
  by (induction xs arbitrary: i) (auto split: nat.splits)

lemma interleaved_sum:
  "interleaved xss ys \<Longrightarrow> sum_list (map (g :: 'a \<Rightarrow> int) ys) = sum_list (map (\<lambda>xs. sum_list (map g xs)) xss)"
proof (induction rule: interleaved.induct)
  case (ended xss)
  have "sum_list (map (\<lambda>xs. sum_list (map g xs)) xss) = 0" by (rule sum_list_zeros) (use ended in auto)
  then show ?case by simp
next
  case (turn i xss x xs ys)
  then show ?case by (simp add: map_update sum_list_update)
qed

lemma interleaved_set: "interleaved xss ys \<Longrightarrow> y \<in> set ys \<Longrightarrow> \<exists>xs \<in> set xss. y \<in> set xs"
proof (induction rule: interleaved.induct)
  case (turn i xss x xs ys)
  have i: "xss ! i \<in> set xss" using turn.hyps(1) by simp
  show ?case
  proof (cases "y = x")
    case False
    then obtain zs where "zs \<in> set (xss[i := xs])" "y \<in> set zs" using turn by auto
    then have "zs = xs \<and> y \<in> set (xss ! i) \<or> zs \<in> set xss"
      using turn.hyps(2) set_update_subset_insert [of xss i xs] by auto
    with i \<open>y \<in> set zs\<close> show ?thesis by blast
  qed (use i turn.hyps(2) in force)
qed simp

lemma interleaved_nil: "interleaved (map (\<lambda>_. []) xss) []"
  by (rule interleaved.ended) simp

lemma interleaved_prefix:
  assumes "interleaved xss ys"
  shows "\<exists>zss. list_all2 prefix zss xss \<and> interleaved zss (take k ys)"
  using assms
proof (induction arbitrary: k rule: interleaved.induct)
  case (ended xss)
  then show ?case
    using interleaved.ended [of xss] by (intro exI [of _ xss]) (simp add: list.rel_refl)
next
  case (turn i xss x xs ys)
  show ?case
  proof (cases k)
    case 0
    then show ?thesis
      by (intro exI [of _ "map (\<lambda>_. []) xss"]) (auto simp: list_all2_conv_all_nth interleaved_nil)
  next
    case (Suc k')
    obtain zss where z: "list_all2 prefix zss (xss[i := xs])" "interleaved zss (take k' ys)"
      using turn.IH by blast
    have len: "length zss = length xss" using list_all2_lengthD [OF z(1)] by simp
    let ?zss = "zss[i := x # zss ! i]"
    have "prefix (zss ! i) xs" using list_all2_nthD [OF z(1), of i] len turn.hyps(1) by simp
    then have "list_all2 prefix ?zss xss"
      using z(1) turn.hyps(1,2) len by (auto simp: list_all2_conv_all_nth nth_list_update split: if_splits)
    moreover have "interleaved ?zss (take k (x # ys))"
      using interleaved.turn [of i ?zss x "zss ! i" "take k' ys"] z(2) len turn.hyps(1) Suc by simp
    ultimately show ?thesis by blast
  qed
qed

section \<open>Processing\<close>

text \<open>How many workers are processing a URL after a sequence of observations.\<close>

fun delta :: "url \<Rightarrow> test_event \<Rightarrow> int" where
  "delta u (Started v) = (if v = u then 1 else 0)"
| "delta u (Processed i v out) = (if v = u then - 1 else 0)"
| "delta u _ = 0"

definition processing_now :: "url \<Rightarrow> test_event list \<Rightarrow> int" where
  "processing_now u tr = sum_list (map (delta u) tr)"

definition balanced :: "test_event list \<Rightarrow> bool" where
  "balanced tr \<longleftrightarrow> (\<forall>u k. 0 \<le> processing_now u (take k tr))"

lemma processing_now_simps [simp]:
  "processing_now u [] = 0" "processing_now u (e # tr) = delta u e + processing_now u tr"
  "processing_now u (tr @ tr') = processing_now u tr + processing_now u tr'"
  by (simp_all add: processing_now_def)

lemma balanced_prefix: "balanced tr \<longleftrightarrow> (\<forall>u p. prefix p tr \<longrightarrow> 0 \<le> processing_now u p)"
  unfolding balanced_def by (metis append_eq_conv_conj prefix_def take_is_prefix)

lemma interleaved_balanced:
  assumes "interleaved xss ys" "\<forall>xs \<in> set xss. balanced xs"
  shows "balanced ys"
  unfolding balanced_def
proof (intro allI)
  fix u k
  obtain zss where z: "list_all2 prefix zss xss" "interleaved zss (take k ys)"
    using interleaved_prefix [OF assms(1)] by blast
  have "0 \<le> processing_now u p" if "p \<in> set zss" for p
    using that z(1) assms(2) by (auto simp: balanced_prefix list_all2_conv_all_nth in_set_conv_nth) (metis nth_mem)
  then show "0 \<le> processing_now u (take k ys)"
    unfolding processing_now_def interleaved_sum [OF z(2), of "delta u"]
    by (intro sum_list_nonneg) (auto simp: processing_now_def)
qed

lemma balanced_append: "balanced xs \<Longrightarrow> (\<And>u. processing_now u xs = 0) \<Longrightarrow> balanced ys \<Longrightarrow> balanced (xs @ ys)"
  by (auto simp: balanced_def)

lemma turn_events_cases:
  "turn_events F net ups isLetter cfg i h = [] \<or>
   (\<exists>v out rest. turn_events F net ups isLetter cfg i h = Started v # Processed i v out # rest \<and>
     (\<forall>e \<in> set rest. e = Stored i \<or> (\<exists>why. why \<noteq> [] \<and> e = Retired i why)))"
  unfolding turn_events_def by (auto simp: Let_def split: prod.split sum.split option.split)

lemma turn_events_reasons: "Retired j why \<in> set (turn_events F net ups isLetter cfg i h) \<Longrightarrow> why \<noteq> []"
  using turn_events_cases [of F net ups isLetter cfg i h] by auto

lemma turn_events_balanced:
  "balanced (turn_events F net ups isLetter cfg i h) \<and> processing_now u (turn_events F net ups isLetter cfg i h) = 0"
  using turn_events_cases [of F net ups isLetter cfg i h]
proof (elim disjE exE conjE)
  fix v out rest
  assume t: "turn_events F net ups isLetter cfg i h = Started v # Processed i v out # rest"
    and rest: "\<forall>e \<in> set rest. e = Stored i \<or> (\<exists>why. why \<noteq> [] \<and> e = Retired i why)"
  have zero: "processing_now u (take k rest) = 0" for u k
    unfolding processing_now_def by (rule sum_list_zeros) (use rest in \<open>fastforce dest: in_set_takeD\<close>)
  from zero [of _ "length rest"] zero show ?thesis unfolding t
    by (auto simp: balanced_def take_Cons split: nat.split)
qed (simp add: balanced_def)

lemma worker_events_balanced: "balanced (worker_events F net ups isLetter cfg i hs)"
proof -
  have fin: "balanced [Finished]" by (auto simp: balanced_def take_Cons split: nat.split)
  show ?thesis
    unfolding worker_events_def
  proof (induction hs)
    case (Cons h hs)
    have "balanced (turn_events F net ups isLetter cfg i h @ concat (map (turn_events F net ups isLetter cfg i) hs) @ [Finished])"
      by (rule balanced_append) (simp_all only: turn_events_balanced Cons.IH simp_thms)
    then show ?case by simp
  qed (simp add: fin)
qed

section \<open>What is recorded\<close>

lemma count_of_update [simp]: "count_of u (AList.update v n m) = (if u = v then n else count_of u m)"
  by (simp add: count_of_def update_conv')

lemma count_of_delete [simp]: "count_of u (AList.delete v m) = (if u = v then 0 else count_of u m)"
  by (simp add: count_of_def delete_conv' restrict_map_def)

definition active_inv :: "test_event list \<Rightarrow> test_state \<Rightarrow> bool" where
  "active_inv tr c \<longleftrightarrow> distinct (map fst (testActive c)) \<and> (\<forall>u. count_of u (testActive c) = processing_now u tr) \<and>
     (\<forall>u n. (u, n) \<in> set (testActive c) \<longrightarrow> n \<noteq> 0)"

lemma active_same [simp]:
  "testActive (recordTestStart u c) = AList.update u (count_of u (testActive c) + 1) (testActive c)"
  "testActive (recordTestFinish i u out c) =
     (if count_of u (testActive c) = 1 then AList.delete u (AList.update u 0 (testActive c))
      else AList.update u (count_of u (testActive c) - 1) (testActive c))"
  "testErr (recordTestFinish i u out c) = testErr c"
  "testErr (recordTestStart u c) = None \<longleftrightarrow> testErr c = None \<and> count_of u (testActive c) \<le> 0"
  by (auto simp: recordTestStart_def recordTestFinish_def Let_def)

lemma update_values: "(u, n) \<in> set (AList.update v k m) \<Longrightarrow> distinct (map fst m) \<Longrightarrow> (u = v \<and> n = k) \<or> (u, n) \<in> set m"
  by (induction m) (auto split: if_splits)

lemma active_step:
  assumes "active_inv tr c" "balanced (tr @ [e])"
  shows "active_inv (tr @ [e]) (record_event e c)"
proof -
  have nonneg: "0 \<le> processing_now u tr" for u
    using assms(2) by (simp add: balanced_prefix)
  show ?thesis
  proof (cases e)
    case (Started v)
    have "n \<noteq> 0" if "(u, n) \<in> set (AList.update v (count_of v (testActive c) + 1) (testActive c))" for u n
      using update_values [OF that] nonneg [of v] assms(1) by (auto simp: active_inv_def)
    with assms(1) Started show ?thesis by (auto simp: active_inv_def distinct_update)
  next
    case (Processed i v out)
    let ?m = "AList.update v (count_of v (testActive c) - 1) (testActive c)"
    have "n \<noteq> 0" if "(u, n) \<in> set ?m" "count_of v (testActive c) \<noteq> 1" for u n
      using update_values [OF that(1)] that(2) assms(1) by (auto simp: active_inv_def)
    moreover have "n \<noteq> 0" if "(u, n) \<in> set (AList.delete v (AList.update v 0 (testActive c)))" for u n
      using that update_values [of u n v 0] assms(1) by (auto simp: active_inv_def AList.delete_eq)
    ultimately show ?thesis
      using assms(1) Processed by (auto simp: active_inv_def distinct_update distinct_delete)
  qed (use assms(1) in \<open>auto simp: active_inv_def\<close>)
qed

lemma active_all:
  "balanced tr \<Longrightarrow> active_inv tr (fold record_event tr (test_reset cfg))"
proof (induction tr rule: rev_induct)
  case (snoc e tr)
  have "balanced tr" using snoc.prems by (auto simp: balanced_prefix)
  with snoc active_step show ?case by simp
qed (simp add: active_inv_def test_reset_def Let_def count_of_def)

lemma testActive_empty:
  assumes "balanced tr"
  shows "testActive (fold record_event tr (test_reset cfg)) = [] \<longleftrightarrow> (\<forall>u. processing_now u tr = 0)"
proof -
  let ?m = "testActive (fold record_event tr (test_reset cfg))"
  have inv: "active_inv tr (fold record_event tr (test_reset cfg))" by (rule active_all [OF assms])
  show ?thesis
  proof
    assume "\<forall>u. processing_now u tr = 0"
    then have "(u, n) \<notin> set ?m" for u n
      using inv map_of_is_SomeI [of ?m u n] by (auto simp: active_inv_def count_of_def split: option.splits)
    then show "?m = []" by (cases ?m) auto
  qed (use inv in \<open>auto simp: active_inv_def count_of_def\<close>)
qed

lemma testErr_prefix:
  assumes "balanced tr"
  shows "testErr (fold record_event tr (test_reset cfg)) = None \<longleftrightarrow> (\<forall>u p. prefix p tr \<longrightarrow> processing_now u p \<le> 1)"
  using assms
proof (induction tr rule: rev_induct)
  case (snoc e tr)
  have b: "balanced tr" using snoc.prems by (simp add: balanced_prefix)
  let ?c = "fold record_event tr (test_reset cfg)"
  have counts: "count_of u (testActive ?c) = processing_now u tr" for u
    using active_all [OF b, of cfg] by (simp add: active_inv_def)
  let ?B = "\<forall>u p. prefix p tr \<longrightarrow> processing_now u p \<le> 1"
  have "testErr (record_event e ?c) = None \<longleftrightarrow> ?B \<and> (\<forall>u. processing_now u tr + delta u e \<le> 1)"
  proof (cases "testErr ?c = None")
    case True
    then have le1: "processing_now v tr \<le> 1" for v using snoc.IH [OF b] by simp
    then have le2: "processing_now v tr \<le> 2" for v by (rule order_trans) simp
    from le1 le2 have "testErr (record_event e ?c) = None \<longleftrightarrow> (\<forall>u. processing_now u tr + delta u e \<le> 1)"
      using True by (cases e) (auto simp: counts)
    moreover have ?B using True snoc.IH [OF b] by metis
    ultimately show ?thesis by metis
  next
    case False
    then have "testErr (record_event e ?c) \<noteq> None" by (cases e) auto
    moreover have "\<not> ?B" using False snoc.IH [OF b] by metis
    ultimately show ?thesis by metis
  qed
  moreover have "(\<forall>u p. prefix p (tr @ [e]) \<longrightarrow> processing_now u p \<le> 1) \<longleftrightarrow> ?B \<and> (\<forall>u. processing_now u tr + delta u e \<le> 1)"
    by (auto simp: prefix_snoc)
  ultimately show ?case by (simp only: fold_append fold_simps o_apply append.simps)
qed (simp add: test_reset_def Let_def)

lemma take_prefix_all: "(\<forall>k. P (take k xs)) \<longleftrightarrow> (\<forall>p. prefix p xs \<longrightarrow> P p)"
  by (metis append_eq_conv_conj prefix_def take_is_prefix)

lemma testErr_overlap:
  "balanced tr \<Longrightarrow> testErr (fold record_event tr (test_reset cfg)) = None \<longleftrightarrow> (\<forall>u k. processing_now u (take k tr) \<le> 1)"
  unfolding testErr_prefix using take_prefix_all [of "\<lambda>p. processing_now _ p \<le> 1" tr] by blast

lemma lengths_kept [simp]:
  "length (testParsed (record_event e c)) = length (testParsed c)"
  "length (testStored (record_event e c)) = length (testStored c)"
  "length (testRetired (record_event e c)) = length (testRetired c)"
  by (cases e; auto simp: recordTestStart_def recordTestFinish_def bump_at_def Let_def)+

lemma lengths_all [simp]:
  "length (testParsed (fold record_event tr c)) = length (testParsed c)"
  "length (testStored (fold record_event tr c)) = length (testStored c)"
  "length (testRetired (fold record_event tr c)) = length (testRetired c)"
  by (induction tr arbitrary: c) simp_all

lemma stored_step:
  "i < length (testStored c) \<Longrightarrow>
     testStored (record_event e c) ! i = testStored c ! i + (if e = Stored i then 1 else 0)"
  by (cases e) (auto simp: recordTestStart_def recordTestFinish_def bump_at_def Let_def nth_list_update)

lemma stored_all:
  "i < length (testStored c) \<Longrightarrow> testStored (fold record_event tr c) ! i = testStored c ! i + int (count_list tr (Stored i))"
  by (induction tr arbitrary: c) (simp_all add: stored_step)

lemma retired_step:
  "i < length (testRetired c) \<Longrightarrow>
     testRetired (record_event e c) ! i = (case e of Retired j why \<Rightarrow> if i = j then why else testRetired c ! i | _ \<Rightarrow> testRetired c ! i)"
  by (cases e) (auto simp: recordTestStart_def recordTestFinish_def Let_def nth_list_update)

lemma retired_all:
  assumes "\<forall>j why. Retired j why \<in> set tr \<longrightarrow> why \<noteq> []" "i < length (testRetired c)" "testRetired c ! i = []"
  shows "testRetired (fold record_event tr c) ! i = [] \<longleftrightarrow> (\<forall>why. Retired i why \<notin> set tr)"
  using assms(1)
proof (induction tr rule: rev_induct)
  case (snoc e tr)
  with assms(2) retired_step [of i "fold record_event tr c" e] show ?case
    by (auto simp del: record_event.simps split: test_event.splits if_splits)
qed (simp add: assms(3))

lemma turn_events_sum [simp]: "processing_now u (turn_events F net ups isLetter cfg i h) = 0"
  using turn_events_balanced by blast

lemma worker_events_sum: "processing_now u (worker_events F net ups isLetter cfg i hs) = 0"
  unfolding worker_events_def by (induction hs) simp_all

lemma worker_events_reasons: "Retired j why \<in> set (worker_events F net ups isLetter cfg i hs) \<Longrightarrow> why \<noteq> []"
  by (auto simp: worker_events_def dest: turn_events_reasons)

text \<open>All workers of a test, each with its own history of turns.\<close>

definition test_events :: "'s frontier_methods \<Rightarrow> net_url \<Rightarrow> 'm upsert \<Rightarrow> (int \<Rightarrow> bool) \<Rightarrow> Config \<Rightarrow>
    (nat \<Rightarrow> (turn \<times> workerFailures \<times> ('s, 'm) world) list) \<Rightarrow> test_event list list" where
  "test_events F net ups isLetter cfg hist =
     map (\<lambda>i. worker_events F net ups isLetter cfg i (hist i)) [0 ..< nat (Workers cfg)]"

lemma test_events_facts:
  assumes "interleaved (test_events F net ups isLetter cfg hist) tr"
  shows "balanced tr" "processing_now u tr = 0" "Retired j why \<in> set tr \<Longrightarrow> why \<noteq> []"
proof -
  show "balanced tr"
    by (rule interleaved_balanced [OF assms]) (auto simp: test_events_def worker_events_balanced)
  show "processing_now u tr = 0"
    unfolding processing_now_def interleaved_sum [OF assms, of "delta u"]
    by (rule sum_list_zeros) (auto simp: test_events_def worker_events_sum [unfolded processing_now_def])
  show "Retired j why \<in> set tr \<Longrightarrow> why \<noteq> []"
    using interleaved_set [OF assms] by (auto simp: test_events_def dest!: worker_events_reasons)
qed

lemma validate_exact:
  assumes "interleaved (test_events F net ups isLetter cfg hist) tr"
  shows "validateTestWorkers (fold record_event tr (test_reset cfg)) = [] \<longleftrightarrow>
    (\<forall>u k. processing_now u (take k tr) \<le> 1) \<and>
    (\<forall>i < nat (Workers cfg). Stored i \<in> set tr \<and> (\<forall>why. Retired i why \<notin> set tr))"
proof -
  let ?c = "fold record_event tr (test_reset cfg)"
  note facts = test_events_facts [OF assms]
  have reset: "length (testStored (test_reset cfg)) = nat (Workers cfg)" "length (testRetired (test_reset cfg)) = nat (Workers cfg)"
    "length (testParsed (test_reset cfg)) = nat (Workers cfg)"
    "i < nat (Workers cfg) \<Longrightarrow> testStored (test_reset cfg) ! i = 0 \<and> testRetired (test_reset cfg) ! i = []" for i
    by (simp_all add: test_reset_def Let_def)
  have "worker_problem ?c i = [] \<longleftrightarrow> Stored i \<in> set tr \<and> (\<forall>why. Retired i why \<notin> set tr)" if "i < nat (Workers cfg)" for i
    using retired_all [of tr i "test_reset cfg"] stored_all [of i "test_reset cfg" tr] facts(3) reset that
    by (auto simp: worker_problem_def count_list_0_iff)
  moreover have "length (testActive ?c) = 0" using testActive_empty [OF facts(1)] facts(2) by simp
  ultimately show ?thesis
    using testErr_overlap [OF facts(1), of cfg] reset(3) by (auto simp: validateTestWorkers_def split: option.splits)
qed

section \<open>A sample test run\<close>

lemma interleaved_concat: "interleaved xss (concat xss)"
proof (induction xss)
  case (Cons xs xss)
  have "interleaved (zs # xss) (zs @ concat xss)" for zs
  proof (induction zs)
    case Nil
    have "interleaved ([] # yss) ys" if "interleaved yss ys" for yss :: "'a list list" and ys
      using that
    proof (induction rule: interleaved.induct)
      case (turn i yss x xs ys)
      then show ?case using interleaved.turn [of "Suc i" "[] # yss" x xs ys] by simp
    qed (simp add: interleaved.ended)
    then show ?case using Cons.IH by simp
  next
    case (Cons z zs)
    then show ?case using interleaved.turn [of 0 "(z # zs) # xss" z zs "zs @ concat xss"] by simp
  qed
  then show ?case by simp
qed (simp add: interleaved.ended)

definition test_cfg :: Config where
  "test_cfg = sample_cfg\<lparr>Workers := 2, RateLimit := 30 * second, StaticProxyURLs := [''p0:1'', ''p1:1'']\<rparr>"

definition test_frontier :: "rstore frontier_methods" where
  "test_frontier = NewFrontier store_call DefaultFrontierConfig None"

definition test_hist :: "nat \<Rightarrow> (turn \<times> workerFailures \<times> (rstore, Video list) world) list" where
  "test_hist i = [(sample_turn found, sample_failures,
     sample_world (replay [OAdmitVideo (''https://www.vidlii.com/watch?v='' @ show_nat i) 100]))]"

definition test_observed :: "test_event list" where
  "test_observed = concat (test_events test_frontier sample_net sample_upsert (\<lambda>_. False) test_cfg test_hist)"

definition passed_run :: test_run where
  "passed_run = \<lparr>seed_envs = (call_at (100 * second), call_at (101 * second)),
     polls = [\<lparr>p_count = 0, p_failed = False, p_finished = 0, p_count_finished = 0, p_ctx = None, p_idle = Inr False, p_count_idle = 0\<rparr>,
       \<lparr>p_count = 200, p_failed = False, p_finished = 0, p_count_finished = 200, p_ctx = None, p_idle = Inr False, p_count_idle = 200\<rparr>],
     ctx_after = None, parent_err = None, observed = test_observed, final_count = 200, mongo_count = Inr 200\<rparr>"

text \<open>The checks of a test run are exact. However the workers' observations interleave, validateTestWorkers
  finds no problem exactly when no two workers were ever processing one URL at the same time, every worker
  stored a video, and no worker was retired.\<close>

theorem validateTestWorkers_exact:
  assumes "interleaved (test_events F net ups isLetter cfg hist) tr"
  shows "validateTestWorkers (fold record_event tr (test_reset cfg)) = [] \<longleftrightarrow>
    (\<forall>u k. processing_now u (take k tr) \<le> 1) \<and>
    (\<forall>i < nat (Workers cfg). Stored i \<in> set tr \<and> (\<forall>why. Retired i why \<notin> set tr))"
  by (rule validate_exact [OF assms])

section \<open>The whole run\<close>

lemma RunTest_success:
  assumes "RunTest F net cfg r seedURL s = Some []"
  shows "test_guard cfg = None" "fst (admit_seed F net cfg (fst (seed_envs r)) (snd (seed_envs r)) seedURL s) = None"
    "validateTestWorkers (fold record_event (observed r) (test_reset cfg)) = []"
    "mongo_count r = Inr (final_count r) \<and> maxTestVideos \<le> final_count r"
  using assms
  by (auto simp: RunTest_def Let_def split: option.splits prod.splits sum.splits if_splits)

lemma admit_seed_None:
  assumes "fst (admit_seed F net cfg e1 e2 u s) = None"
  shows "\<exists>a s1 s2. admitURL F net cfg e1 u s = (Inr a, s1) \<and> a \<noteq> Suppressed \<and> admitURL F net cfg e2 u s1 = (Inr Suppressed, s2)"
  using assms by (auto simp: admit_seed_def split: prod.splits sum.splits if_splits)

lemma test_guard_None:
  "test_guard cfg = None \<Longrightarrow> 2 \<le> Workers cfg \<and> 30 * second \<le> RateLimit cfg \<and>
     (\<forall>i < nat (Workers cfg). i < length (StaticProxyURLs cfg) \<and> TrimSpace (StaticProxyURLs cfg ! i) \<noteq> [])"
  by (auto simp: test_guard_def missing_proxy_def find_None_iff not_le split: if_splits)

text \<open>C22: A passed test run means what it says. If RunTest returns without an error, at least two workers ran,
  each behind a proxy and at most once per thirty seconds, the seed was admitted once and refused the second
  time, no two workers were ever processing one URL at the same time, every worker stored a video and none was
  retired, and Mongo holds at least 200 videos, exactly as many as were recorded.\<close>

theorem RunTest_sound:
  assumes "interleaved (test_events F net ups isLetter cfg hist) (observed r)" "RunTest F net cfg r seedURL s = Some []"
  shows "2 \<le> Workers cfg \<and> 30 * second \<le> RateLimit cfg \<and>
    (\<forall>i < nat (Workers cfg). i < length (StaticProxyURLs cfg) \<and> TrimSpace (StaticProxyURLs cfg ! i) \<noteq> []) \<and>
    (\<exists>a s1 s2. admitURL F net cfg (fst (seed_envs r)) seedURL s = (Inr a, s1) \<and> a \<noteq> Suppressed \<and>
      admitURL F net cfg (snd (seed_envs r)) seedURL s1 = (Inr Suppressed, s2)) \<and>
    (\<forall>u k. processing_now u (take k (observed r)) \<le> 1) \<and>
    (\<forall>i < nat (Workers cfg). Stored i \<in> set (observed r) \<and> (\<forall>why. Retired i why \<notin> set (observed r))) \<and>
    mongo_count r = Inr (final_count r) \<and> 200 \<le> final_count r"
  using test_guard_None [OF RunTest_success(1) [OF assms(2)]] admit_seed_None [OF RunTest_success(2) [OF assms(2)]]
    RunTest_success(3,4) [OF assms(2)] validate_exact [OF assms(1)]
  unfolding maxTestVideos_def by blast

theorem RunTest_sound_witness:
  "RunTest test_frontier sample_net test_cfg passed_run (TestUrl test_cfg) empty_store = Some [] \<and>
   (\<forall>u k. processing_now u (take k (observed passed_run)) \<le> 1) \<and> 200 \<le> final_count passed_run"
proof -
  have r: "RunTest test_frontier sample_net test_cfg passed_run (TestUrl test_cfg) empty_store = Some []" by code_simp
  have "interleaved (test_events test_frontier sample_net sample_upsert (\<lambda>_. False) test_cfg test_hist) (observed passed_run)"
    by (simp add: passed_run_def test_observed_def interleaved_concat)
  from RunTest_sound [OF this r] r show ?thesis by blast
qed

section \<open>Summary\<close>

lemma summary_fold:
  fixes c :: test_state
  defines "x n \<equiv> fold (summary_step c) [0 ..< n] \<lparr>verified = 0, unverified = 0, retired = 0, withErrors = 0, writes = 0, rows_text = []\<rparr>"
  shows "verified (x n) + unverified (x n) + retired (x n) = int n \<and> 0 \<le> unverified (x n) \<and> 0 \<le> retired (x n) \<and>
    writes (x n) = (\<Sum>i < n. testStored c ! i) \<and>
    (unverified (x n) + retired (x n) = 0 \<longleftrightarrow> (\<forall>i < n. worker_problem c i = []))"
proof (induction n)
  case (Suc n)
  have "x (Suc n) = summary_step c n (x n)" by (simp add: x_def)
  with Suc show ?case
    by (auto simp: summary_step_def worker_problem_def Let_def less_Suc_eq)
qed (simp add: x_def)

text \<open>The final summary agrees with the verdict. Every worker is counted once, as verified, unverified or
  retired; the reported writes are the sum of the workers' own; and all workers are verified exactly when
  validateTestWorkers reports no worker.\<close>

theorem TestWorkerSummary_counts:
  "let x = summarize c; n = length (testParsed c)
   in verified x + unverified x + retired x = int n \<and> writes x = (\<Sum>i < n. testStored c ! i) \<and>
      (verified x = int n \<longleftrightarrow> concat (map (worker_problem c) [0 ..< n]) = [])"
  using summary_fold [of c "length (testParsed c)"] by (auto simp: summarize_def Let_def)

section \<open>Admitting twice\<close>

lemma healthy_after:
  assumes "redis_reliable call data" "run call sc s = (r, s')" "op_script op = map_script Num sc" "op_args op"
    "healthy 2 (data s)" "job_seq (data s') \<le> job_seq (data s) + 1"
  shows "healthy 1 (data s')"
  using assms run_healthy [of call data sc s r s' op Num 2 1] by (auto simp: redis_reliable_def healthy_def)

lemma delivered_run:
  assumes "delivered e" "rpc call e sc s = (Inr v, s')"
  shows "run call sc s = (Inr v, s')"
  using assms by (auto simp: rpc_def delivered_def split: prod.splits sum.splits)

lemma AdmitVideo_twice:
  assumes "redis_reliable call data" "delivered e1" "delivered e2" "healthy 2 (data s)"
    "AdmitVideo call e1 u s = (Inr a, s1)" "a \<noteq> Suppressed"
  shows "\<exists>s2. AdmitVideo call e2 u s1 = (Inr Suppressed, s2)"
proof -
  from assms(5) obtain n where n: "rpc call e1 (luaAdmitVideo u (unix (clock e1))) s = (Inr n, s1)" "a = admit_result n"
    by (auto simp: AdmitVideo_def on_reply_def split: prod.splits sum.splits)
  have h: "frontier_inv (data s)" "values_inv (data s)" "job_seq (data s) < id_limit" using assms(4) by (auto simp: healthy_def)
  have run: "run call (luaAdmitVideo u (unix (clock e1))) s = (Inr n, s1)" by (rule delivered_run [OF assms(2) n(1)])
  have ad: "admits_video u (unix (clock e1)) (data s) n (data s1)"
    using redis_reliable.run_wp_total [OF assms(1) luaAdmitVideo_total [OF h, of u "unix (clock e1)"]] run by simp
  with n(2) assms(6) have known: "u \<in> bloom (data s1)" "job_seq (data s1) \<le> job_seq (data s) + 1"
    using frontier_seq [OF h(1,3)]
    by (auto simp: admits_video_def admit_result_def push_job_def job_seq_bump split: if_splits)
  have "healthy 1 (data s1)"
    by (rule healthy_after [OF assms(1) run, of "OAdmitVideo u (unix (clock e1))"]) (use assms(4) known(2) in auto)
  then have h1: "frontier_inv (data s1)" "values_inv (data s1)" "job_seq (data s1) < id_limit" by (auto simp: healthy_def)
  obtain n' s2 where n': "rpc call e2 (luaAdmitVideo u (unix (clock e2))) s1 = (Inr n', s2)"
    "admits_video u (unix (clock e2)) (data s1) n' (data s2)"
    by (rule redis_reliable.rpc_total [OF assms(1,3) luaAdmitVideo_total [OF h1]]) auto
  with known(1) have "n' = 0" by (auto simp: admits_video_def split: if_splits)
  with n'(1) show ?thesis by (auto simp: AdmitVideo_def on_reply_def admit_result_def)
qed

lemma AdmitListing_twice:
  assumes "redis_reliable call data" "delivered e1" "delivered e2" "healthy 2 (data s)" "unix (clock e2) < PendingScore"
    "AdmitListing call e1 u s = (Inr a, s1)" "a \<noteq> Suppressed"
  shows "\<exists>s2. AdmitListing call e2 u s1 = (Inr Suppressed, s2)"
proof -
  let ?now = "unix (clock e1)" and ?d = "snd (spec_admit_listing u (unix (clock e1)) (data s))"
  from assms(6) obtain n where n: "rpc call e1 (luaAdmitListing u ?now PendingScore) s = (Inr n, s1)" "a = admit_result n"
    by (auto simp: AdmitListing_def on_reply_def split: prod.splits sum.splits)
  have h: "frontier_inv (data s)" "values_inv (data s)" "job_seq (data s) < id_limit" using assms(4) by (auto simp: healthy_def)
  have run: "run call (luaAdmitListing u ?now PendingScore) s = (Inr n, s1)" by (rule delivered_run [OF assms(2) n(1)])
  have ad: "n = fst (spec_admit_listing u ?now (data s))" "data s1 = ?d"
    using redis_reliable.run_wp_total [OF assms(1) luaAdmitListing_total [OF h, of u ?now n ?d]]
      redis_reliable.run_wp_total [OF assms(1) luaAdmitListing_total [OF h, of u ?now "fst (spec_admit_listing u ?now (data s))" ?d]] run
    by auto
  with n(2) assms(7) have known: "listing_next (data s1) u = Some PendingScore" "job_seq (data s1) \<le> job_seq (data s) + 1"
    using frontier_seq [OF h(1,3)]
    by (auto simp: spec_admit_listing_def admit_result_def push_job_def job_seq_bump split: if_splits option.splits)
  have "healthy 1 (data s1)"
    by (rule healthy_after [OF assms(1) run, of "OAdmitListing u ?now"]) (use assms(4) known(2) in auto)
  then have h1: "frontier_inv (data s1)" "values_inv (data s1)" "job_seq (data s1) < id_limit" by (auto simp: healthy_def)
  have "fst (spec_admit_listing u (unix (clock e2)) (data s1)) = 0"
    using known(1) assms(5) by (simp add: spec_admit_listing_def)
  then obtain d2 where d2: "spec_admit_listing u (unix (clock e2)) (data s1) = (0, d2)" by (metis prod.collapse)
  from redis_reliable.rpc_exact [OF assms(1,3) luaAdmitListing_total [OF h1 d2]] show ?thesis
    by (auto simp: AdmitListing_def on_reply_def admit_result_def)
qed

text \<open>Admission is once only, end to end. On a reliable Redis with a healthy frontier, whatever the seed is (video or
  listing), once its admission succeeded an immediate second admission is suppressed: the duplicate check
  with which a test run starts never fails on its own.\<close>

theorem admit_seed_passes:
  assumes "redis_reliable call data" "delivered e1" "delivered e2" "healthy 2 (data s)" "unix (clock e2) < PendingScore"
    "admitURL (NewFrontier call fc cl) net cfg e1 u s = (Inr a, s1)" "a \<noteq> Suppressed"
  shows "\<exists>s2. admit_seed (NewFrontier call fc cl) net cfg e1 e2 u s = (None, s2) \<and>
    admitURL (NewFrontier call fc cl) net cfg e2 u s1 = (Inr Suppressed, s2)"
proof -
  have F: "fr_AdmitVideo (NewFrontier call fc cl) = AdmitVideo call" "fr_AdmitListing (NewFrontier call fc cl) = AdmitListing call"
    by (simp_all add: NewFrontier_def)
  have "\<exists>s2. admitURL (NewFrontier call fc cl) net cfg e2 u s1 = (Inr Suppressed, s2)"
    using assms(6,7) AdmitVideo_twice [OF assms(1-4)] AdmitListing_twice [OF assms(1-5)]
    by (auto simp: admitURL_def Let_def F split: if_splits)
  then show ?thesis using assms(6,7) by (auto simp: admit_seed_def)
qed

theorem admit_seed_passes_witness:
  "\<exists>s2. admit_seed test_frontier sample_net test_cfg (call_at (100 * second)) (call_at (101 * second)) (TestUrl test_cfg) sample_ready = (None, s2)"
proof -
  let ?r = "admitURL test_frontier sample_net test_cfg (call_at (100 * second)) (TestUrl test_cfg) sample_ready"
  have "fst ?r = Inr New" "unix (clock (call_at (101 * second))) < PendingScore" by code_simp+
  then have r: "?r = (Inr New, snd ?r)" by (metis prod.collapse)
  have "healthy 2 (store_data sample_ready)" by (rule healthy_mono [OF sample_ready_healthy]) simp
  from admit_seed_passes [OF store.redis_reliable_axioms delivered_call_at delivered_call_at this _ r [unfolded test_frontier_def]]
    \<open>unix (clock (call_at (101 * second))) < PendingScore\<close>
  show ?thesis unfolding test_frontier_def by blast
qed

end
