(* ===== verification/Startup.thy ===== *)
theory Startup
  imports Complex_Main Crawl_Restore_Live Worker
begin

text \<open>
  From an empty process to a running crawler: the storage guards of \<open>src/cmd/crawler/main.go\<close>, the Bloom
  filter administration of \<open>src/internal/storage/redis.go\<close>, the stream of stored URLs of
  \<open>src/internal/storage/mongo.go\<close>, \<open>Resume\<close> and \<open>Seed\<close> of \<open>src/internal/crawler/crawler.go\<close>, and the
  order in which \<open>main\<close> runs them. What Redis and Mongo answer to the calls that are not part of the
  modelled keyspace (BF.RESERVE, BF.INFO, a cursor) is an argument.
\<close>

section \<open>Storage guards\<close>

text \<open>\<open>net.SplitHostPort\<close>: the host and the port; \<open>None\<close> is an address error.\<close>

definition SplitHostPort :: "string \<Rightarrow> (string \<times> string) option" where
  "SplitHostPort s =
     (case cut_last CHR '':'' s of
        None \<Rightarrow> None
      | Some (before_port, port) \<Rightarrow>
          if prefix ''['' s then
            (case Gfap_Prelude.cut CHR '']'' s of
               None \<Rightarrow> None
             | Some (host, rest) \<Rightarrow>
                 if rest = CHR '':'' # port \<and> CHR ''['' \<notin> set (tl s) \<and> CHR '']'' \<notin> set rest then Some (tl host, port) else None)
          else if CHR '':'' \<in> set before_port \<or> CHR ''['' \<in> set s \<or> CHR '']'' \<in> set s then None
          else Some (before_port, port))"

definition trim_left :: "char \<Rightarrow> string \<Rightarrow> string" where
  "trim_left c = dropWhile (\<lambda>x. x = c)"

text \<open>The fatal messages of a production start with storage that belongs to the test.\<close>

definition on_port :: "string \<Rightarrow> string \<Rightarrow> bool" where
  "on_port p host = (case SplitHostPort host of None \<Rightarrow> False | Some (_, port) \<Rightarrow> trim_left CHR ''0'' port = p)"

definition production_guard :: "net_url \<Rightarrow> Config \<Rightarrow> string option" where
  "production_guard net cfg =
     (if SplitHostPort (RedisAddr cfg) = None then Some ''invalid production Redis address''
      else if on_port ''16379'' (RedisAddr cfg) \<or> MongoDB cfg = ''gfap_test'' then Some ''production cannot use test storage''
      else case url_Parse net (MongoURI cfg) of
        None \<Rightarrow> Some ''invalid production Mongo URI''
      | Some u \<Rightarrow>
          if Host u = [] then Some ''invalid production Mongo URI''
          else if list_ex (on_port ''37017'') (split_on CHR '','' (Host u))
            then Some ''production cannot use the test Mongo port''
          else None)"

section \<open>The Bloom filter\<close>

definition bloomCapacity :: int where "bloomCapacity = 1000000000"
definition bloomErrorRate :: rat where "bloomErrorRate = 1 / 100000"

text \<open>\<open>BloomInit\<close> on the error of BF.RESERVE: whether this call created the filter.\<close>

definition BloomInit :: "go_error option \<Rightarrow> go_error + bool" where
  "BloomInit reply = (case reply of
     None \<Rightarrow> Inr True
   | Some err \<Rightarrow> if str_contains (err_text err) ''exists'' then Inr False else Inl err)"

record bloomStats =
  capacity :: int
  bsize :: int
  nfilters :: int
  itemsInserted :: int

text \<open>\<open>pow\<close> stands for \<open>math.Pow\<close>; the comparison is on exact quotients.\<close>

definition BloomVerify :: "(rat \<Rightarrow> rat \<Rightarrow> rat) \<Rightarrow> go_error + bloomStats \<Rightarrow> go_error option" where
  "BloomVerify pow r = (case r of
     Inl err \<Rightarrow> Some (OtherErr ''bloom filter missing or unreadable'')
   | Inr i \<Rightarrow>
       if capacity i \<noteq> bloomCapacity then Some (OtherErr ''bloom capacity'')
       else if nfilters i > 1 then Some (OtherErr ''bloom has scaled'')
       else if pow (6185 / 10000) (of_int (wrap64 (bsize i * 8)) / of_int (capacity i)) > bloomErrorRate * 2
         then Some (OtherErr ''bloom implied FPR'')
       else None)"

text \<open>\<open>BloomFillRatio\<close>, read by the Bloom monitor of the scheduler.\<close>

definition BloomFillRatio :: "go_error + bloomStats \<Rightarrow> go_error + rat" where
  "BloomFillRatio r = (case r of Inl err \<Rightarrow> Inl err | Inr i \<Rightarrow> Inr (of_int (itemsInserted i) / of_int (capacity i)))"

text \<open>A pipeline: attempts whose replies were lost ran a prefix of its commands; the last attempt ran all.\<close>

record pipe_env =
  sent :: "nat list"
  pfate :: "go_error option"

definition pipe_exec :: "'s server \<Rightarrow> pipe_env \<Rightarrow> cmd list \<Rightarrow> 's \<Rightarrow> go_error option \<times> 's" where
  "pipe_exec call e cmds s =
     (let s1 = fold (\<lambda>k s. snd (tx_run call (take k cmds) s)) (sent e) s
      in case pfate e of
           Some err \<Rightarrow> (Some err, s1)
         | None \<Rightarrow> (case tx_run call cmds s1 of
             (rs, s2) \<Rightarrow> (case replies rs of Inl err \<Rightarrow> Some err | Inr _ \<Rightarrow> None, s2)))"

definition BloomAddBatch :: "'s server \<Rightarrow> pipe_env \<Rightarrow> url list \<Rightarrow> 's \<Rightarrow> go_error option \<times> 's" where
  "BloomAddBatch call e urls s = pipe_exec call e (map (BFADD bloomKey) urls) s"

section \<open>Stored videos\<close>

text \<open>A cursor over \<open>_id\<close>: each document decodes or not.\<close>

record id_cursor =
  id_find_err :: "go_error option"
  id_docs :: "(go_error + url) list"
  id_cursor_err :: "go_error option"

fun each_batch :: "nat \<Rightarrow> (url list \<Rightarrow> 'x \<Rightarrow> go_error option \<times> 'x) \<Rightarrow> (go_error + url) list \<Rightarrow> url list \<Rightarrow> 'x \<Rightarrow>
    go_error option \<times> url list \<times> 'x" where
  "each_batch batch fn [] urls x = (None, urls, x)"
| "each_batch batch fn (Inl err # ds) urls x = (Some err, urls, x)"
| "each_batch batch fn (Inr u # ds) urls x =
     (let urls' = urls @ [u]
      in if length urls' \<ge> batch then
           (case fn urls' x of
              (Some err, x') \<Rightarrow> (Some err, urls', x')
            | (None, x') \<Rightarrow> each_batch batch fn ds [] x')
         else each_batch batch fn ds urls' x)"

definition EachVideoURL :: "nat \<Rightarrow> (url list \<Rightarrow> 'x \<Rightarrow> go_error option \<times> 'x) \<Rightarrow> id_cursor \<Rightarrow> 'x \<Rightarrow> go_error option \<times> 'x" where
  "EachVideoURL batch fn cur x =
     (case id_find_err cur of
        Some err \<Rightarrow> (Some err, x)
      | None \<Rightarrow> (case each_batch batch fn (id_docs cur) [] x of
          (Some err, urls, x') \<Rightarrow> (Some err, x')
        | (None, urls, x') \<Rightarrow> (case id_cursor_err cur of
            Some err \<Rightarrow> (Some err, x')
          | None \<Rightarrow> if urls \<noteq> [] then fn urls x' else (None, x'))))"

definition bloomReconcileBatch :: nat where "bloomReconcileBatch = 5000"

record 's reconcile_state =
  re_count :: int
  re_step :: nat
  re_srv :: 's

definition reconcile_batch :: "'s server \<Rightarrow> (nat \<Rightarrow> pipe_env) \<Rightarrow> url list \<Rightarrow> 's reconcile_state \<Rightarrow> go_error option \<times> 's reconcile_state" where
  "reconcile_batch call es urls x =
     (case BloomAddBatch call (es (re_step x)) urls (re_srv x) of
        (err, s) \<Rightarrow> (err, \<lparr>re_count = re_count x + int (length urls), re_step = re_step x + 1, re_srv = s\<rparr>))"

definition reconcileBloomFromMongo :: "'s server \<Rightarrow> (nat \<Rightarrow> pipe_env) \<Rightarrow> id_cursor \<Rightarrow> 's \<Rightarrow> go_error option \<times> 's reconcile_state" where
  "reconcileBloomFromMongo call es cur s =
     EachVideoURL bloomReconcileBatch (reconcile_batch call es) cur \<lparr>re_count = 0, re_step = 0, re_srv = s\<rparr>"

section \<open>Resume and Seed\<close>

definition Resume :: "go_error + int \<Rightarrow> go_error + Video list \<Rightarrow> ('s, 'm) world \<Rightarrow> ('s, 'm) world" where
  "Resume n found w = (case n of
     Inl err \<Rightarrow> w
   | Inr k \<Rightarrow> (case found of Inl err \<Rightarrow> w | Inr ts \<Rightarrow> w\<lparr>targets := targets w @ ts, vcount := k\<rparr>))"

fun seed_lines :: "'s frontier_methods \<Rightarrow> net_url \<Rightarrow> Config \<Rightarrow> (nat \<Rightarrow> call_env) \<Rightarrow> string list \<Rightarrow> int \<Rightarrow> 's \<Rightarrow> int \<times> 's" where
  "seed_lines F net cfg es [] n s = (n, s)"
| "seed_lines F net cfg es (line # rest) n s =
     (if TrimSpace line = [] then seed_lines F net cfg es rest n s
      else case admitURL F net cfg (es 0) line s of
        (Inl err, s') \<Rightarrow> seed_lines F net cfg (\<lambda>i. es (Suc i)) rest n s'
      | (Inr _, s') \<Rightarrow> seed_lines F net cfg (\<lambda>i. es (Suc i)) rest (n + 1) s')"

text \<open>\<open>Seed\<close>: the number it reports as seeded; \<open>None\<close> is a file that cannot be read.\<close>

definition Seed :: "'s frontier_methods \<Rightarrow> net_url \<Rightarrow> Config \<Rightarrow> (nat \<Rightarrow> call_env) \<Rightarrow> string option \<Rightarrow> 's \<Rightarrow> int option \<times> 's" where
  "Seed F net cfg es file s = (case file of
     None \<Rightarrow> (None, s)
   | Some text \<Rightarrow> (case seed_lines F net cfg es (split_on (CHR 0x0A) text) 0 s of (n, s') \<Rightarrow> (Some n, s')))"

section \<open>The start of production\<close>

record startup_env =
  bf_reserve :: "go_error option"
  bf_info :: "go_error + bloomStats"
  video_ids :: id_cursor
  pipes :: "nat \<Rightarrow> pipe_env"
  first_info :: "go_error + string"
  source_name :: string
  restore_steps :: "nat \<Rightarrow> step_env"
  saved_docs :: cursor
  seed_call :: call_env

text \<open>What \<open>main\<close> does in production after the login (the guards come before, see \<open>Boot\<close>). \<open>Inl\<close> is a fatal message:
  the process ends before any worker or reconciler was started.\<close>

definition production_start :: "'s server \<Rightarrow> net_url \<Rightarrow> (rat \<Rightarrow> rat \<Rightarrow> rat) \<Rightarrow> Config \<Rightarrow> startup_env \<Rightarrow> 's \<Rightarrow>
    (string + CrawlStateStore) \<times> 's" where
  "production_start call net pow cfg e s =
     (case BloomInit (bf_reserve e) of
        Inl err \<Rightarrow> (Inl ''Bloom init failed'', s)
      | Inr created \<Rightarrow> (case BloomVerify pow (bf_info e) of
          Some err \<Rightarrow> (Inl ''Bloom verify failed'', s)
        | None \<Rightarrow> (case reconcileBloomFromMongo call (pipes e) (video_ids e) s of
            (Some err, x) \<Rightarrow> (Inl ''bloom reconcile failed'', re_srv x)
          | (None, x) \<Rightarrow> (case NewCrawlStateStore (first_info e) (source_name e) of
              Inl err \<Rightarrow> (Inl ''crawl state initialization failed'', re_srv x)
            | Inr st \<Rightarrow> (case Restore call net (restore_steps e) (saved_docs e) st \<lparr>srv = re_srv x, step = 0\<rparr> of
                (Some err, stats, st', y) \<Rightarrow> (Inl ''crawl state restore failed'', srv y)
              | (None, stats, st', y) \<Rightarrow> (case SeedListing call (seed_call e) (BaseUrl cfg) (srv y) of
                  (Inl err, s') \<Rightarrow> (Inl ''failed to seed listing schedule'', s')
                | (Inr _, s') \<Rightarrow> (Inr st', s')))))))"

end
