(* ===== verification/Startup_Correct.thy ===== *)
theory Startup_Correct
  imports Startup Worker_Canonical
begin

text \<open>
  What a start guarantees: the guards refuse the test storage, a started crawler has every
  stored video in its Bloom filter and may write checkpoints, and the queues are as they were.
\<close>

section \<open>Ports\<close>

lemma trim_left_show_nat: "n \<noteq> 0 \<Longrightarrow> trim_left CHR ''0'' (show_nat n) = show_nat n"
proof (induction n rule: show_nat.induct)
  case (1 n)
  show ?case
  proof (cases "n < 10")
    case True
    with 1(2) have "n \<in> {1..<10}" by simp
    then show ?thesis by (auto simp: show_nat.simps [of n] trim_left_def digit_char_def atLeastLessThan_nat_numeral)
  next
    case False
    then have "trim_left CHR ''0'' (show_nat (n div 10)) = show_nat (n div 10)" using 1 by simp
    then have "hd (show_nat (n div 10)) \<noteq> CHR ''0''"
      using hd_dropWhile [of "\<lambda>x. x = CHR ''0''" "show_nat (n div 10)"] by (simp add: trim_left_def)
    with False show ?thesis
      by (cases "show_nat (n div 10)") (auto simp: show_nat.simps [of n] trim_left_def)
  qed
qed

lemma digit_val_Some: "digit_val c = Some v \<Longrightarrow> v < 10 \<and> c = digit_char v"
proof -
  assume d: "digit_val c = Some v"
  then have v: "(of_char c :: nat) = v + 48" "v < 10" by (auto simp: digit_val_def Let_def split: if_splits)
  then have "c = char_of (v + 48)" by (metis char_of_char)
  moreover have "v \<in> {0, 1, 2, 3, 4, 5, 6, 7, 8, 9}" using v(2) by auto
  ultimately show ?thesis using v(2) by (auto simp: digit_char_def char_of_def bit_Suc_0_iff)
qed

lemma trim_left_append:
  "trim_left c (a @ b) = (if trim_left c a = [] then trim_left c b else trim_left c a @ b)"
  unfolding trim_left_def by (induction a) simp_all

lemma digits_val_trim:
  assumes "digits_val 0 s = Some n"
  shows "trim_left CHR ''0'' s = (if n = 0 then [] else show_nat n)"
  using assms
proof (induction s arbitrary: n rule: rev_induct)
  case (snoc c s)
  from snoc.prems obtain m v where mv: "digits_val 0 s = Some m" "digit_val c = Some v" "n = 10 * m + v"
    by (auto simp: digits_val_append split: option.splits)
  note v = digit_val_Some [OF mv(2)] and IH = snoc.IH [OF mv(1)]
  show ?case
  proof (cases "m = 0")
    case True
    with mv v IH have "trim_left CHR ''0'' (s @ [c]) = trim_left CHR ''0'' (show_nat n)"
      by (simp add: trim_left_append show_nat.simps [of v])
    then show ?thesis
      using trim_left_show_nat [of n] by (auto simp: trim_left_def)
  next
    case False
    with mv v IH show ?thesis by (simp add: trim_left_append show_nat.simps [of "10 * m + v"])
  qed
qed (simp add: trim_left_def)

text \<open>The port of an address as a number, when it is written in digits only. The guards compare its text without
  leading zeros. A port with a sign has no value here, although Go's dialer reads it.\<close>

definition digit_port :: "string \<Rightarrow> nat option" where
  "digit_port host = (case SplitHostPort host of None \<Rightarrow> None | Some (_, port) \<Rightarrow> parse_nat port)"

lemma digit_port_on_port: "n \<noteq> 0 \<Longrightarrow> digit_port host = Some n \<Longrightarrow> on_port (show_nat n) host"
  by (auto simp: digit_port_def on_port_def parse_nat_def digits_val_trim split: option.splits if_splits)

text \<open>What the guards keep from production. When the guards of main let a configuration pass,
  its Mongo database is not the test database, and neither its Redis address nor any host of its Mongo
  URI has the port of the test server in digits, however many zeros it is written with; the test
  configuration itself does not pass.\<close>

theorem production_guard_excludes_test:
  "(production_guard net cfg = None \<longrightarrow>
      MongoDB cfg \<noteq> ''gfap_test'' \<and> SplitHostPort (RedisAddr cfg) \<noteq> None \<and> digit_port (RedisAddr cfg) \<noteq> Some 16379 \<and>
      (\<exists>u. url_Parse net (MongoURI cfg) = Some u \<and> Host u \<noteq> [] \<and>
        (\<forall>host \<in> set (split_on CHR '','' (Host u)). digit_port host \<noteq> Some 37017))) \<and>
   production_guard net (LoadTest env) = Some ''production cannot use test storage''"
proof (intro conjI impI)
  have p: "digit_port host \<noteq> Some 16379" if "\<not> on_port ''16379'' host" for host
    using digit_port_on_port [of 16379 host] that by (auto simp: digit_char_def)
  have q: "digit_port host \<noteq> Some 37017" if "\<not> on_port ''37017'' host" for host
    using digit_port_on_port [of 37017 host] that by (auto simp: digit_char_def)
  assume "production_guard net cfg = None"
  then show "MongoDB cfg \<noteq> ''gfap_test''" "SplitHostPort (RedisAddr cfg) \<noteq> None" "digit_port (RedisAddr cfg) \<noteq> Some 16379"
    "\<exists>u. url_Parse net (MongoURI cfg) = Some u \<and> Host u \<noteq> [] \<and>
        (\<forall>host \<in> set (split_on CHR '','' (Host u)). digit_port host \<noteq> Some 37017)"
    by (auto simp: production_guard_def list_ex_iff p q split: if_splits option.splits)
next
  have "SplitHostPort ''127.0.0.1:16379'' \<noteq> None" by code_simp
  then show "production_guard net (LoadTest env) = Some ''production cannot use test storage''"
    by (simp add: production_guard_def LoadTest_def Let_def)
qed

text \<open>The comparison is one of texts: with a plus sign before the test port the Redis address passes.\<close>

lemma production_guard_signed_port:
  assumes "production_guard net cfg = None"
  shows "production_guard net (cfg\<lparr>RedisAddr := ''127.0.0.1:+16379''\<rparr>) = None"
proof -
  have "SplitHostPort ''127.0.0.1:+16379'' \<noteq> None" "\<not> on_port ''16379'' ''127.0.0.1:+16379''" by code_simp+
  with assms show ?thesis by (auto simp: production_guard_def split: if_splits)
qed

theorem production_guard_excludes_test_witness:
  "let net = go_url (\<lambda>_. None); cfg = Load (\<lambda>_. [])
   in production_guard net cfg = None \<and> MongoDB cfg \<noteq> ''gfap_test'' \<and> digit_port (RedisAddr cfg) \<noteq> Some 16379"
proof -
  have "production_guard (go_url (\<lambda>_. None)) (Load (\<lambda>_. [])) = None" by code_simp
  with production_guard_excludes_test [of "go_url (\<lambda>_. None)" "Load (\<lambda>_. [])"] show ?thesis
    unfolding Let_def by blast
qed

section \<open>The stream of stored URLs\<close>

text \<open>
  What \<open>EachVideoURL\<close> relies on: the callback, when it reports no error, has absorbed its batch, and no
  call undoes what an earlier one absorbed.
\<close>

locale url_consumer =
  fixes fn :: "url list \<Rightarrow> 'x \<Rightarrow> go_error option \<times> 'x" and absorbed :: "url \<Rightarrow> 'x \<Rightarrow> bool"
  assumes absorbs: "fn urls x = (None, x') \<Longrightarrow> u \<in> set urls \<Longrightarrow> absorbed u x'"
    and monotone: "fn urls x = (err, x') \<Longrightarrow> absorbed u x \<Longrightarrow> absorbed u x'"
begin

lemma each_batch_absorbs:
  assumes "each_batch batch fn ds urls x = (err, rest, x')"
  shows "(absorbed u x \<longrightarrow> absorbed u x') \<and>
    (err = None \<longrightarrow> (u \<in> set urls \<or> Inr u \<in> set ds \<longrightarrow> u \<in> set rest \<or> absorbed u x') \<and> (\<forall>d \<in> set ds. \<not> isl d))"
  using assms
proof (induction ds arbitrary: urls x)
  case (Cons d ds)
  show ?case
  proof (cases d)
    case (Inr v)
    obtain e x1 where e: "fn (urls @ [v]) x = (e, x1)" by fastforce
    consider (full) "batch \<le> length (urls @ [v])" "e = None" | (failed) e' where "batch \<le> length (urls @ [v])" "e = Some e'"
      | (more) "\<not> batch \<le> length (urls @ [v])" by (cases e) auto
    then show ?thesis
    proof cases
      case full
      with Cons.IH [of "[]" x1] Cons.prems e Inr absorbs [of "urls @ [v]" x x1 u] monotone [of "urls @ [v]" x e x1 u]
      show ?thesis by (simp add: Let_def) blast
    next
      case failed
      with Cons.prems e Inr monotone [of "urls @ [v]" x e x1 u] show ?thesis by (auto simp: Let_def)
    next
      case more
      with Cons.IH [of "urls @ [v]" x] Cons.prems Inr show ?thesis by (auto simp: Let_def)
    qed
  qed (use Cons.prems in auto)
qed simp

lemma EachVideoURL_absorbs:
  assumes "EachVideoURL batch fn cur x = (None, x')" "Inr u \<in> set (id_docs cur)"
  shows "absorbed u x'"
proof -
  obtain e rest x1 where b: "each_batch batch fn (id_docs cur) [] x = (e, rest, x1)" by (metis prod_cases3)
  with assms(1) have "e = None" "rest \<noteq> [] \<longrightarrow> fn rest x1 = (None, x')" "rest = [] \<longrightarrow> x' = x1"
    by (auto simp: EachVideoURL_def split: option.splits if_splits)
  with each_batch_absorbs [OF b, of u] assms(2) absorbs [of rest x1 x' u] monotone [of rest x1 None x' u]
  show ?thesis by (cases "rest = []") auto
qed

lemma EachVideoURL_monotone:
  assumes "EachVideoURL batch fn cur x = (err, x')" "absorbed u x"
  shows "absorbed u x'"
proof -
  obtain e rest x1 where b: "each_batch batch fn (id_docs cur) [] x = (e, rest, x1)" by (metis prod_cases3)
  with each_batch_absorbs [OF b, of u] assms monotone [of rest x1 err x' u] show ?thesis
    by (auto simp: EachVideoURL_def split: option.splits if_splits)
qed

end

text \<open>Adding to the Bloom filter touches nothing else, and a pipeline that answered added every URL.\<close>

definition same_but_bloom :: "keyspace \<Rightarrow> keyspace \<Rightarrow> bool" where
  "same_but_bloom d d' \<longleftrightarrow> lists d' = lists d \<and> zsets d' = zsets d \<and> hashes d' = hashes d \<and> strs d' = strs d \<and>
     (\<forall>k. k \<noteq> bloomKey \<longrightarrow> filters d' k = filters d k) \<and> bloom d \<subseteq> bloom d'"

lemma same_but_bloom_refl: "same_but_bloom d d"
  by (simp add: same_but_bloom_def)

lemma bfadd_keeps: "redis_doc (BFADD bloomKey u) d1 v d2 \<Longrightarrow> same_but_bloom d d1 \<Longrightarrow> same_but_bloom d d2"
  by (auto simp: same_but_bloom_def split: if_splits)

text \<open>The frontier without its schedule of listings, and the Bloom filter with at least what it had.\<close>

definition same_but_listings :: "keyspace \<Rightarrow> keyspace \<Rightarrow> bool" where
  "same_but_listings d d' \<longleftrightarrow> lists d' = lists d \<and> lease d' = lease d \<and> delayed d' = delayed d \<and>
     attempts d' = attempts d \<and> strikes d' = strikes d \<and> strs d' keyJobSeq = strs d keyJobSeq \<and> bloom d \<subseteq> bloom d'"

lemma same_but_listings_trans:
  "same_but_listings a b \<Longrightarrow> same_but_listings b c \<Longrightarrow> same_but_listings a c"
  by (auto simp: same_but_listings_def)

lemma same_but_listingsI:
  "same_but_bloom d d' \<Longrightarrow> same_but_listings d d'" "same_work d d' \<Longrightarrow> same_but_listings d d'"
  by (auto simp: same_but_listings_def same_but_bloom_def same_work_def keyCrawlStateRestore_def keyJobSeq_def)

context redis_server
begin

lemma bfadds_keep: "same_but_bloom d (data s) \<Longrightarrow> same_but_bloom d (data (snd (tx_run call (take k (map (BFADD bloomKey) urls)) s)))"
  by (rule tx_run_keeps) (auto dest!: in_set_takeD intro: bfadd_keeps)

lemma pipe_attempts_keep:
  "same_but_bloom d (data s) \<Longrightarrow>
   same_but_bloom d (data (fold (\<lambda>k s. snd (tx_run call (take k (map (BFADD bloomKey) urls)) s)) ks s))"
  by (induction ks arbitrary: s) (auto intro: bfadds_keep)

lemma BloomAddBatch_keeps:
  assumes "BloomAddBatch call e urls s = (err, s')" "same_but_bloom d (data s)"
  shows "same_but_bloom d (data s')"
proof -
  let ?s1 = "fold (\<lambda>k s. snd (tx_run call (take k (map (BFADD bloomKey) urls)) s)) (sent e) s"
  have "same_but_bloom d (data ?s1)" by (rule pipe_attempts_keep [OF assms(2)])
  moreover from this have "same_but_bloom d (data (snd (tx_run call (map (BFADD bloomKey) urls) ?s1)))"
    using bfadds_keep [of d ?s1 "length urls" urls] by simp
  ultimately show ?thesis
    using assms(1) by (auto simp: BloomAddBatch_def pipe_exec_def Let_def split: option.splits prod.splits)
qed

lemma tx_run_bfadds:
  assumes "tx_run call (map (BFADD bloomKey) urls) s = (map Inr vs, s')"
  shows "(u \<in> set urls \<longrightarrow> u \<in> bloom (data s')) \<and> (u \<in> bloom (data s) \<longrightarrow> u \<in> bloom (data s'))"
  using assms
proof (induction urls arbitrary: s vs)
  case (Cons v urls)
  obtain r s1 where r: "call (BFADD bloomKey v) s = (r, s1)" by fastforce
  obtain rs s2 where t: "tx_run call (map (BFADD bloomKey) urls) s1 = (rs, s2)" by fastforce
  from Cons.prems r t obtain w ws where w: "r = Inr w" "rs = map Inr ws" "s2 = s'" by (cases vs) auto
  with Cons.IH [of s1 ws] t call_reply [of "BFADD bloomKey v" s w s1] r show ?case
    by (auto split: if_splits)
qed simp

lemma BloomAddBatch_adds:
  assumes "BloomAddBatch call e urls s = (None, s')" "u \<in> set urls"
  shows "u \<in> bloom (data s')"
  using assms tx_run_bfadds [where u = u]
  by (auto simp: BloomAddBatch_def pipe_exec_def Let_def replies_Inr split: option.splits prod.splits sum.splits)

end

sublocale redis_server \<subseteq> reconcile: url_consumer "reconcile_batch call es" "\<lambda>u x. u \<in> bloom (data (re_srv x))"
proof unfold_locales
  show "u \<in> bloom (data (re_srv x'))"
    if "reconcile_batch call es urls x = (None, x')" "u \<in> set urls" for urls x x' u
    using that BloomAddBatch_adds [of "es (re_step x)" urls "re_srv x"]
    by (auto simp: reconcile_batch_def split: prod.splits)
  show "u \<in> bloom (data (re_srv x'))"
    if "reconcile_batch call es urls x = (err, x')" "u \<in> bloom (data (re_srv x))" for urls x err x' u
    using that BloomAddBatch_keeps [OF _ same_but_bloom_refl, of "es (re_step x)" urls "re_srv x"]
    by (auto simp: reconcile_batch_def same_but_bloom_def split: prod.splits)
qed

lemma each_batch_keeps:
  assumes "\<And>urls x. P x \<Longrightarrow> P (snd (fn urls x))" "P x"
  shows "P (snd (snd (each_batch batch fn ds urls x)))"
  using assms(2)
proof (induction ds arbitrary: urls x)
  case (Cons d ds)
  have "fn (urls @ [v]) x = (e, x1) \<Longrightarrow> P x1" for v e x1
    using assms(1) [OF Cons.prems, of "urls @ [v]"] by simp
  then show ?case
    using Cons.IH Cons.prems by (cases d) (auto simp: Let_def split: prod.splits option.splits)
qed simp

lemma EachVideoURL_keeps:
  assumes "EachVideoURL batch fn cur x = (err, x')" "\<And>urls x. P x \<Longrightarrow> P (snd (fn urls x))" "P x"
  shows "P x'"
proof -
  obtain e rest x1 where b: "each_batch batch fn (id_docs cur) [] x = (e, rest, x1)" by (metis prod_cases3)
  with each_batch_keeps [where P = P and fn = fn, OF assms(2,3), of batch "id_docs cur" "[]"] have "P x1" by simp
  moreover from this have "P (snd (fn rest x1))" by (rule assms(2))
  ultimately show ?thesis
    using assms(1,3) b by (auto simp: EachVideoURL_def split: option.splits if_splits)
qed

context redis_server
begin

lemma reconcile_adds:
  assumes "reconcileBloomFromMongo call es cur s = (None, x)" "Inr u \<in> set (id_docs cur)"
  shows "u \<in> bloom (data (re_srv x))"
  using reconcile.EachVideoURL_absorbs [OF assms(1) [unfolded reconcileBloomFromMongo_def] assms(2)] .

lemma reconcile_keeps:
  assumes "reconcileBloomFromMongo call es cur s = (err, x)"
  shows "same_but_bloom (data s) (data (re_srv x))"
proof (rule EachVideoURL_keeps [OF assms [unfolded reconcileBloomFromMongo_def],
      where P = "\<lambda>x. same_but_bloom (data s) (data (re_srv x))"])
  show "same_but_bloom (data s) (data (re_srv (snd (reconcile_batch call es urls x))))"
    if "same_but_bloom (data s) (data (re_srv x))" for urls x
    using that BloomAddBatch_keeps [of "es (re_step x)" urls "re_srv x" _ _ "data s"]
    by (auto simp: reconcile_batch_def split: prod.splits)
qed (simp add: same_but_bloom_refl)

lemma SeedListing_seeds:
  assumes "SeedListing call e u s = (Inr v, s')"
  shows "listing_next (data s') u \<noteq> None"
proof -
  let ?s1 = "executions call (lost e) (seedListing u) s"
  from assms obtain v' where "run call (seedListing u) ?s1 = (Inr v', s')"
    by (auto simp: SeedListing_def on_reply_def rpc_def Let_def split: option.splits prod.splits sum.splits)
  from run_wp [OF _ this, of "\<lambda>r d'. \<not> isl r \<longrightarrow> listing_next d' u \<noteq> None"] show ?thesis by simp
qed

lemma SeedListing_keeps:
  assumes "SeedListing call e u s = (r, s')"
  shows "same_but_listings (data s) (data s')"
proof -
  obtain tr where "server_trace call s tr s'" "\<forall>ev \<in> set tr. fst ev = OSeedListing u"
    using on_reply_via [OF assms [unfolded SeedListing_def], of "OSeedListing u" Num] by (auto simp: via_def)
  then show ?thesis
  proof (induction rule: server_trace.induct)
    case (trace_step tr s1 op r s2)
    have "wp True (op_script (OSeedListing u)) (data s1) (\<lambda>_ d'. same_but_listings (data s1) d')"
      by (simp add: same_but_listings_def)
    moreover have "op = OSeedListing u" using trace_step.prems by simp
    ultimately have "same_but_listings (data s1) (data s2)" using run_wp trace_step.hyps(2) by blast
    moreover have "same_but_listings (data s) (data s1)" using trace_step.IH trace_step.prems by simp
    ultimately show ?case using same_but_listings_trans by blast
  qed (simp add: same_but_listings_def)
qed

lemma no_readmission:
  assumes "server_trace call s tr s'" "u \<in> bloom (data s)"
  shows "\<not> (\<exists>ev \<in> set tr. admits_new u ev)"
  using assms
proof (induction rule: server_trace.induct)
  case (trace_step tr s1 op r s2)
  have "u \<in> bloom (data s1)" by (rule trace_bloom [OF trace_step.hyps(1) trace_step.prems])
  then have "\<not> admits_new u (op, r)"
    using run_wp [OF luaAdmitVideo_new] trace_step.hyps(2) by (auto simp: admits_new_def)
  with trace_step show ?case by auto
qed simp

end

section \<open>A start\<close>

lemma production_start_cases:
  assumes "production_start call net pow cfg e s = (Inr st, s')"
  obtains x st0 stats y v where "BloomVerify pow (bf_info e) = None"
    "reconcileBloomFromMongo call (pipes e) (video_ids e) s = (None, x)"
    "Restore call net (restore_steps e) (saved_docs e) st0 \<lparr>srv = re_srv x, step = 0\<rparr> = (None, stats, st, y)"
    "SeedListing call (seed_call e) (BaseUrl cfg) (srv y) = (Inr v, s')"
  using assms by (auto simp: production_start_def split: option.splits sum.splits prod.splits)

lemma Restore_allows: "Restore call net E cur st x = (None, stats, st', x') \<Longrightarrow> startupComplete st'"
  by (auto simp: Restore_def Let_def split: option.splits sum.splits choice.splits prod.splits if_splits)

lemma BloomVerify_sound:
  "BloomVerify pow r = None \<Longrightarrow> \<exists>i. r = Inr i \<and> capacity i = bloomCapacity \<and> nfilters i \<le> 1"
  by (auto simp: BloomVerify_def split: sum.splits if_splits)

text \<open>A started crawler is ready. When the production start succeeds, the Bloom filter has the
  capacity the program expects and has not scaled, every video that Mongo holds is in it, the base page is
  scheduled, checkpoints are allowed, and every queue, lease, failure counter and the job counter are as the last run
  left them. No stored video is admitted as new by anything that happens to the frontier afterwards.\<close>

theorem startup_ready:
  assumes "redis_server call data" "production_start call net pow cfg e s = (Inr st, s')"
  shows "startupComplete st \<and> (\<exists>i. bf_info e = Inr i \<and> capacity i = bloomCapacity \<and> nfilters i \<le> 1) \<and>
    listing_next (data s') (BaseUrl cfg) \<noteq> None \<and> same_but_listings (data s) (data s') \<and>
    (\<forall>u. Inr u \<in> set (id_docs (video_ids e)) \<longrightarrow> u \<in> bloom (data s') \<and>
      (\<forall>tr s''. server_trace call s' tr s'' \<longrightarrow> \<not> (\<exists>ev \<in> set tr. admits_new u ev)))"
proof (rule production_start_cases [OF assms(2)])
  fix x st0 stats y v
  assume start: "BloomVerify pow (bf_info e) = None"
    "reconcileBloomFromMongo call (pipes e) (video_ids e) s = (None, x)"
    "Restore call net (restore_steps e) (saved_docs e) st0 \<lparr>srv = re_srv x, step = 0\<rparr> = (None, stats, st, y)"
    "SeedListing call (seed_call e) (BaseUrl cfg) (srv y) = (Inr v, s')"
  note rs = assms(1)
  have same: "same_but_listings (data s) (data (re_srv x))" "same_but_listings (data (re_srv x)) (data (srv y))"
    "same_but_listings (data (srv y)) (data s')"
    using redis_server.reconcile_keeps [OF rs start(2)] redis_server.SeedListing_keeps [OF rs start(4)]
      redis_server.Restore_keeps [OF rs restore_inv_same_work _ start(3), of "data (re_srv x)"]
    by (simp_all add: same_but_listingsI)
  have stored: "u \<in> bloom (data s')" if "Inr u \<in> set (id_docs (video_ids e))" for u
    using redis_server.reconcile_adds [OF rs start(2) that] same(2,3) by (auto simp: same_but_listings_def)
  have "same_but_listings (data s) (data s')"
    using same same_but_listings_trans by blast
  then show ?thesis
    using stored Restore_allows [OF start(3)] BloomVerify_sound [OF start(1)] redis_server.SeedListing_seeds [OF rs start(4)]
      redis_server.no_readmission [OF rs] by blast
qed

text \<open>A start on a Redis that lost its Bloom filter but has its listing schedule.\<close>

definition sample_start :: startup_env where
  "sample_start =
     \<lparr>bf_reserve = None, bf_info = Inr \<lparr>capacity = 1000000000, bsize = 3000000000, nfilters = 1, itemsInserted = 0\<rparr>,
      video_ids = \<lparr>id_find_err = None, id_docs = [Inr ''https://www.vidlii.com/watch?v=a'', Inr ''https://www.vidlii.com/watch?v=b''],
        id_cursor_err = None\<rparr>,
      pipes = (\<lambda>_. \<lparr>sent = [1], pfate = None\<rparr>), first_info = Inr ''run_id:f00'', source_name = ''vidlii.crawl_state'',
      restore_steps = quiet, saved_docs = saved_cursor None, seed_call = call_at (100 * second)\<rparr>"

definition sample_pow :: "rat \<Rightarrow> rat \<Rightarrow> rat" where
  "sample_pow b x = b ^ nat \<lfloor>x\<rfloor>"

definition started :: "(string + CrawlStateStore) \<times> rstore" where
  "started = production_start store_call (go_url (\<lambda>_. None)) sample_pow (Load (\<lambda>_. [])) sample_start
     (replay [OSeedListing ''https://www.vidlii.com/videos''])"

lemma started_ok: "\<not> isl (fst started)"
  by code_simp

theorem startup_ready_witness:
  "\<exists>st s'. started = (Inr st, s') \<and> startupComplete st \<and> ''https://www.vidlii.com/watch?v=b'' \<in> bloom (store_data s') \<and>
     listing_next (store_data s') ''https://www.vidlii.com'' \<noteq> None"
proof -
  obtain r s' where r: "started = (r, s')" by fastforce
  have "\<not> isl r" using started_ok unfolding r by simp
  with r obtain st where s: "started = (Inr st, s')" by (cases r) simp_all
  from startup_ready [OF store.redis_server_axioms s [unfolded started_def]] s show ?thesis
    by (auto simp: sample_start_def Load_def)
qed

section \<open>Seeds\<close>

text \<open>Seed counts lines it does not admit. It hands the untrimmed line to admitURL, which drops what is not a
  URL without an error: of a seeds file with CRLF line ends (and no fragments) no line is admitted, Redis is
  unchanged, and the number reported as seeded is the number of non-blank lines.\<close>

theorem Seed_drops_crlf:
  assumes "\<forall>line \<in> set (split_on (CHR 0x0A) text). TrimSpace line = [] \<or> suffix [CHR 0x0D] line \<and> CHR ''#'' \<notin> set line"
  shows "Seed F (go_url ip) cfg es (Some text) s =
    (Some (int (length (filter (\<lambda>line. TrimSpace line \<noteq> []) (split_on (CHR 0x0A) text)))), s)"
proof -
  have "canonicalize (go_url ip) cfg line = []" if "suffix [CHR 0x0D] line" "CHR ''#'' \<notin> set line" for line
  proof -
    have "Cut CHR ''#'' line = (line, [])" using that(2) cut_none_iff [of "CHR ''#''" line] by (simp add: Cut_def del: cut_none_iff)
    moreover have "parse_url ip line = None"
      using that(1) by (auto simp: parse_url_def suffix_def ctl_byte_def)
    ultimately show ?thesis by (simp add: canonicalize_def go_url_def go_Parse_def split: option.split)
  qed
  then have "admitURL F (go_url ip) cfg e line s = (Inr Suppressed, s)" if "suffix [CHR 0x0D] line" "CHR ''#'' \<notin> set line" for e line s
    using that by (simp add: admitURL_def)
  then have "seed_lines F (go_url ip) cfg es lines n s =
      (n + int (length (filter (\<lambda>line. TrimSpace line \<noteq> []) lines)), s)"
    if "\<forall>line \<in> set lines. TrimSpace line = [] \<or> suffix [CHR 0x0D] line \<and> CHR ''#'' \<notin> set line" for lines es n
    using that by (induction lines arbitrary: es n) auto
  with assms show ?thesis by (simp add: Seed_def)
qed

theorem Seed_drops_crlf_witness:
  "Seed (NewFrontier store_call (frontierConfig (Load (\<lambda>_. []))) None) (go_url (\<lambda>_. None)) (Load (\<lambda>_. []))
     (\<lambda>_. call_at (100 * second))
     (Some (''https://www.vidlii.com/videos'' @ [CHR 0x0D, CHR 0x0A])) empty_store = (Some 1, empty_store)"
proof -
  let ?text = "''https://www.vidlii.com/videos'' @ [CHR 0x0D, CHR 0x0A]"
  have "\<forall>line \<in> set (split_on (CHR 0x0A) ?text). TrimSpace line = [] \<or> suffix [CHR 0x0D] line \<and> CHR ''#'' \<notin> set line"
    "length (filter (\<lambda>line. TrimSpace line \<noteq> []) (split_on (CHR 0x0A) ?text)) = 1"
    by code_simp+
  with Seed_drops_crlf [of ?text] show ?thesis by simp
qed

end
