(* ===== verification/Test_Main.thy ===== *)
theory Test_Main
  imports Test_Mode_Correct Startup_Correct Crawl_Checkpoint_Correct
begin

text \<open>
  The test mode of \<open>src/cmd/crawler/main.go\<close>, from the reset of its Redis to the exit code, with \<open>InitTest\<close> of
  \<open>src/internal/crawler/crawler.go\<close>. What FLUSHDB does, what the workers leave in Redis, and how the writing of the results fares
  are arguments.
\<close>

record 's test_main_env =
  flush :: "'s \<Rightarrow> go_error option \<times> 's"
  t_reserve :: "go_error option"
  t_info :: "go_error + bloomStats"
  t_first_info :: "go_error + string"
  t_source :: string
  t_restore :: "nat \<Rightarrow> step_env"
  t_docs :: cursor
  t_run :: test_run
  t_workers :: "'s \<Rightarrow> 's"
  t_steps :: "nat \<Rightarrow> step_env"
  t_next :: "'s scan_page list"
  t_barren :: "'s scan_page list"
  t_dead :: "'s scan_page list"
  t_ctx_err :: "go_error option"
  t_save_err :: "go_error option"

definition InitTest :: "('s \<Rightarrow> go_error option \<times> 's) \<Rightarrow> 's \<Rightarrow> go_error option \<times> 's" where
  "InitTest flush_db s = (case flush_db s of (Some err, s') \<Rightarrow> (Some (OtherErr (''test Redis reset: '' @ err_text err)), s') | (None, s') \<Rightarrow> (None, s'))"

text \<open>Everything up to the crawl: a store that may write checkpoints, or a fatal message.\<close>

definition test_setup :: "'s server \<Rightarrow> net_url \<Rightarrow> (rat \<Rightarrow> rat \<Rightarrow> rat) \<Rightarrow> 's test_main_env \<Rightarrow> 's \<Rightarrow> (string + CrawlStateStore) \<times> 's session" where
  "test_setup call net pow e s =
     (case InitTest (flush e) s of
        (Some err, s1) \<Rightarrow> (Inl ''Test initialization failed'', \<lparr>srv = s1, step = 0\<rparr>)
      | (None, s1) \<Rightarrow> (case BloomInit (t_reserve e) of
          Inl err \<Rightarrow> (Inl ''Bloom init failed'', \<lparr>srv = s1, step = 0\<rparr>)
        | Inr _ \<Rightarrow> (case BloomVerify pow (t_info e) of
            Some err \<Rightarrow> (Inl ''Test Bloom verification failed'', \<lparr>srv = s1, step = 0\<rparr>)
          | None \<Rightarrow> (case NewCrawlStateStore (t_first_info e) (t_source e) of
              Inl err \<Rightarrow> (Inl ''Test crawl state initialization failed'', \<lparr>srv = s1, step = 0\<rparr>)
            | Inr st \<Rightarrow> (case Restore call net (t_restore e) (t_docs e) st \<lparr>srv = s1, step = 0\<rparr> of
                (Some err, stats, st', x) \<Rightarrow> (Inl ''Test crawl state restore failed'', x)
              | (None, stats, st', x) \<Rightarrow> (Inr st', x))))))"

text \<open>The exit code, the checkpoint collection and the server; \<open>None\<close> while the crawl or the checkpoint runs.\<close>

definition test_main :: "'s server \<Rightarrow> 's frontier_methods \<Rightarrow> net_url \<Rightarrow> (rat \<Rightarrow> rat \<Rightarrow> rat) \<Rightarrow> Config \<Rightarrow> 's test_main_env \<Rightarrow>
    coll \<Rightarrow> 's \<Rightarrow> (nat \<times> coll \<times> 's) option" where
  "test_main call F net pow cfg e c s =
     (case test_setup call net pow e s of
        (Inl msg, x) \<Rightarrow> Some (1, c, srv x)
      | (Inr st, x) \<Rightarrow> (case RunTest F net cfg (t_run e) (TestUrl cfg) (srv x) of
          None \<Rightarrow> None
        | Some problems \<Rightarrow>
            (case Checkpoint call net (t_steps e) st (t_next e) (t_barren e) (t_dead e) c \<lparr>srv = t_workers e (srv x), step = 0\<rparr> of
               None \<Rightarrow> None
             | Some (ck_err, p) \<Rightarrow>
                 Some (if problems \<noteq> [] \<or> ck_err \<noteq> None \<or> t_ctx_err e \<noteq> None then 1
                       else if t_save_err e \<noteq> None then 1 else 0,
                       coll p, srv (sess p)))))"

lemma test_setup_allows: "test_setup call net pow e s = (Inr st, x) \<Longrightarrow> startupComplete st"
  by (auto simp: test_setup_def split: option.splits sum.splits prod.splits dest: Restore_allows)

text \<open>A test exits with success only when everything it checks held: the crawl met its target with every worker
  verified and no overlap, the final checkpoint succeeded and holds one observed state of every URL it
  scanned, the results were written, and nothing was cancelled. The final checkpoint is made also after a failed crawl.\<close>

theorem test_exit_code:
  assumes "redis_server call data" "test_main call F net pow cfg e c s = Some (code, c', s')"
    "test_setup call net pow e s = (Inr st, x)" "I (data (t_workers e (srv x)))"
    "\<forall>page \<in> set (t_next e @ t_barren e @ t_dead e). \<forall>i s. I (data s) \<longrightarrow> I (data (meanwhile (bulks page i) s))"
  shows "(\<forall>u. c' u = c u \<or> saved I net c' u) \<and>
    (code = 0 \<longrightarrow> RunTest F net cfg (t_run e) (TestUrl cfg) (srv x) = Some [] \<and> t_ctx_err e = None \<and> t_save_err e = None \<and>
       (\<forall>u \<in> scanned (t_next e) \<union> scanned (t_barren e) \<union> scanned (t_dead e). saved I net c' u))"
proof -
  obtain problems ck_err p where run: "RunTest F net cfg (t_run e) (TestUrl cfg) (srv x) = Some problems"
    and ck: "Checkpoint call net (t_steps e) st (t_next e) (t_barren e) (t_dead e) c \<lparr>srv = t_workers e (srv x), step = 0\<rparr> = Some (ck_err, p)"
    and out: "c' = coll p" "code = 0 \<longrightarrow> problems = [] \<and> ck_err = None \<and> t_ctx_err e = None \<and> t_save_err e = None"
    using assms(2,3) by (auto simp: test_main_def split: option.splits prod.splits if_splits)
  have "\<forall>page \<in> set (t_next e @ t_barren e @ t_dead e). undisturbed data I (bulks page)"
    using assms(5) by (simp add: undisturbed_def)
  from redis_server.Checkpoint_progress [where I = I, OF assms(1) ck _ this] assms(4)
  have "progress I net (scanned (t_next e) \<union> scanned (t_barren e) \<union> scanned (t_dead e)) (ck_err = None) c (coll p)" by simp
  then have "\<forall>u. (coll p u = c u \<or> saved I net (coll p) u) \<and>
      (ck_err = None \<and> u \<in> scanned (t_next e) \<union> scanned (t_barren e) \<union> scanned (t_dead e) \<longrightarrow> saved I net (coll p) u)"
    unfolding progress_def by blast
  with run out show ?thesis by blast
qed

end
