(* ===== verification/Housekeeping.thy ===== *)
theory Housekeeping
  imports Scheduler Crawl_Checkpoint_Correct
begin

text \<open>
  The slow reconcilers and the checks around a run: the checkpoint reconciler of
  \<open>src/internal/scheduler/crawl_state.go\<close>, the snapshotter and the tick log of \<open>scheduler.go\<close>, and the preflight of
  \<open>src/internal/storage/mongo.go\<close> that refuses a test database with documents.
\<close>

section \<open>The checkpoint reconciler\<close>

text \<open>\<open>lastSuccess\<close> is \<open>None\<close> for the zero time. A pass that is still scanning has reported nothing yet.\<close>

record 's reconciler =
  lastSuccess :: "go_time option"
  lastStats :: CheckpointStats
  reErrors :: nat
  reColl :: coll
  reSess :: "'s session"

record 's pass_env =
  ck_steps :: "nat \<Rightarrow> step_env"
  next_pages :: "'s scan_page list"
  barren_pages :: "'s scan_page list"
  dead_pages :: "'s scan_page list"
  completed :: go_time

definition checkpoint_tick :: "'s server \<Rightarrow> net_url \<Rightarrow> CrawlStateStore \<Rightarrow> 's pass_env \<Rightarrow> 's reconciler option \<Rightarrow> 's reconciler option" where
  "checkpoint_tick call net st e r = Option.bind r (\<lambda>x.
     case Checkpoint call net (ck_steps e) st (next_pages e) (barren_pages e) (dead_pages e) (reColl x) (reSess x) of
       None \<Rightarrow> None
     | Some (Some err, p) \<Rightarrow> Some (x\<lparr>reErrors := reErrors x + 1, reColl := coll p, reSess := sess p\<rparr>)
     | Some (None, p) \<Rightarrow> Some (x\<lparr>lastSuccess := Some (completed e), lastStats := cstats p, reColl := coll p, reSess := sess p\<rparr>))"

definition RunCrawlStateCheckpoint :: "'s server \<Rightarrow> net_url \<Rightarrow> CrawlStateStore \<Rightarrow> (bool \<times> 's pass_env \<times> wake) list \<Rightarrow>
    coll \<Rightarrow> 's session \<Rightarrow> 's reconciler option" where
  "RunCrawlStateCheckpoint call net st turns c x =
     everyTick (checkpoint_tick call net st) turns
       (Some \<lparr>lastSuccess = None, lastStats = no_stats, reErrors = 0, reColl = c, reSess = x\<rparr>)"

section \<open>Snapshots and the tick log\<close>

text \<open>Unlike \<open>everyTick\<close>, the snapshotter waits for the ticker first: each turn is a cancellation or
  the answer to BGSAVE.\<close>

fun runSnapshotter :: "(go_error option) option list \<Rightarrow> nat \<times> nat \<Rightarrow> nat \<times> nat" where
  "runSnapshotter [] x = x"
| "runSnapshotter (None # ws) x = x"
| "runSnapshotter (Some (Some err) # ws) (errors, requested) = runSnapshotter ws (errors + 1, requested)"
| "runSnapshotter (Some None # ws) (errors, requested) = runSnapshotter ws (errors, requested + 1)"

definition logTick :: "string \<Rightarrow> int \<Rightarrow> go_error option \<Rightarrow> string option" where
  "logTick name n err = (case err of
     Some _ \<Rightarrow> Some (''[DEBUG] '' @ name @ '': n='' @ show_int n @ '' err'')
   | None \<Rightarrow> if n > 0 then Some (''[DEBUG] '' @ name @ '': n='' @ show_int n) else None)"

section \<open>The preflight of a test database\<close>

datatype find_one = NoDocuments | QueryErr go_error | Document

text \<open>What the driver answers: the listing of collections as a cursor of names (or decode errors).\<close>

record preflight_env =
  connect_err :: "go_error option"
  list_err :: "go_error option"
  names :: "(go_error + string) list"
  find_in :: "string \<Rightarrow> find_one"
  names_err :: "go_error option"
  close_names_err :: "go_error option"
  disconnect_err :: "go_error option"
  deadline_err :: "go_error option"

fun inspect_all :: "(string \<Rightarrow> find_one) \<Rightarrow> (go_error + string) list \<Rightarrow> string option" where
  "inspect_all findOne [] = None"
| "inspect_all findOne (Inl err # cs) = Some ''test preflight: decode collection name''"
| "inspect_all findOne (Inr name # cs) =
     (if name = [] then Some ''test preflight: collection name is missing''
      else case findOne name of
        NoDocuments \<Rightarrow> inspect_all findOne cs
      | QueryErr err \<Rightarrow> Some (''test preflight: inspect '' @ name)
      | Document \<Rightarrow> Some (''test refused: contains documents in collection '' @ name))"

definition RequireEmptyMongoForTest :: "preflight_env \<Rightarrow> string \<Rightarrow> string option" where
  "RequireEmptyMongoForTest e dbName =
     (if dbName \<in> {[], ''admin'', ''config'', ''local''} then Some ''test preflight: invalid application database''
      else if connect_err e \<noteq> None then Some ''test preflight: connect to Mongo''
      else
        (let body = (if list_err e \<noteq> None then Some ''test preflight: list Mongo collections''
             else (let inner = (case inspect_all (find_in e) (names e) of
                     Some err \<Rightarrow> Some err
                   | None \<Rightarrow> if names_err e \<noteq> None then Some ''test preflight: read collection cursor''
                       else if deadline_err e \<noteq> None then Some ''context deadline exceeded'' else None)
                   in if close_names_err e \<noteq> None \<and> inner = None then Some ''test preflight: close collection cursor'' else inner))
         in if disconnect_err e \<noteq> None \<and> body = None then Some ''test preflight: disconnect Mongo'' else body))"

text \<open>The preflight accepts a database exactly when nothing failed and every collection it listed is empty: an
  error on the way never passes for emptiness.\<close>

theorem preflight_exact:
  "RequireEmptyMongoForTest e dbName = None \<longleftrightarrow>
     dbName \<notin> {[], ''admin'', ''config'', ''local''} \<and>
     (\<forall>f \<in> {connect_err, list_err, names_err, close_names_err, disconnect_err, deadline_err}. f e = None) \<and>
     (\<forall>c \<in> set (names e). \<exists>name. c = Inr name \<and> name \<noteq> [] \<and> find_in e name = NoDocuments)"
proof -
  have inspect: "inspect_all findOne cs = None \<longleftrightarrow> (\<forall>c \<in> set cs. \<exists>name. c = Inr name \<and> name \<noteq> [] \<and> findOne name = NoDocuments)" for findOne cs
    by (induction findOne cs rule: inspect_all.induct) (auto split: find_one.splits)
  show ?thesis
    unfolding inspect [symmetric] by (cases "inspect_all (find_in e) (names e)") (auto simp: RequireEmptyMongoForTest_def Let_def)
qed

section \<open>Checkpoints through a whole run\<close>

text \<open>What \<open>everyTick\<close> leaves invariant.\<close>

lemma everyTick_keeps:
  assumes "P x" "\<And>e y. e \<in> fst ` snd ` set turns \<Longrightarrow> P y \<Longrightarrow> P (fn e y)"
  shows "P (everyTick fn turns x)"
  using assms
proof (induction turns arbitrary: x)
  case (Cons t turns)
  obtain b e w where t: "t = (b, e, w)" by (metis prod_cases3)
  have fn: "P (fn e x)" using Cons.prems t by force
  have "P (everyTick fn turns (fn e x))"
    by (rule Cons.IH [OF fn]) (rule Cons.prems(2), auto)
  with t fn Cons.prems(1) show ?case by (auto simp: Let_def split: wake.split)
qed simp

definition reconciled :: "('s \<Rightarrow> keyspace) \<Rightarrow> (keyspace \<Rightarrow> bool) \<Rightarrow> net_url \<Rightarrow> coll \<Rightarrow> 's reconciler option \<Rightarrow> bool" where
  "reconciled data I net c r \<longleftrightarrow> (case r of None \<Rightarrow> True | Some x \<Rightarrow>
     I (data (srv (reSess x))) \<and> (\<forall>u. reColl x u = c u \<or> saved I net (reColl x) u))"

context redis_server
begin

lemma checkpoint_tick_keeps:
  assumes "reconciled data I net c r"
    "\<forall>page \<in> set (next_pages e @ barren_pages e @ dead_pages e). undisturbed data I (bulks page)"
  shows "reconciled data I net c (checkpoint_tick call net st e r)"
proof (cases "checkpoint_tick call net st e r")
  case (Some y)
  then obtain x err p where x: "r = Some x"
    and p: "Checkpoint call net (ck_steps e) st (next_pages e) (barren_pages e) (dead_pages e) (reColl x) (reSess x) = Some (err, p)"
    and y: "reColl y = coll p" "reSess y = sess p"
    by (auto simp: checkpoint_tick_def split: bind_splits option.splits prod.splits)
  have "I (data (srv (reSess x)))" "\<forall>u. reColl x u = c u \<or> saved I net (reColl x) u"
    using assms(1) x by (auto simp: reconciled_def)
  note old = this
  note new = Checkpoint_progress [where I = I, OF p old(1) assms(2)]
  have "coll p u = c u \<or> saved I net (coll p) u" for u
    using new old(2) saved_cong [of "coll p" u "reColl x" I net] unfolding progress_def by (metis (no_types, lifting))
  with new y Some show ?thesis by (simp add: reconciled_def)
qed (simp add: reconciled_def)

end

definition unsaved :: "coll \<Rightarrow> 's reconciler option \<Rightarrow> bool" where
  "unsaved c r \<longleftrightarrow> (case r of None \<Rightarrow> True | Some x \<Rightarrow> reColl x = c \<and> lastSuccess x = None)"

lemma unready_tick: "\<not> startupComplete st \<Longrightarrow> unsaved c r \<Longrightarrow> unsaved c (checkpoint_tick call net st e r)"
  by (cases r) (auto simp: unsaved_def checkpoint_tick_def Checkpoint_def Let_def)

text \<open>C17: Checkpoints stay sound through a whole run. However many passes the reconciler makes, and however each of them
  ends, every row of the collection is as it was when the crawler started or is what its URL was in one state of Redis that satisfies
  what every other client keeps. Before a successful restore no pass changes the collection or counts as a success.\<close>

theorem checkpoints_through_run:
  assumes "redis_server call data" "RunCrawlStateCheckpoint call net st turns c x = Some r" "I (data (srv x))"
    "\<forall>(b, e, w) \<in> set turns. \<forall>page \<in> set (next_pages e @ barren_pages e @ dead_pages e).
       \<forall>i s. I (data s) \<longrightarrow> I (data (meanwhile (bulks page i) s))"
  shows "I (data (srv (reSess r))) \<and>
    (\<forall>u. reColl r u = c u \<or> (\<exists>d row. I d \<and> row_of net u d = Inr row \<and> reColl r u = Some row)) \<and>
    (\<not> startupComplete st \<longrightarrow> reColl r = c \<and> lastSuccess r = None)"
proof -
  let ?r0 = "Some \<lparr>lastSuccess = None, lastStats = no_stats, reErrors = 0, reColl = c, reSess = x\<rparr>"
  note run = assms(2) [unfolded RunCrawlStateCheckpoint_def]
  have "reconciled data I net c (everyTick (checkpoint_tick call net st) turns ?r0)"
  proof (rule everyTick_keeps)
    show "reconciled data I net c (checkpoint_tick call net st e y)"
      if "e \<in> fst ` snd ` set turns" "reconciled data I net c y" for e y
      by (rule redis_server.checkpoint_tick_keeps [OF assms(1) that(2)]) (use assms(4) that(1) in \<open>fastforce simp: undisturbed_def\<close>)
  qed (simp add: reconciled_def assms(3))
  moreover have "reColl r = c \<and> lastSuccess r = None" if "\<not> startupComplete st"
  proof -
    have "unsaved c (everyTick (checkpoint_tick call net st) turns ?r0)"
      by (rule everyTick_keeps) (auto simp: unsaved_def [of c ?r0] intro: unready_tick [OF that])
    then show ?thesis by (simp add: run unsaved_def)
  qed
  ultimately show ?thesis by (auto simp: run reconciled_def saved_def)
qed

definition sample_checkpoint_run :: "rstore reconciler option" where
  "sample_checkpoint_run = RunCrawlStateCheckpoint store_call (go_url (\<lambda>_. None)) (sample_store\<lparr>startupComplete := True\<rparr>)
     [(False, \<lparr>ck_steps = quiet, next_pages = [calm_page [resting_url, ''253402300799'']], barren_pages = [calm_page []],
        dead_pages = [calm_page []], completed = 100 * second\<rparr>, CtxDone)]
     Map.empty \<lparr>srv = queued_listing, step = 0\<rparr>"

theorem checkpoints_through_run_witness:
  "case sample_checkpoint_run of None \<Rightarrow> False | Some r \<Rightarrow>
     (\<forall>u. reColl r u = None \<or> (\<exists>d row. d = store_data queued_listing \<and> row_of (go_url (\<lambda>_. None)) u d = Inr row \<and> reColl r u = Some row)) \<and>
     lastSuccess r = Some (100 * second) \<and> reColl r resting_url \<noteq> None"
proof -
  have "case sample_checkpoint_run of None \<Rightarrow> False | Some r \<Rightarrow> lastSuccess r = Some (100 * second) \<and> reColl r resting_url \<noteq> None"
    by code_simp
  then obtain r where r: "sample_checkpoint_run = Some r" "lastSuccess r = Some (100 * second) \<and> reColl r resting_url \<noteq> None"
    by (auto split: option.splits)
  from checkpoints_through_run [where I = "\<lambda>d. d = store_data queued_listing", OF store.redis_server_axioms r(1) [unfolded sample_checkpoint_run_def]] r(2)
  show ?thesis unfolding r(1) option.case by (simp add: calm_page_def)
qed

end
