(* ===== verification/Stop_Endpoint.thy ===== *)
theory Stop_Endpoint
  imports Startup_Correct
begin

text \<open>
  The \<open>/stop\<close> endpoint of \<open>src/internal/metrics/metrics.go\<close>, with what it uses of Go's \<open>net\<close> package: the
  textual forms of IPv4 and IPv6 addresses and the loopback test. The collectors and the \<open>/metrics\<close>
  handler are library code.
\<close>

section \<open>IP addresses\<close>

text \<open>A decimal field: digits without a leading zero, at most 255.\<close>

definition ipv4_field :: "string \<Rightarrow> nat option" where
  "ipv4_field s = (case parse_nat s of
     None \<Rightarrow> None
   | Some n \<Rightarrow> if n \<le> 255 \<and> (length s = 1 \<or> hd s \<noteq> CHR ''0'') then Some n else None)"

definition parseIPv4Fields :: "string \<Rightarrow> nat list option" where
  "parseIPv4Fields s =
     (let fields = map ipv4_field (split_on CHR ''.'' s)
      in if length fields = 4 then those fields else None)"

definition hex_val :: "string \<Rightarrow> nat" where
  "hex_val = foldl (\<lambda>acc c. 16 * acc + the (unhex c)) 0"

text \<open>
  The groups of an IPv6 address from the text \<open>s\<close>: \<open>ip\<close> are the bytes so far and \<open>ellipsis\<close> the place of
  \<open>::\<close>. The result are the bytes, the place of the ellipsis, and the text left over.
\<close>

function ipv6_groups :: "string \<Rightarrow> nat list \<Rightarrow> nat option \<Rightarrow> (nat list \<times> nat option \<times> string) option" where
  "ipv6_groups s ip ellipsis =
     (if length ip \<ge> 16 then Some (ip, ellipsis, s)
      else
        (let digits = takeWhile (\<lambda>c. unhex c \<noteq> None) s; rest = drop (length digits) s
         in if digits = [] \<or> length digits > 4 then None
            else if rest \<noteq> [] \<and> hd rest = CHR ''.'' then
              (if ellipsis = None \<and> length ip \<noteq> 12 \<or> length ip + 4 > 16 then None
               else case parseIPv4Fields s of None \<Rightarrow> None | Some v4 \<Rightarrow> Some (ip @ v4, ellipsis, []))
            else
              (let ip' = ip @ [hex_val digits div 256, hex_val digits mod 256]
               in case rest of
                    [] \<Rightarrow> Some (ip', ellipsis, [])
                  | c # after \<Rightarrow>
                      if c \<noteq> CHR '':'' \<or> after = [] then None
                      else if hd after = CHR '':'' then
                        (if ellipsis \<noteq> None then None
                         else if tl after = [] then Some (ip', Some (length ip'), [])
                         else ipv6_groups (tl after) ip' (Some (length ip')))
                      else ipv6_groups after ip' ellipsis)))"
  by auto
termination
  by (relation "measure (\<lambda>(s, ip, ellipsis). 16 - length ip)") (auto simp: Let_def)

declare ipv6_groups.simps [simp del]

definition parseIPv6 :: "string \<Rightarrow> nat list option" where
  "parseIPv6 s =
     (if s = ''::'' then Some (replicate 16 0)
      else case (if prefix ''::'' s then ipv6_groups (drop 2 s) [] (Some 0) else ipv6_groups s [] None) of
        None \<Rightarrow> None
      | Some (ip, ellipsis, rest) \<Rightarrow>
          if rest \<noteq> [] then None
          else (case ellipsis of
              None \<Rightarrow> if length ip < 16 then None else Some ip
            | Some e \<Rightarrow> if length ip < 16 then Some (take e ip @ replicate (16 - length ip) 0 @ drop e ip) else None))"

text \<open>\<open>net.ParseIP\<close>: sixteen bytes, an IPv4 address in its mapped form; an address with a zone is none.\<close>

definition ParseIP :: "string \<Rightarrow> nat list option" where
  "ParseIP s =
     (case dropWhile (\<lambda>c. c \<notin> set ''.:%'') s of
        [] \<Rightarrow> None
      | c # _ \<Rightarrow>
          if c = CHR ''.'' then map_option (\<lambda>v4. replicate 10 0 @ [255, 255] @ v4) (parseIPv4Fields s)
          else if c = CHR '':'' \<and> CHR ''%'' \<notin> set s then parseIPv6 s
          else None)"

definition IsLoopback :: "nat list \<Rightarrow> bool" where
  "IsLoopback ip \<longleftrightarrow>
     (if take 12 ip = replicate 10 0 @ [255, 255] then ip ! 12 = 127 else ip = replicate 15 0 @ [1])"

section \<open>The endpoint\<close>

definition isLoopback :: "string \<Rightarrow> bool" where
  "isLoopback addr =
     (let host = (case SplitHostPort addr of None \<Rightarrow> addr | Some (h, _) \<Rightarrow> h)
      in case ParseIP host of None \<Rightarrow> False | Some ip \<Rightarrow> IsLoopback ip)"

text \<open>The status of the answer, and whether the crawl is stopped.\<close>

definition stop_handler :: "string \<Rightarrow> string \<Rightarrow> int \<times> bool" where
  "stop_handler req_method remoteAddr =
     (if req_method \<noteq> ''POST'' then (405, False)
      else if \<not> isLoopback remoteAddr then (403, False)
      else (202, True))"

section \<open>Who can stop the crawler\<close>

definition dotted :: "nat \<Rightarrow> nat \<Rightarrow> nat \<Rightarrow> nat \<Rightarrow> string" where
  "dotted a b c d = show_nat a @ ''.'' @ show_nat b @ ''.'' @ show_nat c @ ''.'' @ show_nat d"

lemma ipv4_field_show: "n \<le> 255 \<Longrightarrow> ipv4_field (show_nat n) = Some n"
proof -
  have "length (show_nat n) = 1 \<or> hd (show_nat n) \<noteq> CHR ''0''"
    using trim_left_show_nat [of n] hd_dropWhile [of "\<lambda>x. x = CHR ''0''" "show_nat n"] by (cases "n = 0") (auto simp: trim_left_def)
  then show "n \<le> 255 \<Longrightarrow> ipv4_field (show_nat n) = Some n" by (simp add: ipv4_field_def)
qed

lemma no_dot [simp]: "CHR ''.'' \<notin> set (show_nat n)" "CHR '':'' \<notin> set (show_nat n)" "CHR ''['' \<notin> set (show_nat n)" "CHR '']'' \<notin> set (show_nat n)"
  "CHR ''%'' \<notin> set (show_nat n)"
  by (auto intro!: show_nat_no simp: digit_val_def Let_def)

lemma ParseIP_dotted:
  assumes "a \<le> 255" "b \<le> 255" "c \<le> 255" "d \<le> 255"
  shows "ParseIP (dotted a b c d) = Some (replicate 10 0 @ [255, 255, a, b, c, d])"
proof -
  have "dropWhile (\<lambda>x. x \<notin> set ''.:%'') (show_nat n @ CHR ''.'' # s) = CHR ''.'' # s" for n s
    by (subst dropWhile_append2) auto
  moreover have "parseIPv4Fields (dotted a b c d) = Some [a, b, c, d]"
    using assms by (simp add: parseIPv4Fields_def dotted_def split_on_append split_on_no ipv4_field_show)
  ultimately show ?thesis by (simp add: ParseIP_def dotted_def)
qed

lemma parseIPv4Fields_length: "parseIPv4Fields s = Some v \<Longrightarrow> length v = 4"
  by (auto simp: parseIPv4Fields_def Let_def split: if_splits dest: those_length)

lemma ipv6_groups_length:
  "ipv6_groups s ip e = Some (ip', e', r) \<Longrightarrow> even (length ip) \<Longrightarrow> length ip \<le> 16 \<Longrightarrow> (\<forall>k. e = Some k \<longrightarrow> k \<le> length ip) \<Longrightarrow>
     length ip' \<le> 16 \<and> (\<forall>k. e' = Some k \<longrightarrow> k \<le> length ip')"
proof (induction "16 - length ip" arbitrary: s ip e rule: less_induct)
  case less
  show ?case
  proof (cases "length ip \<ge> 16")
    case False
    then have short: "length ip \<le> 14" using less.prems(2) by presburger
    have rec: "length ip' \<le> 16 \<and> (\<forall>k. e' = Some k \<longrightarrow> k \<le> length ip')"
      if "ipv6_groups t (ip @ [x, y]) f = Some (ip', e', r)" "\<forall>k. f = Some k \<longrightarrow> k \<le> length ip + 2" for t x y f
      using less.hyps [of "ip @ [x, y]" t f] that short less.prems(2) by simp
    define digits where "digits = takeWhile (\<lambda>c. unhex c \<noteq> None) s"
    define x y where "x = hex_val digits div 256" and "y = hex_val digits mod 256"
    have old: "\<forall>k. e = Some k \<longrightarrow> k \<le> length ip + 2" using less.prems(4) by auto
    have new: "\<forall>k. Some (length ip + 2) = Some k \<longrightarrow> k \<le> length ip + 2" by simp
    note step = less.prems(1) [unfolded ipv6_groups.simps [of s ip e] Let_def, folded digits_def, folded x_def y_def]
    show ?thesis
    proof (cases "drop (length digits) s \<noteq> [] \<and> hd (drop (length digits) s) = CHR ''.''")
      case True
      with step False short less.prems(4) show ?thesis
        by (auto split: if_splits option.splits dest!: parseIPv4Fields_length)
    next
      case no_dot: False
      show ?thesis
      proof (cases "drop (length digits) s")
        case Nil
        with step False no_dot short less.prems(4) show ?thesis by (auto split: if_splits)
      next
        case (Cons c after)
        with step False no_dot short rec [OF _ old] rec [OF _ new] show ?thesis
          by (auto split: if_splits)
      qed
    qed
  qed (use less.prems in \<open>simp add: ipv6_groups.simps\<close>)
qed

lemma ParseIP_length: "ParseIP s = Some ip \<Longrightarrow> length ip = 16"
proof -
  have "length ip = 16" if "parseIPv6 s = Some ip"
    using that by (auto simp: parseIPv6_def split: if_splits option.splits dest!: ipv6_groups_length)
  then show "ParseIP s = Some ip \<Longrightarrow> length ip = 16"
    by (auto simp: ParseIP_def split: list.splits if_splits dest!: parseIPv4Fields_length)
qed

lemma SplitHostPort_plain:
  assumes "set host \<inter> set ''[]:'' = {}" "set port \<inter> set ''[]:'' = {}"
  shows "SplitHostPort (host @ CHR '':'' # port) = Some (host, port)"
proof -
  have "cut_last CHR '':'' (host @ CHR '':'' # port) = Some (host, port)"
    using assms(2) cut_append [of "CHR '':''" "rev port" "rev host"] by (simp add: cut_last_def)
  moreover have "\<not> prefix ''['' (host @ CHR '':'' # port)" using assms(1) by (cases host) auto
  ultimately show ?thesis using assms by (auto simp: SplitHostPort_def)
qed

text \<open>C21: Only the local host can stop the crawl. A POST to /stop from an IPv4 address is accepted exactly
  when the address is in 127.0.0.0/8; every other request is refused and stops nothing, and so is every
  request whose remote address is not an IP address.\<close>

theorem stop_only_from_loopback:
  "(\<forall>a \<le> 255. \<forall>b \<le> 255. \<forall>c \<le> 255. \<forall>d \<le> 255. \<forall>port.
      stop_handler m (dotted a b c d @ CHR '':'' # show_nat port) =
        (if m \<noteq> ''POST'' then (405, False) else if a = 127 then (202, True) else (403, False))) \<and>
   (snd (stop_handler m addr) \<longrightarrow> m = ''POST'' \<and> (\<exists>host ip. (host = addr \<or> (\<exists>port. SplitHostPort addr = Some (host, port))) \<and>
      ParseIP host = Some ip \<and> (take 13 ip = replicate 10 0 @ [255, 255, 127] \<or> ip = replicate 15 0 @ [1])))"
proof (intro conjI allI impI)
  fix a b c d port :: nat
  assume le: "a \<le> 255" "b \<le> 255" "c \<le> 255" "d \<le> 255"
  have "SplitHostPort (dotted a b c d @ CHR '':'' # show_nat port) = Some (dotted a b c d, show_nat port)"
    by (rule SplitHostPort_plain) (auto simp: dotted_def)
  then have "isLoopback (dotted a b c d @ CHR '':'' # show_nat port) \<longleftrightarrow> a = 127"
    by (simp add: isLoopback_def ParseIP_dotted [OF le] IsLoopback_def numeral_eq_Suc)
  then show "stop_handler m (dotted a b c d @ CHR '':'' # show_nat port) =
      (if m \<noteq> ''POST'' then (405, False) else if a = 127 then (202, True) else (403, False))"
    by (simp add: stop_handler_def)
next
  assume s: "snd (stop_handler m addr)"
  then show "m = ''POST''" by (auto simp: stop_handler_def split: if_splits)
  from s have l: "isLoopback addr" by (auto simp: stop_handler_def split: if_splits)
  define host where "host = (case SplitHostPort addr of None \<Rightarrow> addr | Some (h, _) \<Rightarrow> h)"
  with l obtain ip where ip: "ParseIP host = Some ip" "IsLoopback ip"
    by (auto simp: isLoopback_def Let_def split: option.splits)
  have "host = addr \<or> (\<exists>port. SplitHostPort addr = Some (host, port))"
    unfolding host_def by (auto split: option.splits)
  moreover have "take 13 ip = replicate 10 0 @ [255, 255, 127] \<or> ip = replicate 15 0 @ [1]"
    using ip(2) ParseIP_length [OF ip(1)] by (auto simp: IsLoopback_def take_Suc_conv_app_nth [of 12 ip, simplified] split: if_splits)
  ultimately show "\<exists>host ip. (host = addr \<or> (\<exists>port. SplitHostPort addr = Some (host, port))) \<and>
      ParseIP host = Some ip \<and> (take 13 ip = replicate 10 0 @ [255, 255, 127] \<or> ip = replicate 15 0 @ [1])"
    using ip(1) by blast
qed

theorem stop_only_from_loopback_witness:
  "stop_handler ''POST'' (dotted 127 0 0 1 @ CHR '':'' # show_nat 5000) = (202, True) \<and>
   stop_handler ''POST'' (dotted 10 0 0 7 @ CHR '':'' # show_nat 5000) = (403, False) \<and>
   stop_handler ''POST'' ''[::1]:5000'' = (202, True) \<and> stop_handler ''POST'' ''[::ffff:127.0.0.1]:5000'' = (202, True) \<and>
   stop_handler ''POST'' ''[fe80::1%eth0]:5000'' = (403, False) \<and>
   (\<exists>host ip. ParseIP host = Some ip \<and> (take 13 ip = replicate 10 0 @ [255, 255, 127] \<or> ip = replicate 15 0 @ [1]))"
proof (intro conjI)
  show six: "stop_handler ''POST'' ''[::1]:5000'' = (202, True)" "stop_handler ''POST'' ''[::ffff:127.0.0.1]:5000'' = (202, True)"
    "stop_handler ''POST'' ''[fe80::1%eth0]:5000'' = (403, False)"
    by code_simp+
  note four = conjunct1 [OF stop_only_from_loopback [of "''POST''" "''[::1]:5000''"], rule_format]
  show "stop_handler ''POST'' (dotted 127 0 0 1 @ CHR '':'' # show_nat 5000) = (202, True)"
    by (subst four) simp_all
  show "stop_handler ''POST'' (dotted 10 0 0 7 @ CHR '':'' # show_nat 5000) = (403, False)"
    by (subst four) simp_all
  show "\<exists>host ip. ParseIP host = Some ip \<and> (take 13 ip = replicate 10 0 @ [255, 255, 127] \<or> ip = replicate 15 0 @ [1])"
    using stop_only_from_loopback [of "''POST''" "''[::1]:5000''"] six(1) by auto
qed

end
