(* ===== verification/Http_Client.thy ===== *)
theory Http_Client
  imports Worker_Canonical Worker_Pages Test_Mode Stop_Endpoint
begin

text \<open>
  The HTTP client of \<open>src/internal/auth/login.go\<close>, the login, the proxy each worker gets
  (\<open>Run\<close> and \<open>workerTest\<close> of \<open>src/internal/crawler/worker.go\<close>), and the login experiment of
  \<open>src/test/multi-login.go\<close>. What \<open>net/http\<close> does with a request is modelled as far as the program uses it:
  redirects are followed as the client's hook decides, cookies go to the shared jar, and a proxy
  function that yields no URL means a direct connection. What the servers answer is an argument.
\<close>

section \<open>Clients\<close>

definition fetchTimeout :: duration where "fetchTimeout = 30 * second"

text \<open>\<open>Proxy\<close>: no function, or one that returns a fixed URL, which may be nil. The jar is a handle.\<close>

record Client =
  Jar :: nat
  Proxy :: "URLrec option option"
  Timeout :: duration

definition NewClient :: "net_url \<Rightarrow> nat \<Rightarrow> string \<Rightarrow> Client" where
  "NewClient net jar proxyURL =
     \<lparr>Jar = jar, Proxy = (if proxyURL \<noteq> [] then Some (url_Parse net proxyURL) else None), Timeout = fetchTimeout\<rparr>"

type_synonym cookies = "(string \<times> string) list"
type_synonym jars = "nat \<Rightarrow> cookies option"

text \<open>\<open>NewJar\<close>: a fresh, empty jar.\<close>

definition NewJar :: "nat \<Rightarrow> jars \<Rightarrow> jars" where
  "NewJar h js = js(h \<mapsto> [])"

text \<open>The proxy a request goes through; \<open>None\<close> is a direct connection.\<close>

definition connects_via :: "Client \<Rightarrow> URLrec option" where
  "connects_via c = Option.bind (Proxy c) (\<lambda>u. u)"

definition proxy_for :: "Config \<Rightarrow> nat \<Rightarrow> string" where
  "proxy_for cfg i = (if i < length (StaticProxyURLs cfg) then StaticProxyURLs cfg ! i else [])"

definition route :: "nat \<Rightarrow> string \<Rightarrow> string" where
  "route workerID proxyURL = (if proxyURL \<noteq> [] then ''proxy_slot_'' @ show_nat workerID else ''direct'')"

text \<open>\<open>workerTest\<close>: the proxy it is given, and the bounded loop.\<close>

definition workerTest :: "'s frontier_methods \<Rightarrow> net_url \<Rightarrow> 'm upsert \<Rightarrow> (int \<Rightarrow> bool) \<Rightarrow> Config \<Rightarrow> nat \<Rightarrow> turn list \<Rightarrow>
    workerFailures \<times> ('s, 'm) world \<Rightarrow> string \<times> workerFailures \<times> ('s, 'm) world" where
  "workerTest F net ups isLetter cfg workerID ts x =
     (proxy_for cfg workerID, workerLoop F net ups isLetter cfg maxTestVideos ts x)"

section \<open>Requests\<close>

record request =
  verb :: string
  target :: string
  header :: "(string \<times> string) list"
  form :: "(string \<times> string) list"

text \<open>A reply: status line and code, the redirect target after resolution, the cookies, the parsed page.\<close>

record reply_http =
  Status :: string
  code :: int
  location :: "string option"
  setCookies :: "string list"
  page :: "document option"

datatype hop = Follow | UseLastResponse | Refuse go_error

type_synonym policy = "string \<Rightarrow> string list \<Rightarrow> hop"

text \<open>The redirect that a reply asks for; the body of a form is kept only by 307 and 308.\<close>

definition redirect_of :: "net_url \<Rightarrow> request \<Rightarrow> reply_http \<Rightarrow> (go_error + request) option" where
  "redirect_of net req r =
     (if code r \<in> {301, 302, 303, 307, 308}
      then (case location r of
          None \<Rightarrow> None
        | Some l \<Rightarrow> (case url_Parse net l of
            None \<Rightarrow> Some (Inl (OtherErr ''failed to parse Location header''))
          | Some u \<Rightarrow> Some (Inr (if code r \<in> {307, 308} then req\<lparr>target := l\<rparr>
              else req\<lparr>target := l, verb := ''GET'', form := []\<rparr>))))
      else None)"

text \<open>
  \<open>Client.Do\<close> with a bound on the requests: the result (\<open>None\<close> when the bound is used up), the requests
  sent, and the jars. The \<open>i\<close>-th request is answered by \<open>srvs i\<close>.
\<close>

fun exchange :: "nat \<Rightarrow> net_url \<Rightarrow> policy \<Rightarrow> nat \<Rightarrow> (nat \<Rightarrow> go_error + reply_http) \<Rightarrow> request list \<Rightarrow> request \<Rightarrow> jars \<Rightarrow>
    (go_error + request \<times> reply_http) option \<times> request list \<times> jars" where
  "exchange 0 net pol jar srvs past req js = (None, past, js)"
| "exchange (Suc k) net pol jar srvs past req js =
     (let past' = past @ [req] in
      case srvs (length past) of
        Inl err \<Rightarrow> (Some (Inl err), past', js)
      | Inr r \<Rightarrow>
          (let js' = js(jar := map_option (\<lambda>cs. cs @ map (Pair (target req)) (setCookies r)) (js jar))
           in case redirect_of net req r of
                None \<Rightarrow> (Some (Inr (req, r)), past', js')
              | Some (Inl err) \<Rightarrow> (Some (Inl err), past', js')
              | Some (Inr req') \<Rightarrow>
                  (case pol (target req') (map target past') of
                     Follow \<Rightarrow> exchange k net pol jar srvs past' req' js'
                   | UseLastResponse \<Rightarrow> (Some (Inr (req, r)), past', js')
                   | Refuse err \<Rightarrow> (Some (Inl err), past', js'))))"

definition default_policy :: policy where
  "default_policy u prior = (if length prior \<ge> 10 then Refuse (OtherErr ''stopped after 10 redirects'') else Follow)"

definition worker_policy :: "net_url \<Rightarrow> Config \<Rightarrow> policy" where
  "worker_policy net cfg u prior = (if CheckRedirect net cfg u prior = Some True then Follow else UseLastResponse)"

definition maxRequests :: nat where "maxRequests = 11"

definition browser_headers :: "(string \<times> string) list" where
  "browser_headers =
     [(''User-Agent'', ''Mozilla/5.0 (Windows NT 10.0; Win64; x64) AppleWebKit/537.36 Chrome/120 Safari/537.36''),
      (''Accept'', ''text/html,application/xhtml+xml,application/xml;q=0.9,*/*;q=0.8''),
      (''Accept-Language'', ''en-US,en;q=0.5'')]"

text \<open>A request is built only for a URL that parses.\<close>

definition Get :: "net_url \<Rightarrow> policy \<Rightarrow> Client \<Rightarrow> (nat \<Rightarrow> go_error + reply_http) \<Rightarrow> string \<Rightarrow> jars \<Rightarrow>
    (go_error + request \<times> reply_http) option \<times> request list \<times> jars" where
  "Get net pol c srvs u js = (case url_Parse net u of
     None \<Rightarrow> (Some (Inl (OtherErr ''parse'')), [], js)
   | Some _ \<Rightarrow> exchange maxRequests net pol (Jar c) srvs [] \<lparr>verb = ''GET'', target = u, header = browser_headers, form = []\<rparr> js)"

definition PostForm :: "net_url \<Rightarrow> Client \<Rightarrow> (nat \<Rightarrow> go_error + reply_http) \<Rightarrow> string \<Rightarrow> (string \<times> string) list \<Rightarrow> jars \<Rightarrow>
    (go_error + request \<times> reply_http) option \<times> request list \<times> jars" where
  "PostForm net c srvs u vals js = (case url_Parse net u of
     None \<Rightarrow> (Some (Inl (OtherErr ''parse'')), [], js)
   | Some _ \<Rightarrow> exchange maxRequests net default_policy (Jar c) srvs []
       \<lparr>verb = ''POST'', target = u, header = [(''Content-Type'', ''application/x-www-form-urlencoded'')], form = vals\<rparr> js)"

text \<open>The error of a login, if any.\<close>

definition client_Login :: "net_url \<Rightarrow> Client \<Rightarrow> (nat \<Rightarrow> go_error + reply_http) \<Rightarrow> string \<Rightarrow> string \<Rightarrow> string \<Rightarrow> jars \<Rightarrow>
    go_error option option \<times> request list \<times> jars" where
  "client_Login net c srvs loginURL username password js =
     (case PostForm net c srvs loginURL [(''username'', username), (''password'', password), (''submit_login'', ''Sign In'')] js of
        (res, past, js') \<Rightarrow> (map_option (\<lambda>x. case x of
            Inl err \<Rightarrow> Some err
          | Inr (req, r) \<Rightarrow> if code r \<noteq> 200 then Some (OtherErr (''login error: '' @ Status r)) else None) res, past, js'))"

definition crawler_Login :: "net_url \<Rightarrow> Config \<Rightarrow> nat \<Rightarrow> (nat \<Rightarrow> go_error + reply_http) \<Rightarrow> jars \<Rightarrow> go_error option option \<times> request list \<times> jars" where
  "crawler_Login net cfg jar srvs js =
     client_Login net (NewClient net jar []) srvs (LoginURL cfg) (Username cfg) (Password cfg) js"

text \<open>What \<open>process\<close> reads off the final response of a fetch.\<close>

definition response_of :: "net_url \<Rightarrow> request \<times> reply_http \<Rightarrow> response" where
  "response_of net x = (case x of (req, r) \<Rightarrow>
     \<lparr>StatusCode = code r,
      Location = Option.bind (location r) (\<lambda>l. map_option (\<lambda>u. (Scheme u, Host u, Path u)) (url_Parse net l)),
      req_scheme = (case url_Parse net (target req) of Some u \<Rightarrow> Scheme u | None \<Rightarrow> []),
      req_host = (case url_Parse net (target req) of Some u \<Rightarrow> Host u | None \<Rightarrow> []),
      body = page r\<rparr>)"

definition worker_fetch :: "net_url \<Rightarrow> Config \<Rightarrow> Client \<Rightarrow> (nat \<Rightarrow> go_error + reply_http) \<Rightarrow> string \<Rightarrow> jars \<Rightarrow> fetch option \<times> request list \<times> jars" where
  "worker_fetch net cfg c srvs u js =
     (case Get net (worker_policy net cfg) c srvs u js of
        (res, past, js') \<Rightarrow> (map_option (\<lambda>x. case x of Inl err \<Rightarrow> None | Inr y \<Rightarrow> Some (response_of net y)) res, past, js'))"

section \<open>The login experiment\<close>

text \<open>\<open>Panic\<close>: the status of the missing response is printed.\<close>

datatype trial = Panic string | LoginFailed int | Fetched "(go_error + int) list"

definition multi_login :: "(go_error + int) \<Rightarrow> (nat \<Rightarrow> go_error + int) \<Rightarrow> trial" where
  "multi_login login gets = (case login of
     Inl err \<Rightarrow> Panic ''nil pointer dereference''
   | Inr status \<Rightarrow> if status \<noteq> 200 then LoginFailed status else Fetched (map gets [0..<5]))"

section \<open>A fetch ends and stays on the site\<close>

lemma exchange_stays:
  assumes pol: "\<And>u us. pol u (u0 # us) = Follow \<Longrightarrow> ok u \<and> length us < 9"
    and "map target (past @ [req]) = u0 # us" "\<forall>u \<in> set us. ok u" "length us < 10" "k + length past = 11"
    and "exchange k net pol jar srvs past req js = (res, past', js')"
  shows "res \<noteq> None \<and> (\<exists>vs. map target past' = u0 # vs \<and> length vs < 10 \<and> (\<forall>u \<in> set vs. ok u))"
  using assms(2-)
proof (induction k arbitrary: past req us js)
  case 0
  then show ?case using arg_cong [OF 0(1), of length] by simp
next
  case (Suc k)
  have stop: ?case if "res \<noteq> None" "past' = past @ [req]" using that Suc.prems(1-3) by auto
  show ?case
  proof (cases "srvs (length past)")
    case (Inl err)
    then show ?thesis using Suc.prems(5) by (intro stop) (auto simp: Let_def)
  next
    case (Inr r)
    let ?js = "js(jar := map_option (\<lambda>cs. cs @ map (Pair (target req)) (setCookies r)) (js jar))"
    show ?thesis
    proof (cases "\<exists>req'. redirect_of net req r = Some (Inr req') \<and> pol (target req') (map target (past @ [req])) = Follow")
      case True
      then obtain req' where r: "redirect_of net req r = Some (Inr req')" "pol (target req') (u0 # us) = Follow"
        using Suc.prems(1) by auto
      have eq: "exchange k net pol jar srvs (past @ [req]) req' ?js = (res, past', js')"
        using Suc.prems(1,5) Inr r by (simp add: Let_def)
      have ok: "ok (target req')" "length us < 9" using pol [OF r(2)] by auto
      have "map target ((past @ [req]) @ [req']) = u0 # (us @ [target req'])" using Suc.prems(1) by simp
      from Suc.IH [OF this _ _ _ eq] show ?thesis using ok Suc.prems(2,4) by auto
    next
      case False
      then show ?thesis using Suc.prems(5) Inr
        by (intro stop) (auto simp: Let_def split: option.splits sum.splits hop.splits)
    qed
  qed
qed

lemma worker_policy_follow:
  "worker_policy net cfg u (v # us) = Follow \<Longrightarrow>
   (canonicalize net cfg u \<noteq> [] \<and> (str_contains (canonicalize net cfg v) (VideoPattern cfg) \<longrightarrow>
      canonicalize net cfg u = canonicalize net cfg v)) \<and> length us < 9"
  by (auto simp: worker_policy_def CheckRedirect_def Let_def split: if_splits)

text \<open>C26: A fetch always ends, after at most ten requests, whatever the servers answer. Every request after the first
  goes to a URL that the crawler would admit itself, on the base site, and while a video page is fetched
  only to URLs with the canonical form of that page.\<close>

theorem fetch_stays:
  "\<exists>f past js'. worker_fetch net cfg c srvs u js = (Some f, past, js') \<and> length past \<le> 10 \<and>
     (\<forall>r \<in> set (tl past). canonicalize net cfg (target r) \<noteq> [] \<and>
        (str_contains (canonicalize net cfg u) (VideoPattern cfg) \<longrightarrow> canonicalize net cfg (target r) = canonicalize net cfg u))"
proof (cases "url_Parse net u")
  case None
  then show ?thesis by (simp add: worker_fetch_def Get_def)
next
  case (Some p)
  let ?ok = "\<lambda>v. canonicalize net cfg v \<noteq> [] \<and> (str_contains (canonicalize net cfg u) (VideoPattern cfg) \<longrightarrow>
      canonicalize net cfg v = canonicalize net cfg u)"
  let ?req = "\<lparr>verb = ''GET'', target = u, header = browser_headers, form = []\<rparr>"
  obtain res past js' where e: "exchange maxRequests net (worker_policy net cfg) (Jar c) srvs [] ?req js = (res, past, js')"
    by (metis prod_cases3)
  have "res \<noteq> None \<and> (\<exists>vs. map target past = u # vs \<and> length vs < 10 \<and> (\<forall>u \<in> set vs. ?ok u))"
    by (rule exchange_stays [where us = "[]", OF worker_policy_follow _ _ _ _ e]) (auto simp: maxRequests_def)
  then obtain x vs where "res = Some x" "map target past = u # vs" "length vs < 10" "\<forall>u \<in> set vs. ?ok u" by auto
  note x = this
  have "map target (tl past) = vs" "length past = Suc (length vs)"
    using x(2) by (simp add: map_tl, metis length_Cons length_map)
  then have "length past \<le> 10" "\<forall>r \<in> set (tl past). ?ok (target r)" using x(3,4) by auto
  moreover have "worker_fetch net cfg c srvs u js = (Some (case x of Inl err \<Rightarrow> None | Inr y \<Rightarrow> Some (response_of net y)), past, js')"
    using e Some x(1) by (simp add: worker_fetch_def Get_def)
  ultimately show ?thesis by blast
qed

text \<open>A video page that moved, and a server that then redirects elsewhere.\<close>

definition moved :: "string \<Rightarrow> reply_http" where
  "moved l = \<lparr>Status = ''302 Found'', code = 302, location = Some l, setCookies = [], page = None\<rparr>"

theorem fetch_stays_witness:
  "let net = go_url (\<lambda>_. None); cfg = Load (\<lambda>_. []); u = ''https://www.vidlii.com/watch?v=a'';
       x = worker_fetch net cfg (NewClient net 0 []) (\<lambda>i. Inr (moved
             (if i = 0 then ''https://www.vidlii.com/watch/?x=1&v=a'' else ''https://www.vidlii.com/videos''))) u (\<lambda>_. None)
   in (\<exists>f past js'. x = (Some f, past, js') \<and> length past \<le> 10 \<and>
        (\<forall>r \<in> set (tl past). canonicalize net cfg (target r) \<noteq> [] \<and>
           (str_contains (canonicalize net cfg u) (VideoPattern cfg) \<longrightarrow>
              canonicalize net cfg (target r) = canonicalize net cfg u))) \<and>
      map target (fst (snd x)) = [u, ''https://www.vidlii.com/watch/?x=1&v=a''] \<and>
      str_contains (canonicalize net cfg u) (VideoPattern cfg)"
  unfolding Let_def
proof (intro conjI)
  show "map target (fst (snd (worker_fetch (go_url (\<lambda>_. None)) (Load (\<lambda>_. [])) (NewClient (go_url (\<lambda>_. None)) 0 [])
      (\<lambda>i. Inr (moved (if i = 0 then ''https://www.vidlii.com/watch/?x=1&v=a'' else ''https://www.vidlii.com/videos'')))
      ''https://www.vidlii.com/watch?v=a'' (\<lambda>_. None)))) = [''https://www.vidlii.com/watch?v=a'', ''https://www.vidlii.com/watch/?x=1&v=a'']"
    by code_simp
  show "str_contains (canonicalize (go_url (\<lambda>_. None)) (Load (\<lambda>_. [])) ''https://www.vidlii.com/watch?v=a'') (VideoPattern (Load (\<lambda>_. [])))"
    by code_simp
qed (rule fetch_stays)

section \<open>Proxies\<close>

lemma scheme_less:
  assumes "digit_byte c" "CHR '':'' \<in> set cs" "set (c # cs) \<inter> set ''/?#'' = {}"
  shows "go_Parse ip (c # cs) = None"
proof -
  have "scheme_from [] (c # cs) = None"
    using assms(1) by (auto simp: letter_byte_def digit_byte_def Let_def)
  then have g: "getScheme (c # cs) = Some ([], c # cs)" by (simp add: getScheme_def)
  have n: "CHR ''/'' \<notin> set (c # cs)" "CHR ''?'' \<notin> set (c # cs)" "CHR ''#'' \<notin> set (c # cs)" using assms(3) by auto
  have "parse_rest ip (c # cs) u = None" if "Scheme u = []" for u
    using that n(1) assms(2) Cut_missing [OF n(1)] by (simp add: parse_rest_def)
  moreover have "\<not> suffix ''?'' (c # cs)" using n(2) set_mono_suffix [of "''?''" "c # cs"] by auto
  moreover have "c # cs \<noteq> ''*''" using assms(2) by auto
  ultimately have "parse_url ip (c # cs) = None"
    using g Cut_missing [OF n(2)] by (auto simp: parse_url_def to_lower_def no_url_def)
  then show ?thesis using Cut_missing [OF n(3)] by (simp add: go_Parse_def)
qed

definition host_port :: "nat \<times> nat \<times> nat \<times> nat \<times> nat \<Rightarrow> string" where
  "host_port x = (case x of (a, b, c, d, port) \<Rightarrow> dotted a b c d @ CHR '':'' # show_nat port)"

lemma digit_val_byte: "digit_val c \<noteq> None \<Longrightarrow> digit_byte c \<and> byte c < 128 \<and> \<not> isSpace (byte c)"
proof -
  have "byte c = int (of_char c)" using of_nat_of_char [of c, where 'a = int] by (simp add: byte_def)
  then show "digit_val c \<noteq> None \<Longrightarrow> digit_byte c \<and> byte c < 128 \<and> \<not> isSpace (byte c)"
    by (auto simp: digit_val_def digit_byte_def isSpace_def Let_def split: if_splits)
qed

lemma host_port_chars: "c \<in> set (host_port x) \<Longrightarrow> digit_val c \<noteq> None \<or> c = CHR ''.'' \<or> c = CHR '':''"
  by (auto simp: host_port_def dotted_def dest: show_nat_digits split: prod.splits)

lemma TrimSpace_host_port: "TrimSpace (host_port x) = host_port x"
proof (rule TrimSpace_id, rule ballI)
  fix c assume "c \<in> set (host_port x)"
  then show "byte c < 128 \<and> \<not> isSpace (byte c)"
    using host_port_chars [of c x] digit_val_byte [of c] by (auto simp: byte_def isSpace_def)
qed

lemma host_port_unparsed: "go_Parse ip (host_port x) = None"
proof -
  obtain a b c d p where x: "x = (a, b, c, d, p)" by (metis prod_cases5)
  obtain z zs where z: "show_nat a = z # zs" by (meson list.exhaust show_nat_nonempty)
  then obtain cs where cs: "host_port x = z # cs" by (simp add: x host_port_def dotted_def)
  have "digit_byte z" using show_nat_digits [of z a] z digit_val_byte by simp
  moreover have "CHR '':'' \<in> set cs" using cs z \<open>digit_byte z\<close> by (auto simp: x host_port_def dotted_def digit_byte_def)
  moreover have "set (z # cs) \<inter> set ''/?#'' = {}"
    using host_port_chars [of "CHR ''/''" x] host_port_chars [of "CHR ''?''" x] host_port_chars [of "CHR ''#''" x]
    unfolding cs [symmetric] by (auto simp: digit_val_def Let_def)
  ultimately show ?thesis unfolding cs by (rule scheme_less)
qed

text \<open>C27: A proxy configured as an IPv4 address and a port, without a scheme, is dropped without a word: the URL does not
  parse, the client connects directly, and the log still names the proxy slot. The checks of a test
  run, which insist on a proxy for every worker, pass.\<close>

theorem scheme_less_proxies_ignored:
  assumes "StaticProxyURLs cfg = map host_port hosts" "Workers cfg \<le> int (length hosts)"
    and "2 \<le> Workers cfg" "30 * second \<le> RateLimit cfg"
  shows "test_guard cfg = None \<and>
    (\<forall>i < nat (Workers cfg). connects_via (NewClient (go_url ip) jar (proxy_for cfg i)) = None \<and>
       route i (proxy_for cfg i) = ''proxy_slot_'' @ show_nat i)"
proof -
  have p: "proxy_for cfg i = host_port (hosts ! i)" "host_port (hosts ! i) \<noteq> []" "i < length hosts" if "i < nat (Workers cfg)" for i
    using that assms(1,2) by (auto simp: proxy_for_def host_port_def dotted_def split: prod.splits)
  have "missing_proxy cfg = None"
    using p assms(1,2) by (auto simp: missing_proxy_def find_None_iff TrimSpace_host_port)
  then show ?thesis using assms(3,4) p host_port_unparsed
    by (auto simp: test_guard_def NewClient_def connects_via_def route_def go_url_def)
qed

theorem scheme_less_proxies_ignored_witness:
  "let cfg = (LoadTest (\<lambda>k. if k = ''STATIC_PROXY_URLS'' then ''10.0.0.1:8080,10.0.0.2:8080'' else []))\<lparr>Workers := 2\<rparr>
   in test_guard cfg = None \<and> connects_via (NewClient (go_url (\<lambda>_. None)) 0 (proxy_for cfg 1)) = None \<and>
      route 1 (proxy_for cfg 1) = ''proxy_slot_1'' \<and> proxy_for cfg 1 = ''10.0.0.2:8080''"
proof -
  let ?cfg = "(LoadTest (\<lambda>k. if k = ''STATIC_PROXY_URLS'' then ''10.0.0.1:8080,10.0.0.2:8080'' else []))\<lparr>Workers := 2\<rparr>"
  let ?hosts = "[(10, 0, 0, 1, 8080), (10, 0, 0, 2, 8080)]"
  have "StaticProxyURLs ?cfg = map host_port ?hosts" by code_simp
  moreover have "Workers ?cfg \<le> int (length ?hosts)" "2 \<le> Workers ?cfg" "30 * second \<le> RateLimit ?cfg" by code_simp+
  ultimately have "test_guard ?cfg = None \<and> (\<forall>i < nat (Workers ?cfg). connects_via (NewClient (go_url (\<lambda>_. None)) 0 (proxy_for ?cfg i)) = None \<and>
       route i (proxy_for ?cfg i) = ''proxy_slot_'' @ show_nat i)" by (rule scheme_less_proxies_ignored)
  note * = this
  have "1 < nat (Workers ?cfg)" "proxy_for ?cfg 1 = ''10.0.0.2:8080''" by code_simp+
  then show ?thesis using * unfolding Let_def by (metis append_Cons append_Nil show_nat_small(3))
qed

section \<open>The login\<close>

text \<open>A login succeeds exactly on a final 200; its cookies are in the jar that every worker's client uses.\<close>

lemma exchange_keeps_jar:
  "exchange k net pol jar srvs past req js = (res, past', js') \<Longrightarrow> js jar = Some cs \<Longrightarrow> \<exists>new. js' jar = Some (cs @ new)"
  by (induction k arbitrary: past req js cs) (fastforce simp: Let_def split: sum.splits option.splits hop.splits)+

lemma crawler_Login_ok:
  assumes "crawler_Login net cfg jar srvs js = (Some None, past, js')"
  shows "\<exists>req r. code r = 200 \<and> fst (PostForm net (NewClient net jar []) srvs (LoginURL cfg)
      [(''username'', Username cfg), (''password'', Password cfg), (''submit_login'', ''Sign In'')] js) = Some (Inr (req, r))"
proof -
  obtain res q ks where p: "PostForm net (NewClient net jar []) srvs (LoginURL cfg)
      [(''username'', Username cfg), (''password'', Password cfg), (''submit_login'', ''Sign In'')] js = (res, q, ks)"
    by (metis prod_cases3)
  then show ?thesis using assms
    by (cases res; cases "the res") (auto simp: crawler_Login_def client_Login_def split: if_splits)
qed

end
