(* ===== verification/Video_Store.thy ===== *)
theory Video_Store
  imports Worker_Correct Startup "HOL-Library.AList"
begin

text \<open>
  The collection of videos: the operations of \<open>src/internal/storage/mongo.go\<close> on it, \<open>Clear\<close> and \<open>SaveTest\<close> of
  \<open>src/internal/crawler/crawler.go\<close>, and how the counters of the crawler follow its contents. The Mongo
  driver is a record of the four calls that are used; the locale \<open>video_collection\<close> states what its
  documentation promises, and is proved for a collection that fails and loses replies as planned.
\<close>

section \<open>Operations\<close>

text \<open>
  \<open>ReplaceOne\<close> with upsert, by the value of \<open>_id\<close>; \<open>Find\<close> with what \<open>cursor.All\<close> then delivers: the documents
  decoded and the error that ended it.
\<close>

record 'm driver =
  ReplaceOne :: "url \<Rightarrow> Video \<Rightarrow> 'm \<Rightarrow> (go_error + unit) \<times> 'm"
  Find :: "(Video \<Rightarrow> bool) \<Rightarrow> 'm \<Rightarrow> go_error + Video list \<times> go_error option"
  CountDocuments :: "'m \<Rightarrow> go_error + int"
  DropAll :: "'m \<Rightarrow> go_error option \<times> 'm"

definition Upsert :: "'m driver \<Rightarrow> Video \<Rightarrow> 'm \<Rightarrow> (go_error + unit) \<times> 'm" where
  "Upsert D v m = ReplaceOne D (vURL v) v m"

definition find_videos :: "'m driver \<Rightarrow> (Video \<Rightarrow> bool) \<Rightarrow> 'm \<Rightarrow> Video list \<times> go_error option" where
  "find_videos D flt m = (case Find D flt m of Inl err \<Rightarrow> ([], Some err) | Inr (videos, err) \<Rightarrow> (videos, err))"

definition FindAll :: "'m driver \<Rightarrow> 'm \<Rightarrow> Video list \<times> go_error option" where
  "FindAll D m = find_videos D (\<lambda>_. True) m"

definition FindTargets :: "'m driver \<Rightarrow> 'm \<Rightarrow> Video list \<times> go_error option" where
  "FindTargets D m = find_videos D IsTarget m"

definition mongo_Count :: "'m driver \<Rightarrow> 'm \<Rightarrow> go_error + int" where
  "mongo_Count D m = CountDocuments D m"

definition mongo_Drop :: "'m driver \<Rightarrow> 'm \<Rightarrow> go_error option \<times> 'm" where
  "mongo_Drop D m = DropAll D m"

definition or_err :: "'a \<times> go_error option \<Rightarrow> go_error + 'a" where
  "or_err x = (case snd x of Some err \<Rightarrow> Inl err | None \<Rightarrow> Inr (fst x))"

text \<open>\<open>Resume\<close> with the calls it makes; \<open>Clear\<close> ignores every error.\<close>

definition resume_crawler :: "'m driver \<Rightarrow> ('s, 'm) world \<Rightarrow> ('s, 'm) world" where
  "resume_crawler D w = Resume (mongo_Count D (mongo w)) (or_err (FindTargets D (mongo w))) w"

definition Clear :: "'m driver \<Rightarrow> ('s \<Rightarrow> go_error option \<times> 's) \<Rightarrow> ('s, 'm) world \<Rightarrow> ('s, 'm) world" where
  "Clear D FlushDB w =
     (let w1 = w\<lparr>mongo := snd (mongo_Drop D (mongo w))\<rparr> in w1\<lparr>server := snd (FlushDB (server w1))\<rparr>)"

text \<open>\<open>SaveTest\<close>: the joined errors, and what the file holds (\<open>None\<close>: not created).\<close>

definition SaveTest :: "'m driver \<Rightarrow> go_error option \<Rightarrow> (Video list \<Rightarrow> go_error option) \<Rightarrow> go_error option \<Rightarrow> 'm \<Rightarrow>
    go_error list \<times> Video list option" where
  "SaveTest D create_err encode_err closing_err m = (case or_err (FindTargets D m) of
     Inl err \<Rightarrow> ([err], None)
   | Inr ts \<Rightarrow> (case create_err of
       Some err \<Rightarrow> ([err], None)
     | None \<Rightarrow> (List.map_filter (\<lambda>x. x) [encode_err ts, closing_err], Some ts)))"

definition Count :: "('s, 'm) world \<Rightarrow> int" where "Count w = vcount w"
definition TargetCount :: "('s, 'm) world \<Rightarrow> int" where "TargetCount w = int (length (targets w))"

section \<open>What the collection promises\<close>

locale video_collection =
  fixes D :: "'m driver" and contents :: "'m \<Rightarrow> url \<rightharpoonup> Video" and well :: "'m \<Rightarrow> bool"
  assumes finite_contents: "well m \<Longrightarrow> finite (dom (contents m))"
    and replace_ok: "well m \<Longrightarrow> ReplaceOne D u v m = (Inr (), m') \<Longrightarrow> contents m' = (contents m)(u \<mapsto> v)"
    and replace_err: "well m \<Longrightarrow> ReplaceOne D u v m = (Inl err, m') \<Longrightarrow> contents m' = contents m \<or> contents m' = (contents m)(u \<mapsto> v)"
    and replace_wf: "well m \<Longrightarrow> well (snd (ReplaceOne D u v m))"
    and count_ok: "well m \<Longrightarrow> CountDocuments D m = Inr n \<Longrightarrow> n = int (card (dom (contents m)))"
    and find_ok: "well m \<Longrightarrow> Find D flt m = Inr (vs, None) \<Longrightarrow> set vs = {v \<in> ran (contents m). flt v}"
    and drop_ok: "well m \<Longrightarrow> DropAll D m = (None, m') \<Longrightarrow> contents m' = Map.empty"

text \<open>Turns of workers, each with the failure counters of the worker that makes it.\<close>

fun turns :: "'s frontier_methods \<Rightarrow> net_url \<Rightarrow> 'm upsert \<Rightarrow> (int \<Rightarrow> bool) \<Rightarrow> Config \<Rightarrow> int \<Rightarrow> (workerFailures \<times> turn) list \<Rightarrow>
    ('s, 'm) world \<Rightarrow> ('s, 'm) world" where
  "turns F net ups isLetter cfg limit [] w = w"
| "turns F net ups isLetter cfg limit ((f, t) # ts) w =
     turns F net ups isLetter cfg limit ts (snd (snd (worker_turn F net ups isLetter cfg limit t (f, w))))"

text \<open>An upsert that keeps a record of the writes and whether they were acknowledged.\<close>

type_synonym writes = "(Video \<times> bool) list"

definition log_driver :: "'m driver \<Rightarrow> ('m \<times> writes) driver" where
  "log_driver D =
     \<lparr>ReplaceOne = \<lambda>u v x. (case ReplaceOne D u v (fst x) of (r, m) \<Rightarrow> (r, m, snd x @ [(v, \<not> isl r)])),
      Find = \<lambda>flt x. Find D flt (fst x), CountDocuments = \<lambda>x. CountDocuments D (fst x),
      DropAll = \<lambda>x. (case DropAll D (fst x) of (r, m) \<Rightarrow> (r, m, snd x))\<rparr>"

definition acked :: "writes \<Rightarrow> Video list" where
  "acked ws = map fst (filter snd ws)"

lemma acked_simps [simp]: "acked [] = []" "acked (ws @ [(v, b)]) = acked ws @ (if b then [v] else [])"
  by (simp_all add: acked_def)

lemma handleOutcome_writes:
  assumes "handleOutcome F net ups c t j out w = (b, w')"
  shows "mongo w' = mongo w \<and> vcount w' = vcount w \<and> targets w' = targets w \<or>
    (\<exists>v. video_stored ups v w w') \<or>
    (\<exists>v err. ups v (mongo w) = (Inl err, mongo w') \<and> vcount w' = vcount w \<and> targets w' = targets w)"
proof (cases "kind out = pageVideo")
  case False
  then show ?thesis using assms
    by (cases "kind out")
      (auto simp: handleOutcome_def Let_def split: prod.splits option.splits dest: with_server_keeps)
next
  case True
  obtain r m where u: "ups (video out) (mongo w) = (r, m)" by fastforce
  show ?thesis
  proof (cases r)
    case (Inl err)
    then show ?thesis using assms True u by (auto simp: handleOutcome_def)
  next
    case (Inr x)
    obtain n e w1 where c: "with_server (enqueueChildren F net c (child_env t) (links out) 0)
        (recordVideo (video out) (w\<lparr>mongo := m\<rparr>)) = ((n, e), w1)" by (metis prod.collapse)
    have "video_stored ups (video out) w w'"
      using assms True u Inr c with_server_keeps [OF c] by (cases e) (auto simp: handleOutcome_def video_stored_def)
    then show ?thesis by blast
  qed
qed

lemma turn_writes:
  assumes "worker_turn F net ups isLetter cfg limit t (f, w) = (ctl, f', w')"
  shows "mongo w' = mongo w \<and> vcount w' = vcount w \<and> targets w' = targets w \<or>
    (\<exists>v. video_stored ups v w w') \<or>
    (\<exists>v err. ups v (mongo w) = (Inl err, mongo w') \<and> vcount w' = vcount w \<and> targets w' = targets w)"
proof -
  obtain r w1 where l: "with_server (fr_Lease F (lease_env (envs t))) w = (r, w1)" by fastforce
  note k = with_server_keeps [OF l]
  show ?thesis
  proof (cases "(\<exists>job. r = Inr (Some job) \<and> canonicalize net cfg (URL job) \<noteq> []) \<and> \<not> limiter_failed t \<and>
      \<not> (ctx_done t \<or> limit > 0 \<and> vcount w \<ge> limit)")
    case True
    then obtain job where j: "r = Inr (Some job)" "canonicalize net cfg (URL job) \<noteq> []" by blast
    let ?out = "process isLetter cfg (URL job) (ctx_done_later t) (fetched t)"
    obtain b w2 where h: "handleOutcome F net ups cfg (envs t) job ?out w1 = (b, w2)" by fastforce
    then have "w' = w2" using assms l j True by (auto simp: worker_turn_def Let_def split: if_splits)
    then show ?thesis using handleOutcome_writes [OF h] k by (simp add: video_stored_def)
  next
    case False
    then show ?thesis using assms l k
      by (auto simp: worker_turn_def Let_def split: if_splits sum.splits option.splits)
  qed
qed

lemma new_urls_count:
  assumes "finite A"
  shows "card (A \<union> f ` set xs) \<le> card A + length xs"
    and "card (A \<union> f ` set xs) = card A + length xs \<longleftrightarrow> distinct (map f xs) \<and> f ` set xs \<inter> A = {}"
proof -
  have c: "card (A \<union> f ` set xs) = card A + card (f ` set xs - A)"
    using assms by (metis card_Un_disjoint Diff_disjoint Un_Diff_cancel finite_Diff finite_imageI finite_set)
  have d: "card (f ` set xs - A) \<le> card (f ` set xs)" "card (f ` set xs) \<le> length xs"
    by (simp_all add: card_mono) (metis card_length length_map set_map)
  then show "card (A \<union> f ` set xs) \<le> card A + length xs" using c by linarith
  have "card (f ` set xs - A) = card (f ` set xs) \<longleftrightarrow> f ` set xs \<inter> A = {}"
  proof
    assume "card (f ` set xs - A) = card (f ` set xs)"
    then have "f ` set xs - A = f ` set xs" by (metis Diff_subset List.finite_set card_subset_eq finite_imageI)
    then show "f ` set xs \<inter> A = {}" by blast
  qed (simp add: Diff_triv)
  moreover have "card (f ` set xs) = length xs \<longleftrightarrow> distinct (map f xs)"
    by (metis card_distinct distinct_card length_map set_map)
  ultimately show "card (A \<union> f ` set xs) = card A + length xs \<longleftrightarrow> distinct (map f xs) \<and> f ` set xs \<inter> A = {}"
    using c d by linarith
qed

text \<open>What a sequence of writes does to the collection and the counters.\<close>

definition wrote :: "('m \<Rightarrow> url \<rightharpoonup> Video) \<Rightarrow> ('m \<Rightarrow> bool) \<Rightarrow> ('s, 'm \<times> writes) world \<Rightarrow> ('s, 'm \<times> writes) world \<Rightarrow> writes \<Rightarrow> bool" where
  "wrote contents well w w' ws \<longleftrightarrow> snd (mongo w') = snd (mongo w) @ ws \<and> well (fst (mongo w')) \<and>
     vcount w' = vcount w + int (length (acked ws)) \<and> targets w' = targets w @ filter IsTarget (acked ws) \<and>
     dom (contents (fst (mongo w))) \<union> vURL ` set (acked ws) \<subseteq> dom (contents (fst (mongo w'))) \<and>
     dom (contents (fst (mongo w'))) \<subseteq> dom (contents (fst (mongo w))) \<union> vURL ` fst ` set ws \<and>
     ran (contents (fst (mongo w'))) \<subseteq> ran (contents (fst (mongo w))) \<union> fst ` set ws"

lemma acked_append: "acked (ws @ vs) = acked ws @ acked vs"
  by (simp add: acked_def)

lemma union_up: "A \<union> P \<subseteq> B \<Longrightarrow> B \<union> Q \<subseteq> C \<Longrightarrow> A \<union> (P \<union> Q) \<subseteq> C"
  by blast

lemma union_down: "B \<subseteq> A \<union> P \<Longrightarrow> C \<subseteq> B \<union> Q \<Longrightarrow> C \<subseteq> A \<union> (P \<union> Q)"
  by blast

lemma wrote_trans:
  assumes "wrote contents well w w1 ws" "wrote contents well w1 w2 vs"
  shows "wrote contents well w w2 (ws @ vs)"
proof -
  let ?d = "\<lambda>x. dom (contents (fst (mongo x)))" and ?r = "\<lambda>x. ran (contents (fst (mongo x)))"
  have h: "?d w \<union> vURL ` set (acked ws) \<subseteq> ?d w1" "?d w1 \<union> vURL ` set (acked vs) \<subseteq> ?d w2"
      "?d w1 \<subseteq> ?d w \<union> vURL ` fst ` set ws" "?d w2 \<subseteq> ?d w1 \<union> vURL ` fst ` set vs"
      "?r w1 \<subseteq> ?r w \<union> fst ` set ws" "?r w2 \<subseteq> ?r w1 \<union> fst ` set vs"
    using assms by (simp_all add: wrote_def)
  have "?d w \<union> vURL ` set (acked (ws @ vs)) \<subseteq> ?d w2" "?d w2 \<subseteq> ?d w \<union> vURL ` fst ` set (ws @ vs)"
      "?r w2 \<subseteq> ?r w \<union> fst ` set (ws @ vs)"
    using union_up [OF h(1,2)] union_down [OF h(3,4)] union_down [OF h(5,6)] by (simp_all only: acked_append set_append image_Un)
  then show ?thesis using assms by (simp add: wrote_def acked_append)
qed

lemma ran_upd: "ran (m(u \<mapsto> v)) \<subseteq> insert v (ran m)"
  by (auto simp: ran_def)

context video_collection
begin

lemma upsert_wrote:
  assumes "well (fst (mongo w))" "Upsert (log_driver D) v (mongo w) = (r, mongo w')"
    and "r = Inr () \<and> vcount w' = vcount w + 1 \<and> targets w' = targets w @ (if IsTarget v then [v] else []) \<or>
      isl r \<and> vcount w' = vcount w \<and> targets w' = targets w"
  shows "\<exists>ws. wrote contents well w w' ws"
proof -
  obtain m where m: "ReplaceOne D (vURL v) v (fst (mongo w)) = (r, m)" "mongo w' = (m, snd (mongo w) @ [(v, \<not> isl r)])"
    using assms(2) by (auto simp: Upsert_def log_driver_def split: prod.splits)
  have "contents m = (contents (fst (mongo w)))(vURL v \<mapsto> v) \<or> isl r \<and> contents m = contents (fst (mongo w))"
    using replace_ok [OF assms(1), of "vURL v" v m] replace_err [OF assms(1), of "vURL v" v _ m] m(1) by (cases r) auto
  moreover have "well m" using replace_wf [OF assms(1), of "vURL v" v] m(1) by simp
  ultimately have "wrote contents well w w' [(v, \<not> isl r)]"
    using assms(3) m(2) ran_upd [of "contents (fst (mongo w))" "vURL v" v] unfolding wrote_def by (auto simp: acked_def)
  then show ?thesis by blast
qed

lemma turns_wrote: "well (fst (mongo w)) \<Longrightarrow> \<exists>ws. wrote contents well w (turns F net (Upsert (log_driver D)) isLetter cfg limit ts w) ws"
proof (induction ts arbitrary: w)
  case Nil
  then show ?case by (intro exI [of _ "[]"]) (simp add: wrote_def)
next
  case (Cons ft ts)
  obtain f t where ft: "ft = (f, t)" by fastforce
  obtain ctl f' w1 where t: "worker_turn F net (Upsert (log_driver D)) isLetter cfg limit t (f, w) = (ctl, f', w1)"
    by (metis prod_cases3)
  have "\<exists>ws. wrote contents well w w1 ws"
    using turn_writes [OF t]
  proof (elim disjE exE)
    assume "mongo w1 = mongo w \<and> vcount w1 = vcount w \<and> targets w1 = targets w"
    then have "wrote contents well w w1 []" using Cons.prems by (simp add: wrote_def)
    then show ?thesis by blast
  next
    fix v assume "video_stored (Upsert (log_driver D)) v w w1"
    then show ?thesis using upsert_wrote [OF Cons.prems, of v "Inr ()" w1] by (simp add: video_stored_def)
  next
    fix v err assume "Upsert (log_driver D) v (mongo w) = (Inl err, mongo w1) \<and> vcount w1 = vcount w \<and> targets w1 = targets w"
    then show ?thesis using upsert_wrote [OF Cons.prems, of v "Inl err" w1] by simp
  qed
  then obtain ws where ws: "wrote contents well w w1 ws" by blast
  then obtain vs where "wrote contents well w1 (turns F net (Upsert (log_driver D)) isLetter cfg limit ts w1) vs"
    using Cons.IH [of w1] by (auto simp: wrote_def)
  with ws show ?case unfolding ft turns.simps t by (auto intro: wrote_trans)
qed

lemma wrote_counts:
  assumes "wrote contents well w w' ws" "well (fst (mongo w))" "vcount w = int (card (dom (contents (fst (mongo w)))))"
  shows "int (card (dom (contents (fst (mongo w'))))) \<le> vcount w' + int (length (filter (\<lambda>x. \<not> snd x) ws))"
    and "\<forall>x \<in> set ws. snd x \<Longrightarrow> int (card (dom (contents (fst (mongo w'))))) = vcount w' \<longleftrightarrow>
      distinct (map (\<lambda>x. vURL (fst x)) ws) \<and> (\<lambda>x. vURL (fst x)) ` set ws \<inter> dom (contents (fst (mongo w))) = {}"
proof -
  note f = finite_contents [OF assms(2)]
  have "card (dom (contents (fst (mongo w')))) \<le> card (dom (contents (fst (mongo w))) \<union> (\<lambda>x. vURL (fst x)) ` set ws)"
    using assms(1) f by (intro card_mono) (auto simp: wrote_def image_image)
  also have "\<dots> \<le> card (dom (contents (fst (mongo w)))) + length ws" by (rule new_urls_count(1) [OF f])
  also have "length ws = length (acked ws) + length (filter (\<lambda>x. \<not> snd x) ws)"
    by (simp add: acked_def sum_length_filter_compl)
  finally show "int (card (dom (contents (fst (mongo w'))))) \<le> vcount w' + int (length (filter (\<lambda>x. \<not> snd x) ws))"
    using assms(1,3) by (simp add: wrote_def)
  assume a: "\<forall>x \<in> set ws. snd x"
  then have "acked ws = map fst ws" by (simp add: acked_def)
  then have d: "dom (contents (fst (mongo w'))) = dom (contents (fst (mongo w))) \<union> (\<lambda>x. vURL (fst x)) ` set ws"
    and v: "vcount w' = int (card (dom (contents (fst (mongo w)))) + length ws)"
    using assms(1,3) by (auto simp: wrote_def image_image)
  show "int (card (dom (contents (fst (mongo w'))))) = vcount w' \<longleftrightarrow>
      distinct (map (\<lambda>x. vURL (fst x)) ws) \<and> (\<lambda>x. vURL (fst x)) ` set ws \<inter> dom (contents (fst (mongo w))) = {}"
    unfolding d v of_nat_eq_iff by (rule new_urls_count(2) [OF f])
qed

end

section \<open>A collection that fails as planned\<close>

text \<open>
  The documents in the order of their first insertion. Each write looks up what happens to it:
  it is applied and acknowledged, applied and its reply lost, or refused.
\<close>

datatype fate = Applied | ReplyLost | Refused

record video_store =
  vdocs :: "(url \<times> Video) list"
  fates :: "nat \<Rightarrow> fate"
  vwrites :: nat

definition store_driver :: "video_store driver" where
  "store_driver =
     \<lparr>ReplaceOne = \<lambda>u v m. (let m' = m\<lparr>vwrites := vwrites m + 1\<rparr>; put = m'\<lparr>vdocs := AList.update u v (vdocs m)\<rparr>
        in case fates m (vwrites m) of
             Applied \<Rightarrow> (Inr (), put) | ReplyLost \<Rightarrow> (Inl (NetErr ''lost''), put) | Refused \<Rightarrow> (Inl (NetErr ''refused''), m')),
      Find = \<lambda>flt m. Inr (filter flt (map snd (vdocs m)), None),
      CountDocuments = \<lambda>m. Inr (int (length (vdocs m))),
      DropAll = \<lambda>m. (None, m\<lparr>vdocs := []\<rparr>)\<rparr>"

definition store_well :: "video_store \<Rightarrow> bool" where
  "store_well m \<longleftrightarrow> distinct (map fst (vdocs m))"

interpretation stored_videos: video_collection store_driver "\<lambda>m. map_of (vdocs m)" store_well
proof
  fix m n assume "store_well m" "CountDocuments store_driver m = Inr n"
  then show "n = int (card (dom (map_of (vdocs m))))"
    by (auto simp: store_driver_def store_well_def dom_map_of_conv_image_fst distinct_card simp flip: set_map)
next
  fix m flt vs assume "store_well m" "Find store_driver flt m = Inr (vs, None)"
  then show "set vs = {v \<in> ran (map_of (vdocs m)). flt v}"
    by (force simp: store_driver_def store_well_def ran_distinct)
qed (auto simp: store_driver_def store_well_def Let_def update_conv' distinct_update finite_dom_map_of split: fate.splits)

section \<open>The counters follow the collection\<close>

lemma resume_counts:
  assumes "video_collection D contents well" "well (fst (mongo w))" "targets w = []"
    and "mongo_Count (log_driver D) (mongo w) = Inr n" "FindTargets (log_driver D) (mongo w) = (ts, None)"
  shows "vcount (resume_crawler (log_driver D) w) = int (card (dom (contents (fst (mongo w)))))"
    and "set (targets (resume_crawler (log_driver D) w)) = {v \<in> ran (contents (fst (mongo w))). IsTarget v}"
    and "mongo (resume_crawler (log_driver D) w) = mongo w"
proof -
  have r: "resume_crawler (log_driver D) w = w\<lparr>targets := ts, vcount := n\<rparr>"
    using assms(3-5) by (simp add: resume_crawler_def Resume_def or_err_def)
  have "CountDocuments D (fst (mongo w)) = Inr n" "Find D IsTarget (fst (mongo w)) = Inr (ts, None)"
    using assms(4,5) by (auto simp: mongo_Count_def FindTargets_def find_videos_def log_driver_def split: sum.splits)
  then show "vcount (resume_crawler (log_driver D) w) = int (card (dom (contents (fst (mongo w)))))"
    "set (targets (resume_crawler (log_driver D) w)) = {v \<in> ran (contents (fst (mongo w))). IsTarget v}"
    "mongo (resume_crawler (log_driver D) w) = mongo w"
    using video_collection.count_ok [OF assms(1,2)] video_collection.find_ok [OF assms(1,2)] by (auto simp: r)
qed

text \<open>C24: After \<open>Resume\<close> and any turns of any workers, the collection holds at most as many videos as the crawler
  counts, plus one for each write whose reply was an error; without such errors the numbers are
  equal exactly if no page was stored twice, which is what the final check of a test relies on.
  Every stored target was counted as one or comes from an unacknowledged write.\<close>

theorem count_follows_store:
  assumes "video_collection D contents well" "well (fst (mongo w0))" "snd (mongo w0) = []" "targets w0 = []"
    and "mongo_Count (log_driver D) (mongo w0) = Inr n" "FindTargets (log_driver D) (mongo w0) = (ts, None)"
    and "w = turns F net (Upsert (log_driver D)) isLetter cfg limit tns (resume_crawler (log_driver D) w0)"
    and "mongo w = (m, ws)"
  shows "int (card (dom (contents m))) \<le> Count w + int (length (filter (\<lambda>x. \<not> snd x) ws)) \<and>
    ((\<forall>x \<in> set ws. snd x) \<longrightarrow> int (card (dom (contents m))) = Count w \<longleftrightarrow>
       distinct (map (\<lambda>x. vURL (fst x)) ws) \<and> (\<lambda>x. vURL (fst x)) ` set ws \<inter> dom (contents (fst (mongo w0))) = {}) \<and>
    {v \<in> ran (contents m). IsTarget v} \<subseteq> set (targets w) \<union> {v. (v, False) \<in> set ws}"
proof -
  note r = resume_counts [OF assms(1,2,4,5,6)]
  let ?w = "resume_crawler (log_driver D) w0"
  obtain vs where vs: "wrote contents well ?w w vs"
    using video_collection.turns_wrote [OF assms(1), of ?w F net isLetter cfg limit tns] assms(2,7) r(3) by auto
  then have e: "vs = ws" using assms(3,8) r(3) by (simp add: wrote_def)
  have "targets w = targets ?w @ filter IsTarget (acked ws)" "ran (contents m) \<subseteq> ran (contents (fst (mongo w0))) \<union> fst ` set ws"
    using vs assms(8) r(3) e by (auto simp: wrote_def)
  then have "{v \<in> ran (contents m). IsTarget v} \<subseteq> set (targets w) \<union> {v. (v, False) \<in> set ws}"
    using r(2) by (fastforce simp: acked_def)
  then show ?thesis
    using video_collection.wrote_counts [OF assms(1) vs] assms(2,8) r e by (simp add: Count_def)
qed

text \<open>One stored video, and a worker that stores a second one.\<close>

definition old_store :: video_store where
  "old_store = \<lparr>vdocs = [(''old'', zero_video\<lparr>vURL := ''old''\<rparr>)], fates = \<lambda>_. Applied, vwrites = 0\<rparr>"

definition old_world :: "(rstore, video_store \<times> writes) world" where
  "old_world = \<lparr>server = sample_ready, mongo = (old_store, []), vcount = 0, targets = [], halted = False,
     ResolveErrors = 0, LeaseErrors = 0\<rparr>"

definition new_world :: "(rstore, video_store \<times> writes) world" where
  "new_world = turns (NewFrontier store_call DefaultFrontierConfig None) sample_net (Upsert (log_driver store_driver)) (\<lambda>_. False) sample_cfg 0
     [(sample_failures, sample_turn found)] (resume_crawler (log_driver store_driver) old_world)"

lemma new_world_writes:
  "Count new_world = 2 \<and> map (\<lambda>x. (vURL (fst x), snd x)) (snd (mongo new_world)) = [(sample_video, True)]"
  by code_simp

theorem count_follows_store_witness:
  "(let m = fst (mongo new_world); ws = snd (mongo new_world) in
      int (card (dom (map_of (vdocs m)))) \<le> Count new_world + int (length (filter (\<lambda>x. \<not> snd x) ws)) \<and>
      (int (card (dom (map_of (vdocs m)))) = Count new_world \<longleftrightarrow>
         distinct (map (\<lambda>x. vURL (fst x)) ws) \<and> (\<lambda>x. vURL (fst x)) ` set ws \<inter> dom (map_of (vdocs (fst (mongo old_world)))) = {}) \<and>
      {v \<in> ran (map_of (vdocs m)). IsTarget v} \<subseteq> set (targets new_world) \<union> {v. (v, False) \<in> set ws}) \<and>
   Count new_world = 2 \<and> map (\<lambda>x. vURL (fst x)) (snd (mongo new_world)) = [sample_video]"
proof (intro conjI)
  show "Count new_world = 2" "map (\<lambda>x. vURL (fst x)) (snd (mongo new_world)) = [sample_video]"
    using new_world_writes by auto
  have w: "store_well (fst (mongo old_world))" "snd (mongo old_world) = []" "targets old_world = []"
    "mongo_Count (log_driver store_driver) (mongo old_world) = Inr 1"
    "FindTargets (log_driver store_driver) (mongo old_world) = ([], None)" by code_simp+
  have "\<forall>x \<in> set (snd (mongo new_world)). snd x" using new_world_writes by auto
  then show "let m = fst (mongo new_world); ws = snd (mongo new_world) in
      int (card (dom (map_of (vdocs m)))) \<le> Count new_world + int (length (filter (\<lambda>x. \<not> snd x) ws)) \<and>
      (int (card (dom (map_of (vdocs m)))) = Count new_world \<longleftrightarrow>
         distinct (map (\<lambda>x. vURL (fst x)) ws) \<and> (\<lambda>x. vURL (fst x)) ` set ws \<inter> dom (map_of (vdocs (fst (mongo old_world)))) = {}) \<and>
      {v \<in> ran (map_of (vdocs m)). IsTarget v} \<subseteq> set (targets new_world) \<union> {v. (v, False) \<in> set ws}"
    using count_follows_store [OF stored_videos.video_collection_axioms w new_world_def prod.collapse [symmetric]]
    unfolding Let_def by blast
qed

end
