(* ===== verification/Lifecycle.thy ===== *)
theory Lifecycle
  imports Worker Scheduler
begin

text \<open>
  The goroutines of a crawl and how they end: what \<open>main\<close> of \<open>src/cmd/crawler/main.go\<close> and \<open>RunTest\<close> of
  \<open>src/internal/crawler/crawler.go\<close> start, the context they share, and the wait groups they are joined on.
  A goroutine is the list of statements it has still to execute, deferred ones last; what a tick or a
  turn of a worker does to the stores is the subject of \<open>Scheduler\<close> and \<open>Worker\<close>, here it matters only
  whether it stops the crawl and whether the loop goes on.
  The two goroutines that \<open>main\<close> starts first, the metrics server and the signal handler (lines 103 to
  111), are on no wait group, are never joined and touch nothing but \<open>cancel\<close>: they are not threads of the
  model, what they can do to it is the event \<open>Stop_Requested\<close>, possible at any time.
\<close>

section \<open>Goroutines\<close>

datatype group = RootWG | WorkersWG

datatype routine =
    ListingScheduler | Promoter | Reaper | Sweeper | BloomMonitor | Heartbeat | Snapshotter
  | CrawlStateCheckpoint | WorkerR | SupervisorR | TestWorkerR

text \<open>
  \<open>TickTop\<close>, \<open>TickBody\<close> and \<open>TickSelect\<close> are the three points of \<open>everyTick\<close>; the flag says whether the body may
  call \<open>stopFn\<close>. \<open>WorkLoop\<close> is the top of \<open>workerLoop\<close> (the flag: whether there is a video limit) and
  \<open>WorkTurn\<close> the rest of a turn. \<open>PollLoop\<close> is the loop in which \<open>RunTest\<close> waits for its workers.
\<close>

datatype stmt =
    AddWG group int | DoneWG group | WaitWG group | GoStmt routine
  | AwaitDone | StopFn | SleepCtx | EntryCheck
  | TickTop bool | TickBody bool | TickSelect
  | SnapLoop | SnapBody
  | WorkLoop bool | WorkTurn
  | PollLoop | CountFinished

type_synonym code = "stmt list"

text \<open>\<open>everyTick\<close> and \<open>runSnapshotter\<close> with their deferred calls, a worker of the crawl and one of a test, the
  supervisor of the crawl's workers.\<close>

definition tick_code :: "bool \<Rightarrow> code" where
  [simp]: "tick_code stops = [TickTop stops, DoneWG RootWG]"

definition snapshot_code :: code where
  [simp]: "snapshot_code = [SnapLoop, DoneWG RootWG]"

definition worker_code :: code where
  [simp]: "worker_code = [SleepCtx, EntryCheck, WorkLoop False, DoneWG WorkersWG]"

definition supervisor_code :: code where
  [simp]: "supervisor_code = [WaitWG WorkersWG, StopFn, DoneWG RootWG]"

definition test_worker_code :: code where
  [simp]: "test_worker_code = [SleepCtx, EntryCheck, EntryCheck, WorkLoop True, CountFinished, DoneWG RootWG]"

definition code_of :: "routine \<Rightarrow> code" where
  "code_of r = (case r of
     BloomMonitor \<Rightarrow> tick_code True
   | Snapshotter \<Rightarrow> snapshot_code
   | WorkerR \<Rightarrow> worker_code
   | SupervisorR \<Rightarrow> supervisor_code
   | TestWorkerR \<Rightarrow> test_worker_code
   | _ \<Rightarrow> tick_code False)"

lemma code_of_simps [simp]:
  "code_of ListingScheduler = tick_code False" "code_of Promoter = tick_code False" "code_of Reaper = tick_code False"
  "code_of Sweeper = tick_code False" "code_of BloomMonitor = tick_code True" "code_of Heartbeat = tick_code False"
  "code_of Snapshotter = snapshot_code" "code_of CrawlStateCheckpoint = tick_code False" "code_of WorkerR = worker_code"
  "code_of SupervisorR = supervisor_code" "code_of TestWorkerR = test_worker_code"
  by (simp_all add: code_of_def)

definition scheduler_Run :: code where
  "scheduler_Run = [AddWG RootWG 7, GoStmt ListingScheduler, GoStmt Promoter, GoStmt Reaper, GoStmt Sweeper,
     GoStmt BloomMonitor, GoStmt Heartbeat, GoStmt Snapshotter]"

definition checkpoint_Run :: code where
  "checkpoint_Run = [AddWG RootWG 1, GoStmt CrawlStateCheckpoint]"

definition crawler_Run :: "int \<Rightarrow> code" where
  "crawler_Run n = AddWG RootWG 1 # concat (replicate (nat n) [AddWG WorkersWG 1, GoStmt WorkerR]) @ [GoStmt SupervisorR]"

text \<open>What \<open>main\<close> does once the stores are ready and the crawl has started up (lines 196 to 201), and what \<open>RunTest\<close> does once the seed is admitted.\<close>

definition main_crawl :: "int \<Rightarrow> code" where
  "main_crawl n = scheduler_Run @ checkpoint_Run @ crawler_Run n @ [AwaitDone, WaitWG RootWG]"

definition main_test :: "int \<Rightarrow> code" where
  "main_test n = scheduler_Run @ concat (replicate (nat n) [AddWG RootWG 1, GoStmt TestWorkerR]) @
     [PollLoop, StopFn, WaitWG RootWG]"

section \<open>Executing them\<close>

text \<open>\<open>ctxErr\<close>: the context is cancelled. \<open>snapDue\<close>: a tick waits in the snapshotter's channel.\<close>

record shared =
  ctxErr :: bool
  rootWG :: int
  workersWG :: int
  finishedTests :: int
  snapDue :: bool

definition wg_count :: "group \<Rightarrow> shared \<Rightarrow> int" where
  "wg_count g sh = (case g of RootWG \<Rightarrow> rootWG sh | WorkersWG \<Rightarrow> workersWG sh)"

definition add_counter :: "group \<Rightarrow> int \<Rightarrow> shared \<Rightarrow> shared" where
  "add_counter g k sh = (case g of RootWG \<Rightarrow> sh\<lparr>rootWG := rootWG sh + k\<rparr> | WorkersWG \<Rightarrow> sh\<lparr>workersWG := workersWG sh + k\<rparr>)"

fun deferred :: "stmt \<Rightarrow> bool" where
  "deferred (DoneWG g) = True"
| "deferred CountFinished = True"
| "deferred s = False"

text \<open>A return leaves the deferred calls.\<close>

definition return_from :: "code \<Rightarrow> code" where
  "return_from c = dropWhile (\<lambda>s. \<not> deferred s) c"

text \<open>
  The ways a goroutine can go on from here: none while it is blocked, several where a select, a clock
  or the outcome of a turn decides.
\<close>

definition unless_stopped :: "shared \<Rightarrow> code \<Rightarrow> code list \<Rightarrow> (shared \<times> code) list" where
  "unless_stopped sh c on = (if ctxErr sh then [(sh, return_from c)] else map (Pair sh) on)"

fun succs :: "shared \<Rightarrow> code \<Rightarrow> (shared \<times> code) list" where
  "succs sh [] = []"
| "succs sh (AddWG g k # c) = [(add_counter g k sh, c)]"
| "succs sh (DoneWG g # c) = [(add_counter g (-1) sh, c)]"
| "succs sh (WaitWG g # c) = (if wg_count g sh = 0 then [(sh, c)] else [])"
| "succs sh (GoStmt r # c) = []"
| "succs sh (AwaitDone # c) = (if ctxErr sh then [(sh, c)] else [])"
| "succs sh (StopFn # c) = [(sh\<lparr>ctxErr := True\<rparr>, c)]"
| "succs sh (SleepCtx # c) = [(sh, c)]"
| "succs sh (EntryCheck # c) = unless_stopped sh c [c]"
| "succs sh (TickTop stops # c) = unless_stopped sh c [TickBody stops # TickSelect # TickTop stops # c]"
| "succs sh (TickBody stops # c) = (sh, c) # (if stops then [(sh\<lparr>ctxErr := True\<rparr>, c)] else [])"
| "succs sh (TickSelect # c) = (sh, c) # (if ctxErr sh then [(sh, return_from c)] else [])"
| "succs sh (SnapLoop # c) =
     (if ctxErr sh then [(sh, return_from c)] else []) @
     (if snapDue sh then [(sh\<lparr>snapDue := False\<rparr>, SnapBody # SnapLoop # c)] else [])"
| "succs sh (SnapBody # c) = [(sh, c)]"
| "succs sh (WorkLoop limited # c) =
     unless_stopped sh c ((WorkTurn # WorkLoop limited # c) # (if limited then [return_from c] else []))"
| "succs sh (WorkTurn # c) =
     [(sh, c), (sh, return_from c), (sh\<lparr>ctxErr := True\<rparr>, c), (sh\<lparr>ctxErr := True\<rparr>, return_from c)]"
| "succs sh (PollLoop # c) = (sh, c) # (if ctxErr sh then [] else [(sh, PollLoop # c)])"
| "succs sh (CountFinished # c) = [(sh\<lparr>finishedTests := finishedTests sh + 1\<rparr>, c)]"

record crawl =
  shared_of :: shared
  main_code :: code
  routines :: "(routine \<times> code) list"

text \<open>
  \<open>Stop_Requested\<close> is the signal handler of \<open>main\<close>, a POST to \<open>/stop\<close>, or the deadline of a test;
  \<open>Snap_Tick\<close> the ticker of the snapshotter. The other events name the goroutine that moves and the
  way it goes on.
\<close>

definition cancel :: "crawl \<Rightarrow> crawl" where
  [simp]: "cancel s = s\<lparr>shared_of := (shared_of s)\<lparr>ctxErr := True\<rparr>\<rparr>"

datatype event = Main_Step nat | Routine_Step nat nat | Stop_Requested | Snap_Tick

fun exec :: "event \<Rightarrow> crawl \<Rightarrow> crawl option" where
  "exec (Main_Step k) s = (case main_code s of
     GoStmt r # c \<Rightarrow> Some (s\<lparr>main_code := c, routines := routines s @ [(r, code_of r)]\<rparr>)
   | c \<Rightarrow> (let alts = succs (shared_of s) c in
       if k < length alts then Some (s\<lparr>shared_of := fst (alts ! k), main_code := snd (alts ! k)\<rparr>) else None))"
| "exec (Routine_Step i k) s =
     (if i < length (routines s)
      then let alts = succs (shared_of s) (snd (routines s ! i)) in
        if k < length alts
        then Some (s\<lparr>shared_of := fst (alts ! k), routines := (routines s)[i := (fst (routines s ! i), snd (alts ! k))]\<rparr>)
        else None
      else None)"
| "exec Stop_Requested s = Some (cancel s)"
| "exec Snap_Tick s = Some (s\<lparr>shared_of := (shared_of s)\<lparr>snapDue := True\<rparr>\<rparr>)"

fun exec_all :: "event list \<Rightarrow> crawl \<Rightarrow> crawl option" where
  "exec_all [] s = Some s"
| "exec_all (e # es) s = Option.bind (exec e s) (exec_all es)"

definition launched :: "code \<Rightarrow> crawl" where
  "launched c = \<lparr>shared_of = \<lparr>ctxErr = False, rootWG = 0, workersWG = 0, finishedTests = 0, snapDue = False\<rparr>,
     main_code = c, routines = []\<rparr>"

inductive reachable :: "code \<Rightarrow> crawl \<Rightarrow> bool" for p :: code where
  start: "reachable p (launched p)"
| step: "reachable p s \<Longrightarrow> exec e s = Some s' \<Longrightarrow> reachable p s'"

end
