(* ===== verification/Lifecycle_Correct.thy ===== *)
theory Lifecycle_Correct
  imports Lifecycle
begin

text \<open>
  Starting and joining the goroutines of \<open>Lifecycle\<close>. The locale \<open>program\<close> states what the code that
  starts goroutines has to get right: wait group counters are raised before the goroutines that
  lower them exist, the supervisor comes after the workers, the main goroutine returns last. It is
  proved for the crawl and for the test run, and gives that all goroutines are joined and that a
  cancelled crawl ends.
\<close>

section \<open>Control points\<close>

text \<open>The points a goroutine can be at. The wait groups and the counter of finished workers are
  accounted for by what the statements ahead still owe them.\<close>

definition tick_points :: "bool \<Rightarrow> code list" where
  "tick_points b = [[TickTop b, DoneWG RootWG], [TickBody b, TickSelect, TickTop b, DoneWG RootWG],
     [TickSelect, TickTop b, DoneWG RootWG], [DoneWG RootWG], []]"

definition points :: "routine \<Rightarrow> code list" where
  "points r = (case r of
     BloomMonitor \<Rightarrow> tick_points True
   | Snapshotter \<Rightarrow> [[SnapLoop, DoneWG RootWG], [SnapBody, SnapLoop, DoneWG RootWG], [DoneWG RootWG], []]
   | WorkerR \<Rightarrow> [[SleepCtx, EntryCheck, WorkLoop False, DoneWG WorkersWG], [EntryCheck, WorkLoop False, DoneWG WorkersWG],
       [WorkLoop False, DoneWG WorkersWG], [WorkTurn, WorkLoop False, DoneWG WorkersWG], [DoneWG WorkersWG], []]
   | SupervisorR \<Rightarrow> [[WaitWG WorkersWG, StopFn, DoneWG RootWG], [StopFn, DoneWG RootWG], [DoneWG RootWG], []]
   | TestWorkerR \<Rightarrow>
       (let rest = [WorkLoop True, CountFinished, DoneWG RootWG]
        in [SleepCtx # EntryCheck # EntryCheck # rest, EntryCheck # EntryCheck # rest, EntryCheck # rest, rest,
            WorkTurn # rest, [CountFinished, DoneWG RootWG], [DoneWG RootWG], []])
   | _ \<Rightarrow> tick_points False)"

fun owed1 :: "group \<Rightarrow> stmt \<Rightarrow> int" where
  "owed1 g (AddWG h k) = (if g = h then - k else 0)"
| "owed1 g (DoneWG h) = (if g = h then 1 else 0)"
| "owed1 g (GoStmt r) = (if DoneWG g \<in> set (code_of r) then 1 else 0)"
| "owed1 g s = 0"

fun unfinished1 :: "stmt \<Rightarrow> int" where
  "unfinished1 CountFinished = 1"
| "unfinished1 (GoStmt r) = (if CountFinished \<in> set (code_of r) then 1 else 0)"
| "unfinished1 s = 0"

definition owed :: "group \<Rightarrow> code \<Rightarrow> int" where "owed g c = (\<Sum>s\<leftarrow>c. owed1 g s)"
definition unfinished :: "code \<Rightarrow> int" where "unfinished c = (\<Sum>s\<leftarrow>c. unfinished1 s)"

lemmas life_defs = points_def tick_points_def owed_def unfinished_def wg_count_def add_counter_def
  return_from_def unless_stopped_def

lemma owed_Nil [simp]: "owed g [] = 0" "unfinished [] = 0"
  by (simp_all add: life_defs)

lemma owed_Cons [simp]: "owed g (s # c) = owed1 g s + owed g c" "unfinished (s # c) = unfinished1 s + unfinished c"
  by (simp_all add: life_defs)

lemma owed_append [simp]: "owed g (c @ d) = owed g c + owed g d" "unfinished (c @ d) = unfinished c + unfinished d"
  by (simp_all add: life_defs)

lemma code_of_point: "code_of r \<in> set (points r)"
  by (cases r) (simp_all add: points_def tick_points_def Let_def)

lemma owed_code_of: "owed g (code_of r) = owed1 g (GoStmt r)" "unfinished (code_of r) = unfinished1 (GoStmt r)"
  by (cases r; cases g; simp)+

lemma point_owes_nothing: "c \<in> set (points r) \<Longrightarrow> 0 \<le> owed g c"
  by (cases r; cases g; auto simp: points_def tick_points_def Let_def)

lemma point_ended: "c \<in> set (points r) \<Longrightarrow> owed RootWG c = 0 \<Longrightarrow> r \<noteq> WorkerR \<Longrightarrow> c = []"
  by (cases r; auto simp: points_def tick_points_def Let_def)

lemma worker_point_ended: "c \<in> set (points WorkerR) \<Longrightarrow> owed WorkersWG c = 0 \<Longrightarrow> c = []"
  by (auto simp: points_def)

text \<open>What a step of a goroutine may do.\<close>

definition accounted :: "shared \<Rightarrow> code \<Rightarrow> shared \<Rightarrow> code \<Rightarrow> bool" where
  "accounted sh c sh' c' \<longleftrightarrow>
     (\<forall>g. wg_count g sh' - owed g c' = wg_count g sh - owed g c) \<and>
     finishedTests sh' + unfinished c' = finishedTests sh + unfinished c \<and>
     (ctxErr sh \<longrightarrow> ctxErr sh')"

definition pending :: "shared \<Rightarrow> nat" where
  "pending sh = (if snapDue sh then 2 else 0)"

lemma group_all: "(\<forall>g. P g) \<longleftrightarrow> P RootWG \<and> P WorkersWG"
  by (metis group.exhaust)

definition fine_step :: "code list \<Rightarrow> shared \<Rightarrow> code \<Rightarrow> shared \<Rightarrow> code \<Rightarrow> bool" where
  "fine_step ps sh c sh' c' \<longleftrightarrow> c' \<in> set ps \<and> accounted sh c sh' c' \<and> (\<forall>g. owed g c' \<le> owed g c) \<and>
    (ctxErr sh \<longrightarrow> length c' + pending sh' < length c + pending sh)"

lemmas fine_defs = fine_step_def accounted_def pending_def group_all wg_count_def add_counter_def return_from_def unless_stopped_def

lemma tick_point_step: "c \<in> set (tick_points b) \<Longrightarrow> (sh', c') \<in> set (succs sh c) \<Longrightarrow> fine_step (tick_points b) sh c sh' c'"
  by (auto simp: tick_points_def fine_defs split: if_splits)

lemma point_step:
  assumes "c \<in> set (points r)" "(sh', c') \<in> set (succs sh c)"
  shows "c' \<in> set (points r) \<and> accounted sh c sh' c' \<and> (\<forall>g. owed g c' \<le> owed g c) \<and>
    (ctxErr sh \<longrightarrow> length c' + pending sh' < length c + pending sh)"
proof (cases "r \<in> {Snapshotter, WorkerR, SupervisorR, TestWorkerR}")
  case True
  then show ?thesis using assms
    by (elim insertE emptyE; auto simp: points_def Let_def fine_defs split: if_splits)
next
  case False
  then obtain b where "points r = tick_points b" by (cases r) (auto simp: points_def)
  then show ?thesis using tick_point_step assms by (simp add: fine_step_def)
qed

lemma point_blocked:
  assumes "c \<in> set (points r)" "c \<noteq> []" "succs sh c = []" "ctxErr sh"
  shows "r = SupervisorR \<and> workersWG sh \<noteq> 0 \<and> WaitWG WorkersWG \<in> set c"
  using assms
  by (cases r; auto simp: points_def tick_points_def Let_def unless_stopped_def wg_count_def split: if_splits)

lemma supervisor_waits:
  "c \<in> set (points SupervisorR) \<Longrightarrow> WaitWG WorkersWG \<in> set c \<Longrightarrow> (sh', c') \<in> set (succs sh c) \<Longrightarrow>
   WaitWG WorkersWG \<notin> set c' \<Longrightarrow> sh' = sh \<and> workersWG sh = 0"
  by (auto simp: points_def wg_count_def split: if_splits)

lemma supervisor_owes: "c \<in> set (points r) \<Longrightarrow> r \<noteq> WorkerR \<Longrightarrow> owed WorkersWG c = 0"
  by (cases r; auto simp: points_def tick_points_def Let_def)

lemma supervisor_past: "c \<in> set (points SupervisorR) \<Longrightarrow> WaitWG WorkersWG \<notin> set c \<Longrightarrow> (sh', c') \<in> set (succs sh c) \<Longrightarrow>
    WaitWG WorkersWG \<notin> set c'"
  by (auto simp: points_def)

fun main_stmt :: "stmt \<Rightarrow> bool" where
  "main_stmt (AddWG g k) = True"
| "main_stmt (WaitWG g) = True"
| "main_stmt (GoStmt r) = True"
| "main_stmt AwaitDone = True"
| "main_stmt StopFn = True"
| "main_stmt PollLoop = True"
| "main_stmt s = False"

text \<open>Steps still to be made at most once the context is cancelled, goroutines not yet started included.\<close>

fun size1 :: "stmt \<Rightarrow> nat" where
  "size1 (GoStmt r) = 1 + length (code_of r)"
| "size1 s = 1"

definition work :: "crawl \<Rightarrow> nat" where
  "work s = (\<Sum>x\<leftarrow>main_code s. size1 x) + (\<Sum>t\<leftarrow>routines s. length (snd t)) + pending (shared_of s)"

text \<open>The goroutines a piece of code starts, and whether it waits for the cancellation or causes it.\<close>

definition spawns :: "code \<Rightarrow> routine list" where
  "spawns c = concat (map (\<lambda>x. case x of GoStmt r \<Rightarrow> [r] | _ \<Rightarrow> []) c)"

definition awaits :: "code \<Rightarrow> bool" where
  "awaits c \<longleftrightarrow> AwaitDone \<in> set c \<or> StopFn \<in> set c"

lemma main_step:
  assumes "\<forall>s \<in> set c. main_stmt s" "(sh', c') \<in> set (succs sh c)"
  shows "suffix c' c \<and> accounted sh c sh' c' \<and> pending sh' = pending sh \<and>
    spawns c' = spawns c \<and> (awaits c \<longrightarrow> awaits c' \<or> ctxErr sh') \<and>
    (ctxErr sh \<longrightarrow> (\<Sum>x\<leftarrow>c'. size1 x) < (\<Sum>x\<leftarrow>c. size1 x))"
proof (cases c)
  case (Cons x d)
  show ?thesis using assms unfolding Cons
    by (cases x) (auto simp: accounted_def wg_count_def add_counter_def pending_def spawns_def awaits_def suffix_Cons split: if_splits group.splits)
qed (use assms in simp)

lemma main_last_step:
  "(sh', []) \<in> set (succs sh c) \<Longrightarrow> \<forall>s \<in> set c. main_stmt s \<Longrightarrow> last c = WaitWG RootWG \<Longrightarrow> rootWG sh' = 0"
  by (cases c; cases "hd c") (auto simp: wg_count_def split: if_splits)

lemma exec_cases:
  assumes "exec e s = Some s'"
  obtains (go) r c where "main_code s = GoStmt r # c" "s' = s\<lparr>main_code := c, routines := routines s @ [(r, code_of r)]\<rparr>"
    | (main) sh c where "(sh, c) \<in> set (succs (shared_of s) (main_code s))" "s' = s\<lparr>shared_of := sh, main_code := c\<rparr>"
    | (routine) i r c sh c' where "i < length (routines s)" "routines s ! i = (r, c)"
        "(sh, c') \<in> set (succs (shared_of s) c)" "s' = s\<lparr>shared_of := sh, routines := (routines s)[i := (r, c')]\<rparr>"
    | (stop) "s' = s\<lparr>shared_of := (shared_of s)\<lparr>ctxErr := True\<rparr>\<rparr>" "e = Stop_Requested"
    | (tick) "s' = s\<lparr>shared_of := (shared_of s)\<lparr>snapDue := True\<rparr>\<rparr>" "e = Snap_Tick"
proof (cases e)
  case (Main_Step k)
  show thesis
  proof (cases "\<exists>r c. main_code s = GoStmt r # c")
    case True
    then show thesis using assms go unfolding Main_Step by auto
  next
    case False
    then have "exec e s = (let alts = succs (shared_of s) (main_code s) in
       if k < length alts then Some (s\<lparr>shared_of := fst (alts ! k), main_code := snd (alts ! k)\<rparr>) else None)"
      unfolding Main_Step by (auto split: list.splits stmt.splits)
    then show thesis using assms main by (auto simp: Let_def split: if_splits) (metis nth_mem prod.collapse)
  qed
next
  case (Routine_Step i k)
  then show thesis using assms routine [of i "fst (routines s ! i)" "snd (routines s ! i)"]
    by (auto simp: Let_def split: if_splits) (metis nth_mem prod.collapse)
qed (use assms stop tick in auto)

lemma sum_list_replace:
  fixes f :: "'a \<Rightarrow> int"
  shows "i < length xs \<Longrightarrow> (\<Sum>x\<leftarrow>xs[i := y]. f x) = (\<Sum>x\<leftarrow>xs. f x) - f (xs ! i) + f y"
  by (induction xs arbitrary: i) (auto split: nat.splits)

lemma same_routines: "xs ! i = (r, c) \<Longrightarrow> map fst (xs[i := (r, c')]) = map fst xs"
  by (metis fst_conv list_update_id map_update)

lemma sum_list_shrink:
  fixes f :: "'a \<Rightarrow> nat"
  shows "i < length xs \<Longrightarrow> (\<Sum>x\<leftarrow>xs[i := y]. f x) + f (xs ! i) = (\<Sum>x\<leftarrow>xs. f x) + f y"
  by (induction xs arbitrary: i) (auto split: nat.splits)

fun goroutine_step :: "event \<Rightarrow> bool" where
  "goroutine_step (Main_Step k) = True"
| "goroutine_step (Routine_Step i k) = True"
| "goroutine_step e = False"

lemma exec_routine:
  "i < length (routines s) \<Longrightarrow> succs (shared_of s) (snd (routines s ! i)) = (sh, c) # cs \<Longrightarrow>
   exec (Routine_Step i 0) s = Some (s\<lparr>shared_of := sh, routines := (routines s)[i := (fst (routines s ! i), c)]\<rparr>)"
  by simp

lemma exec_all_append: "exec_all (es @ fs) s = Option.bind (exec_all es s) (exec_all fs)"
proof (induction es arbitrary: s)
  case (Cons e es)
  then show ?case by (cases "exec e s") simp_all
qed simp

lemma exec_all_reachable: "reachable p s \<Longrightarrow> exec_all es s = Some s' \<Longrightarrow> reachable p s'"
  by (induction es arbitrary: s) (auto split: bind_splits intro: reachable.step)

section \<open>Programs that start and join goroutines\<close>

definition owes :: "group \<Rightarrow> crawl \<Rightarrow> int" where
  "owes g s = owed g (main_code s) + (\<Sum>t\<leftarrow>routines s. owed g (snd t))"

definition untested :: "crawl \<Rightarrow> int" where
  "untested s = unfinished (main_code s) + (\<Sum>t\<leftarrow>routines s. unfinished (snd t))"

definition starts_workers :: "stmt \<Rightarrow> bool" where
  "starts_workers x \<longleftrightarrow> x = GoStmt WorkerR \<or> (\<exists>k. x = AddWG WorkersWG k)"

definition ended :: "routine \<Rightarrow> crawl \<Rightarrow> bool" where
  "ended r s \<longleftrightarrow> (\<forall>c. (r, c) \<in> set (routines s) \<longrightarrow> c = [])"

text \<open>The state of a run of the program \<open>p\<close>.\<close>

definition sound :: "code \<Rightarrow> crawl \<Rightarrow> bool" where
  "sound p s \<longleftrightarrow> suffix (main_code s) p \<and> (\<forall>(r, c) \<in> set (routines s). c \<in> set (points r)) \<and>
     (\<forall>g. wg_count g (shared_of s) = owes g s) \<and> finishedTests (shared_of s) + untested s = unfinished p \<and>
     (main_code s = [] \<longrightarrow> rootWG (shared_of s) = 0) \<and>
     map fst (routines s) @ spawns (main_code s) = spawns p \<and> (awaits (main_code s) \<or> ctxErr (shared_of s))"

definition supervision :: "crawl \<Rightarrow> bool" where
  "supervision s \<longleftrightarrow>
     (GoStmt SupervisorR \<in> set (main_code s) \<longrightarrow> (\<forall>c. (SupervisorR, c) \<notin> set (routines s))) \<and>
     ((\<exists>c. (WorkerR, c) \<in> set (routines s)) \<longrightarrow>
        GoStmt SupervisorR \<in> set (main_code s) \<or> (\<exists>c. (SupervisorR, c) \<in> set (routines s))) \<and>
     (\<forall>c. (SupervisorR, c) \<in> set (routines s) \<longrightarrow> WaitWG WorkersWG \<notin> set c \<longrightarrow> ended WorkerR s) \<and>
     (\<forall>c. (SupervisorR, c) \<in> set (routines s) \<longrightarrow> StopFn \<notin> set c \<longrightarrow> ctxErr (shared_of s))"

lemma sound_point: "sound p s \<Longrightarrow> (r, c) \<in> set (routines s) \<Longrightarrow> c \<in> set (points r)"
  by (auto simp: sound_def)

lemma owed_none: "\<forall>t \<in> set ts. owed g (snd t) = 0 \<Longrightarrow> (\<Sum>t\<leftarrow>ts. owed g (snd t)) = 0"
  by (induction ts) simp_all

lemma sound_counter: "sound p s \<Longrightarrow> wg_count g (shared_of s) = owes g s"
  by (simp add: sound_def)

lemma owed_routines:
  assumes "sound p s"
  shows "0 \<le> (\<Sum>t\<leftarrow>routines s. owed g (snd t))"
    and "(\<Sum>t\<leftarrow>routines s. owed g (snd t)) = 0 \<Longrightarrow> (r, c) \<in> set (routines s) \<Longrightarrow> owed g c = 0"
proof -
  have *: "\<forall>t \<in> set (routines s). 0 \<le> owed g (snd t)"
    using sound_point [OF assms] point_owes_nothing by fastforce
  then show "0 \<le> (\<Sum>t\<leftarrow>routines s. owed g (snd t))"
    by (intro sum_list_nonneg) auto
  show "(\<Sum>t\<leftarrow>routines s. owed g (snd t)) = 0 \<Longrightarrow> (r, c) \<in> set (routines s) \<Longrightarrow> owed g c = 0"
    using * by (subst (asm) sum_list_nonneg_eq_0_iff) force+
qed

lemma owes_go:
  "main_code s = GoStmt r # c \<Longrightarrow> s' = s\<lparr>main_code := c, routines := routines s @ [(r, code_of r)]\<rparr> \<Longrightarrow>
   owes g s' = owes g s \<and> untested s' = untested s"
  by (simp add: owes_def untested_def owed_code_of)

lemma owes_main:
  "accounted (shared_of s) (main_code s) sh c \<Longrightarrow> s' = s\<lparr>shared_of := sh, main_code := c\<rparr> \<Longrightarrow>
   wg_count g sh - owes g s' = wg_count g (shared_of s) - owes g s \<and>
   finishedTests sh + untested s' = finishedTests (shared_of s) + untested s"
  unfolding owes_def untested_def accounted_def by (auto simp: algebra_simps)

lemma owes_routine:
  "accounted (shared_of s) c sh c' \<Longrightarrow> i < length (routines s) \<Longrightarrow> routines s ! i = (r, c) \<Longrightarrow>
   s' = s\<lparr>shared_of := sh, routines := (routines s)[i := (r, c')]\<rparr> \<Longrightarrow>
   wg_count g sh - owes g s' = wg_count g (shared_of s) - owes g s \<and>
   finishedTests sh + untested s' = finishedTests (shared_of s) + untested s"
  unfolding owes_def untested_def accounted_def by (auto simp: algebra_simps sum_list_replace)

lemma short_codes: "c \<in> set (points r) \<Longrightarrow> length c \<le> 6"
  by (cases r; auto simp: points_def tick_points_def Let_def)

lemma length_sum: "(\<And>r c. (r, c) \<in> set ts \<Longrightarrow> length c \<le> k) \<Longrightarrow> (\<Sum>t\<leftarrow>ts. length (snd t)) \<le> k * length (map fst ts)"
proof (induction ts)
  case (Cons t ts)
  then have "length (snd t) \<le> k" "(\<Sum>t\<leftarrow>ts. length (snd t)) \<le> k * length (map fst ts)"
    by (cases t, auto)+
  then show ?case by simp
qed simp

lemma size_sum: "(\<Sum>x\<leftarrow>c. size1 x) \<le> length c + 6 * length (spawns c)"
proof (induction c)
  case (Cons x c)
  then show ?case
  proof (cases x)
    case (GoStmt r)
    then show ?thesis using Cons short_codes [OF code_of_point, of r] by (simp add: spawns_def)
  qed (simp_all add: spawns_def)
qed simp

text \<open>
  The laws: the main goroutine returns only after waiting for everything, counters are raised before
  the goroutines that lower them are started, and the supervisor is started after all workers.
\<close>

locale program =
  fixes p :: code
  assumes main_only: "x \<in> set p \<Longrightarrow> main_stmt x"
    and balanced: "owed g p = 0"
    and solvent: "suffix c p \<Longrightarrow> 0 \<le> owed g c"
    and supervised: "suffix c p \<Longrightarrow> GoStmt SupervisorR \<notin> set c \<Longrightarrow> x \<in> set c \<Longrightarrow> \<not> starts_workers x"
    and one_supervisor: "suffix (GoStmt SupervisorR # c) p \<Longrightarrow> GoStmt SupervisorR \<notin> set c"
    and waits_last: "suffix (WaitWG g # c) p \<Longrightarrow> g = RootWG \<and> c = []"
    and cancelled_first: "awaits p"
    and waits: "p \<noteq> []" "last p = WaitWG RootWG"
begin

lemma nonnegative: "sound p s \<Longrightarrow> 0 \<le> wg_count g (shared_of s)"
  using owed_routines(1) [of p s g] solvent [of "main_code s" g] by (simp add: sound_def owes_def)

lemma nothing_owed:
  assumes "sound p s" "wg_count g (shared_of s) = 0"
  shows "owed g (main_code s) = 0" and "(r, c) \<in> set (routines s) \<Longrightarrow> owed g c = 0"
proof -
  have "0 \<le> owed g (main_code s)" "owes g s = 0"
    using assms solvent by (auto simp: sound_def)
  then have "owed g (main_code s) = 0 \<and> (\<Sum>t\<leftarrow>routines s. owed g (snd t)) = 0"
    using owed_routines(1) [OF assms(1), of g] unfolding owes_def by linarith
  then show "owed g (main_code s) = 0" "(r, c) \<in> set (routines s) \<Longrightarrow> owed g c = 0"
    using owed_routines(2) [OF assms(1)] by auto
qed

lemma main_stmts: "sound p s \<Longrightarrow> x \<in> set (main_code s) \<Longrightarrow> main_stmt x"
  using main_only set_mono_suffix unfolding sound_def by blast

lemma last_is_wait: "suffix c p \<Longrightarrow> c \<noteq> [] \<Longrightarrow> last c = WaitWG RootWG"
  using waits by (auto simp: suffix_def)

lemma sound_step:
  assumes s: "sound p s" and e: "exec e s = Some s'"
  shows "sound p s'"
  using e
proof (cases rule: exec_cases)
  case (go r c)
  have "suffix c p" using s go(1) by (auto simp: sound_def dest: suffix_ConsD)
  moreover have "c \<noteq> []" using last_is_wait [of "main_code s"] s go(1) by (auto simp: sound_def)
  moreover have "spawns (main_code s) = r # spawns c" "awaits c = awaits (main_code s)"
    by (simp_all add: go(1) spawns_def awaits_def)
  ultimately show ?thesis using s code_of_point owes_go [OF go] unfolding sound_def go(2) by auto
next
  case (main sh c)
  have a: "suffix c (main_code s)" "accounted (shared_of s) (main_code s) sh c"
      "spawns c = spawns (main_code s)" "awaits (main_code s) \<longrightarrow> awaits c \<or> ctxErr sh"
    using main_step [OF _ main(1)] main_stmts [OF s] by auto
  have z: "rootWG sh = 0" if "c = []"
  proof (rule main_last_step)
    show "(sh, []) \<in> set (succs (shared_of s) (main_code s))" using main(1) that by simp
    then show "last (main_code s) = WaitWG RootWG"
      using last_is_wait [of "main_code s"] s by (cases "main_code s") (auto simp: sound_def)
  qed (use main_stmts [OF s] in simp)
  show ?thesis
    using s a z owes_main [OF a(2) main(2)] suffix_order.trans unfolding sound_def
    by (auto simp: main(2) accounted_def)
next
  case (routine i r c sh c')
  have m: "(r, c) \<in> set (routines s)" using routine(1,2) by (metis nth_mem)
  have a: "c' \<in> set (points r)" "accounted (shared_of s) c sh c'"
    using point_step [OF sound_point [OF s m] routine(3)] by auto
  have p: "\<forall>(r, c) \<in> set (routines s'). c \<in> set (points r)"
    using s a(1) unfolding sound_def by (auto simp: routine(4) dest!: set_update_subset_insert [THEN subsetD])
  have z: "rootWG sh = 0" if "main_code s = []"
  proof -
    have "rootWG (shared_of s) = 0" using s that by (simp add: sound_def)
    then have "owed RootWG c = 0" using nothing_owed(2) [OF s _ m, of RootWG] by (simp add: wg_count_def)
    moreover have "owed RootWG c' = 0"
      using point_step [OF sound_point [OF s m] routine(3)] point_owes_nothing [OF a(1), of RootWG] calculation
      by (metis order_antisym)
    ultimately show ?thesis
      using a(2) \<open>rootWG (shared_of s) = 0\<close> by (auto simp: accounted_def group_all wg_count_def)
  qed
  show ?thesis
    using s p z same_routines [OF routine(2)] owes_routine [OF a(2) routine(1,2,4)] a(2) unfolding sound_def
    by (auto simp: routine(4) accounted_def)
qed (use s in \<open>auto simp: sound_def owes_def untested_def wg_count_def split: group.splits\<close>)

lemma supervision_go:
  assumes "sound p s" "supervision s" "main_code s = GoStmt r # c"
  shows "supervision (s\<lparr>main_code := c, routines := routines s @ [(r, code_of r)]\<rparr>)"
proof -
  have x: "suffix (GoStmt r # c) p" using assms by (simp add: sound_def)
  have "GoStmt SupervisorR \<in> set c" if "r = WorkerR"
    using supervised [OF x, of "GoStmt r"] that by (auto simp: starts_workers_def)
  moreover have "GoStmt SupervisorR \<notin> set c" if "r = SupervisorR"
    using one_supervisor x that by blast
  ultimately show ?thesis using assms(2,3) unfolding supervision_def ended_def
    by (cases "r = SupervisorR"; cases "r = WorkerR") auto
qed

lemma supervision_main:
  assumes "sound p s" "supervision s" "(sh, c) \<in> set (succs (shared_of s) (main_code s))"
  shows "supervision (s\<lparr>shared_of := sh, main_code := c\<rparr>)"
proof -
  have a: "suffix c (main_code s)" "spawns c = spawns (main_code s)" "accounted (shared_of s) (main_code s) sh c"
    using main_step [OF _ assms(3)] main_stmts [OF assms(1)] by auto
  have "GoStmt SupervisorR \<in> set d \<longleftrightarrow> SupervisorR \<in> set (spawns d)" for d
    by (auto simp: spawns_def split: stmt.splits intro: bexI [of _ "GoStmt SupervisorR"])
  then show ?thesis using assms(2) a(2,3) unfolding supervision_def ended_def accounted_def by auto
qed

lemma supervision_routine:
  assumes s: "sound p s" "supervision s" and i: "i < length (routines s)" "routines s ! i = (r, c)"
    and e: "(sh, c') \<in> set (succs (shared_of s) c)"
  shows "supervision (s\<lparr>shared_of := sh, routines := (routines s)[i := (r, c')]\<rparr>)"
proof -
  have m: "(r, c) \<in> set (routines s)" using i by (metis nth_mem)
  note c = sound_point [OF s(1) m]
  have new: "(q, d) \<in> set ((routines s)[i := (r, c')]) \<Longrightarrow> (q, d) = (r, c') \<or> (q, d) \<in> set (routines s)" for q d
    by (meson set_update_subset_insert subsetD insertE)
  have kept: "(\<exists>d. (q, d) \<in> set ((routines s)[i := (r, c')])) = (\<exists>d. (q, d) \<in> set (routines s))" for q
  proof -
    have "(\<exists>d. (q, d) \<in> set l) = (q \<in> set (map fst l))" for l :: "(routine \<times> code) list" by force
    then show ?thesis by (metis same_routines i(2))
  qed
  have stays: "ended WorkerR s \<Longrightarrow> (WorkerR, d) \<in> set ((routines s)[i := (r, c')]) \<Longrightarrow> d = []" for d
    using new [of WorkerR d] m e unfolding ended_def by auto
  have stop: "ctxErr (shared_of s) \<Longrightarrow> ctxErr sh"
    using point_step [OF c e] by (simp add: accounted_def)
  have past: "ended WorkerR s" if "r = SupervisorR" "WaitWG WorkersWG \<notin> set c'"
  proof (cases "WaitWG WorkersWG \<in> set c")
    case True
    then have "workersWG (shared_of s) = 0" using supervisor_waits [OF _ True e that(2)] c that(1) by simp
    then have "(WorkerR, d) \<in> set (routines s) \<Longrightarrow> owed WorkersWG d = 0" for d
      using nothing_owed(2) [OF s(1), of WorkersWG] by (simp add: wg_count_def)
    then show ?thesis using worker_point_ended sound_point [OF s(1)] unfolding ended_def by blast
  qed (use s(2) m that(1) in \<open>auto simp: supervision_def\<close>)
  have halt: "ctxErr sh" if "r = SupervisorR" "StopFn \<notin> set c'"
    using that c e stop s(2) m by (auto simp: points_def supervision_def split: if_splits)
  let ?s = "s\<lparr>shared_of := sh, routines := (routines s)[i := (r, c')]\<rparr>"
  have workers: "ended WorkerR s \<Longrightarrow> ended WorkerR ?s" using stays by (simp add: ended_def)
  have "(SupervisorR, d) \<in> set (routines ?s) \<Longrightarrow> WaitWG WorkersWG \<notin> set d \<Longrightarrow> ended WorkerR ?s" for d
    using new [of SupervisorR d] past workers s(2) unfolding supervision_def by auto
  moreover have "(SupervisorR, d) \<in> set (routines ?s) \<Longrightarrow> StopFn \<notin> set d \<Longrightarrow> ctxErr sh" for d
    using new [of SupervisorR d] halt stop s(2) unfolding supervision_def by auto
  moreover have "GoStmt SupervisorR \<in> set (main_code s) \<Longrightarrow> (SupervisorR, d) \<notin> set (routines ?s)" for d
    using kept [of SupervisorR] s(2) unfolding supervision_def by auto
  moreover have "(WorkerR, d) \<in> set (routines ?s) \<Longrightarrow> GoStmt SupervisorR \<in> set (main_code s) \<or> (\<exists>d. (SupervisorR, d) \<in> set (routines ?s))" for d
    using kept [of SupervisorR] kept [of WorkerR] s(2) unfolding supervision_def by auto
  ultimately show ?thesis unfolding supervision_def by auto
qed

lemma supervision_step: "sound p s \<Longrightarrow> supervision s \<Longrightarrow> exec e s = Some s' \<Longrightarrow> supervision s'"
  by (erule exec_cases)
    (auto simp: supervision_go supervision_main supervision_routine, auto simp: supervision_def ended_def)

lemma reachable_sound: "reachable p s \<Longrightarrow> sound p s \<and> supervision s"
proof (induction rule: reachable.induct)
  case start
  show ?case using balanced cancelled_first waits(1)
    by (simp add: sound_def supervision_def launched_def owes_def untested_def wg_count_def ended_def split: group.splits)
qed (blast intro: sound_step supervision_step)

lemma joined:
  assumes "sound p s" "supervision s" "main_code s = []" "(r, c) \<in> set (routines s)"
  shows "c = []"
proof -
  have z: "(q, d) \<in> set (routines s) \<Longrightarrow> q \<noteq> WorkerR \<Longrightarrow> d = []" for q d
    using nothing_owed(2) [OF assms(1), of RootWG] assms(1,3) point_ended sound_point [OF assms(1)]
    by (metis sound_def wg_count_def group.simps(3))
  show ?thesis
  proof (cases "r = WorkerR")
    case True
    then obtain d where "(SupervisorR, d) \<in> set (routines s)"
      using assms by (auto simp: supervision_def)
    moreover from this have "d = []" using z by blast
    ultimately show ?thesis using assms True by (auto simp: supervision_def ended_def)
  qed (use z assms(4) in blast)
qed

lemma work_step:
  assumes s: "sound p s" and c: "ctxErr (shared_of s)" and e: "exec e s = Some s'"
  shows "ctxErr (shared_of s') \<and>
    work s' + (if goroutine_step e then 1 else 0) \<le> work s + (if e = Snap_Tick then 2 else 0)"
proof -
  have one: "work s' < work s \<Longrightarrow> ctxErr (shared_of s') \<Longrightarrow> ?thesis" by (cases e) auto
  show ?thesis using e
  proof (cases rule: exec_cases)
    case (go r d)
    then show ?thesis using c by (intro one) (simp_all add: work_def)
  next
    case (main sh d)
    then show ?thesis using c main_step [OF _ main(1)] main_stmts [OF s]
      by (intro one) (auto simp: work_def accounted_def)
  next
    case (routine i r d sh d')
    have "(r, d) \<in> set (routines s)" using routine(1,2) by (metis nth_mem)
    from point_step [OF sound_point [OF s this] routine(3)] show ?thesis
      using c sum_list_shrink [OF routine(1), of "\<lambda>t. length (snd t)" "(r, d')"] routine(2)
      by (intro one) (auto simp: work_def accounted_def routine(4))
  qed (use c in \<open>auto simp: work_def pending_def\<close>)
qed

lemma work_run:
  "reachable p s \<Longrightarrow> ctxErr (shared_of s) \<Longrightarrow> exec_all es s = Some s' \<Longrightarrow>
   ctxErr (shared_of s') \<and> length (filter goroutine_step es) + work s' \<le> work s + 2 * count_list es Snap_Tick"
proof (induction es arbitrary: s)
  case (Cons e es)
  then obtain t where t: "exec e s = Some t" "exec_all es t = Some s'" by (auto split: bind_splits)
  have "ctxErr (shared_of t) \<and> work t + (if goroutine_step e then 1 else 0) \<le> work s + (if e = Snap_Tick then 2 else 0)"
    using work_step reachable_sound Cons.prems t(1) by blast
  moreover have "reachable p t" using Cons.prems(1) t(1) by (rule reachable.step)
  ultimately show ?case using Cons.IH [OF _ _ t(2)] by (auto split: if_splits)
qed simp

lemma not_stuck:
  assumes s: "sound p s" "supervision s" and c: "ctxErr (shared_of s)" and m: "main_code s \<noteq> []"
  shows "\<exists>e s'. goroutine_step e \<and> exec e s = Some s'"
proof (rule ccontr)
  assume no: "\<not> ?thesis"
  have no_main: "exec (Main_Step 0) s = None" and no_routine: "exec (Routine_Step i 0) s = None" for i
    using no by (meson goroutine_step.simps(1,2) not_None_eq)+
  have w: "(r, d) \<in> set (routines s) \<Longrightarrow> d \<noteq> [] \<Longrightarrow> r = SupervisorR \<and> workersWG (shared_of s) \<noteq> 0 \<and> WaitWG WorkersWG \<in> set d" for r d
  proof -
    assume d: "(r, d) \<in> set (routines s)" "d \<noteq> []"
    then obtain i where "i < length (routines s)" "routines s ! i = (r, d)" by (auto simp: in_set_conv_nth)
    then have "succs (shared_of s) d = []"
      using no_routine [of i] by (cases "succs (shared_of s) d") auto
    then show ?thesis using point_blocked [OF sound_point [OF s(1) d(1)] d(2) _ c] by blast
  qed
  obtain x d where x: "main_code s = x # d" using m by (cases "main_code s") auto
  have "main_stmt x" using main_stmts [OF s(1)] x by simp
  then obtain g where g: "x = WaitWG g" using no_main c unfolding exec.simps x
    by (cases x) (auto split: if_splits)
  have gd: "g = RootWG" "d = []" using waits_last [of g d] s(1) by (auto simp: sound_def x g)
  have x': "x = WaitWG RootWG" "d = []" "wg_count RootWG (shared_of s) \<noteq> 0"
    using no_main by (auto simp: x g gd split: if_splits)
  have "\<exists>r c. (r, c) \<in> set (routines s) \<and> c \<noteq> []"
  proof (rule ccontr)
    assume "\<not> ?thesis"
    then have "\<forall>t \<in> set (routines s). owed RootWG (snd t) = 0" by (metis owed_Nil(1) prod.collapse)
    then have "(\<Sum>t\<leftarrow>routines s. owed RootWG (snd t)) = 0" by (rule owed_none)
    then show False using x' x sound_counter [OF s(1), of RootWG] by (simp add: owes_def)
  qed
  then obtain c where c': "(SupervisorR, c) \<in> set (routines s)" "workersWG (shared_of s) \<noteq> 0" using w by blast
  moreover have "(r, d) \<in> set (routines s) \<Longrightarrow> owed WorkersWG d = 0" for r d
    using w [of r d] sound_point [OF s(1)] supervisor_owes by (cases "d = []") auto
  then have "(\<Sum>t\<leftarrow>routines s. owed WorkersWG (snd t)) = 0" by (intro owed_none) auto
  ultimately show False
    using sound_counter [OF s(1), of WorkersWG] x x' by (simp add: owes_def wg_count_def)
qed

lemma shutdown_completes:
  "reachable p s \<Longrightarrow> ctxErr (shared_of s) \<Longrightarrow>
   \<exists>es s'. list_all goroutine_step es \<and> exec_all es s = Some s' \<and> main_code s' = []"
proof (induction "work s" arbitrary: s rule: less_induct)
  case less
  show ?case
  proof (cases "main_code s = []")
    case True
    then show ?thesis by (intro exI [of _ "[]"] exI [of _ s]) simp
  next
    case False
    then obtain e t where e: "goroutine_step e" "exec e s = Some t"
      using not_stuck reachable_sound less.prems by blast
    then have "work t < work s" "ctxErr (shared_of t)"
      using work_step [of s e t] reachable_sound less.prems by (cases e; auto)+
    then obtain es s' where "list_all goroutine_step es \<and> exec_all es t = Some s' \<and> main_code s' = []"
      using less reachable.step [OF less.prems(1) e(2)] by blast
    then have "list_all goroutine_step (e # es) \<and> exec_all (e # es) s = Some s' \<and> main_code s' = []"
      using e by simp
    then show ?thesis by blast
  qed
qed

lemma work_bound:
  assumes "sound p s"
  shows "work s \<le> 6 * length (spawns p) + length p + 2"
proof -
  have "(\<Sum>t\<leftarrow>routines s. length (snd t)) \<le> 6 * length (map fst (routines s))"
    using sound_point [OF assms] short_codes by (intro length_sum) blast
  moreover have "(\<Sum>x\<leftarrow>main_code s. size1 x) \<le> length (main_code s) + 6 * length (spawns (main_code s))"
    by (rule size_sum)
  moreover have "length (map fst (routines s)) + length (spawns (main_code s)) = length (spawns p)"
    "length (main_code s) \<le> length p"
    using assms arg_cong [of _ _ length] suffix_length_le unfolding sound_def by (metis length_append, blast)
  ultimately show ?thesis unfolding work_def pending_def by (auto split: if_splits)
qed

lemma returned:
  assumes "reachable p s"
  shows "0 \<le> wg_count g (shared_of s)"
    and "main_code s = [] \<Longrightarrow> ctxErr (shared_of s) \<and> finishedTests (shared_of s) = unfinished p \<and>
      routines s = map (\<lambda>r. (r, [])) (spawns p)"
proof -
  note s = reachable_sound [OF assms]
  show "0 \<le> wg_count g (shared_of s)" using s nonnegative by blast
  assume m: "main_code s = []"
  have e: "snd t = []" if "t \<in> set (routines s)" for t
    using joined [of s "fst t" "snd t"] s m that by simp
  then have "untested s = 0" using m by (simp add: untested_def cong: map_cong)
  moreover have "map fst (routines s) = spawns p" "ctxErr (shared_of s)"
    using s m by (auto simp: sound_def awaits_def spawns_def)
  moreover have "routines s = map (\<lambda>r. (r, [])) (map fst (routines s))"
    unfolding map_map by (rule map_idI [symmetric]) (simp add: e prod_eq_iff)
  ultimately show "ctxErr (shared_of s) \<and> finishedTests (shared_of s) = unfinished p \<and>
      routines s = map (\<lambda>r. (r, [])) (spawns p)" using s by (simp add: sound_def)
qed

lemma shuts_down:
  assumes "reachable p s" "ctxErr (shared_of s)" "exec_all es s = Some s'"
  shows "length (filter goroutine_step es) \<le> 6 * length (spawns p) + length p + 2 + 2 * count_list es Snap_Tick"
    and "main_code s' = [] \<or> (\<exists>e. goroutine_step e \<and> exec e s' \<noteq> None)"
  using work_run [OF assms] work_bound [of s] not_stuck [of s'] reachable_sound [OF assms(1)]
    reachable_sound [OF exec_all_reachable [OF assms(1,3)]] by auto

end

section \<open>The crawl and the test run\<close>

text \<open>The laws of \<open>program\<close>, checked statement by statement.\<close>

fun lawful :: "code \<Rightarrow> bool" where
  "lawful [] \<longleftrightarrow> True"
| "lawful (x # c) \<longleftrightarrow> main_stmt x \<and> 0 \<le> owed RootWG (x # c) \<and> 0 \<le> owed WorkersWG (x # c) \<and>
     (starts_workers x \<longrightarrow> GoStmt SupervisorR \<in> set c) \<and> (x = GoStmt SupervisorR \<longrightarrow> GoStmt SupervisorR \<notin> set c) \<and>
     (x \<in> {WaitWG RootWG, WaitWG WorkersWG} \<longrightarrow> x = WaitWG RootWG \<and> c = []) \<and> lawful c"

lemma lawful_suffix: "suffix c p \<Longrightarrow> lawful p \<Longrightarrow> lawful c"
  by (induction p) (auto simp: suffix_Cons)

lemma lawful_main: "lawful p \<Longrightarrow> x \<in> set p \<Longrightarrow> main_stmt x"
  by (induction p) auto

lemma lawful_supervised: "lawful p \<Longrightarrow> x \<in> set p \<Longrightarrow> starts_workers x \<Longrightarrow> GoStmt SupervisorR \<in> set p"
  by (induction p) auto

lemma lawful_solvent: "lawful p \<Longrightarrow> 0 \<le> owed g p"
  by (cases p; cases g) auto

lemma lawful_program:
  assumes "lawful p" "\<forall>g. owed g p = 0" "awaits p" "p \<noteq> []" "last p = WaitWG RootWG"
  shows "program p"
proof
  fix g c assume "suffix (WaitWG g # c) p"
  from lawful_suffix [OF this assms(1)] show "g = RootWG \<and> c = []" by (cases g) auto
next
  fix c assume "suffix (GoStmt SupervisorR # c) p"
  from lawful_suffix [OF this assms(1)] show "GoStmt SupervisorR \<notin> set c" by auto
qed (use assms lawful_suffix lawful_main lawful_supervised lawful_solvent in \<open>blast+\<close>)

definition rounds :: "nat \<Rightarrow> stmt \<Rightarrow> stmt \<Rightarrow> code" where
  "rounds k a b = concat (replicate k [a, b])"

lemma rounds_simps [simp]:
  "rounds 0 a b = []" "rounds (Suc k) a b = a # b # rounds k a b"
  "owed g (rounds k a b) = int k * (owed1 g a + owed1 g b)"
  "spawns (a # c) = (case a of GoStmt r \<Rightarrow> [r] | _ \<Rightarrow> []) @ spawns c" "spawns (c @ d) = spawns c @ spawns d" "spawns [] = []"
  "unfinished (rounds k a b) = int k * (unfinished1 a + unfinished1 b)"
  "length (rounds k a b) = 2 * k"
  by (induction k) (auto simp: rounds_def spawns_def algebra_simps)

lemma spawns_rounds [simp]: "spawns (rounds k (AddWG g i) (GoStmt r)) = replicate k r"
  by (induction k) auto

lemma rounds_set: "x \<in> set (rounds k a b) \<Longrightarrow> x = a \<or> x = b"
  by (induction k) auto

lemma main_crawl_rounds: "main_crawl n = scheduler_Run @ checkpoint_Run @ AddWG RootWG 1 #
    rounds (nat n) (AddWG WorkersWG 1) (GoStmt WorkerR) @ [GoStmt SupervisorR, AwaitDone, WaitWG RootWG]"
  by (simp add: main_crawl_def crawler_Run_def rounds_def)

lemma main_test_rounds: "main_test n = scheduler_Run @ rounds (nat n) (AddWG RootWG 1) (GoStmt TestWorkerR) @
    [PollLoop, StopFn, WaitWG RootWG]"
  by (simp add: main_test_def rounds_def)

lemma lawful_workers:
  "lawful (rounds k (AddWG WorkersWG 1) (GoStmt WorkerR) @ [GoStmt SupervisorR, AwaitDone, WaitWG RootWG])"
  by (induction k) (auto simp: starts_workers_def)

lemma lawful_test_workers: "lawful (rounds k (AddWG RootWG 1) (GoStmt TestWorkerR) @ [PollLoop, StopFn, WaitWG RootWG])"
  by (induction k) (auto simp: starts_workers_def)

interpretation crawl: program "main_crawl n" for n
proof (rule lawful_program)
  show "lawful (main_crawl n)"
    by (auto simp: main_crawl_rounds scheduler_Run_def checkpoint_Run_def lawful_workers starts_workers_def dest!: rounds_set)
qed (auto simp: main_crawl_rounds scheduler_Run_def checkpoint_Run_def awaits_def group_all)

interpretation test_crawl: program "main_test n" for n
proof (rule lawful_program)
  show "lawful (main_test n)"
    by (auto simp: main_test_rounds scheduler_Run_def lawful_test_workers starts_workers_def dest!: rounds_set)
qed (auto simp: main_test_rounds scheduler_Run_def awaits_def group_all)

section \<open>Shutdown\<close>

text \<open>C13: The wait group counters are never negative, so no goroutine panics. When main has returned from a
  crawl, the context is cancelled and every goroutine registered on the wait groups, namely the seven
  reconcilers, the checkpoint reconciler, the workers and the supervisor, has run to its end. A test run
  joins its reconcilers and workers in the same way, and every worker has been counted as finished. The
  metrics server and the signal handler, which main starts before them and registers on no wait group,
  are not waited for and end with the process.\<close>

theorem goroutines_joined:
  "(reachable (main_crawl n) s \<longrightarrow> 0 \<le> rootWG (shared_of s) \<and> 0 \<le> workersWG (shared_of s) \<and>
      (main_code s = [] \<longrightarrow> ctxErr (shared_of s) \<and>
         routines s = map (\<lambda>r. (r, [])) ([ListingScheduler, Promoter, Reaper, Sweeper, BloomMonitor, Heartbeat, Snapshotter,
           CrawlStateCheckpoint] @ replicate (nat n) WorkerR @ [SupervisorR]))) \<and>
   (reachable (main_test n) s \<longrightarrow> 0 \<le> rootWG (shared_of s) \<and>
      (main_code s = [] \<longrightarrow> ctxErr (shared_of s) \<and> finishedTests (shared_of s) = int (nat n) \<and>
         routines s = map (\<lambda>r. (r, [])) ([ListingScheduler, Promoter, Reaper, Sweeper, BloomMonitor, Heartbeat, Snapshotter] @
           replicate (nat n) TestWorkerR)))"
  using crawl.returned(1) [of n s RootWG] crawl.returned(1) [of n s WorkersWG] crawl.returned(2) [of n s]
    test_crawl.returned(1) [of n s RootWG] test_crawl.returned(2) [of n s]
  by (simp add: wg_count_def main_crawl_rounds main_test_rounds scheduler_Run_def checkpoint_Run_def)

text \<open>One worker, stopped by a signal while it sleeps.\<close>

definition sample_shutdown :: "event list" where
  "sample_shutdown = replicate 14 (Main_Step 0) @ [Stop_Requested] @
     concat (map (\<lambda>i. [Routine_Step i 0, Routine_Step i 0]) [0..<8]) @
     replicate 3 (Routine_Step 8 0) @ replicate 3 (Routine_Step 9 0) @ [Main_Step 0, Main_Step 0]"

lemma sample_shutdown_ends: "map_option main_code (exec_all sample_shutdown (launched (main_crawl 1))) = Some []"
  by code_simp

theorem goroutines_joined_witness:
  "\<exists>s. reachable (main_crawl 1) s \<and> main_code s = [] \<and> ctxErr (shared_of s) \<and> length (routines s) = 10 \<and>
     (WorkerR, []) \<in> set (routines s) \<and> (SupervisorR, []) \<in> set (routines s)"
proof -
  obtain s where s: "exec_all sample_shutdown (launched (main_crawl 1)) = Some s" "main_code s = []"
    using sample_shutdown_ends by auto
  have "reachable (main_crawl 1) s" using exec_all_reachable [OF reachable.start s(1)] .
  with s(2) show ?thesis using goroutines_joined [of 1 s] by (intro exI [of _ s]) simp
qed

text \<open>C14: Once the context is cancelled the goroutines take at most \<open>70 + 8 n\<close> more steps, apart from two for each
  tick of the snapshotter's clock, and as long as main has not returned one of them can take a step: in
  both modes a cancelled crawl ends, without a deadlock, whatever the goroutines were doing.\<close>

theorem shutdown_ends:
  assumes "reachable p s" "p = main_crawl n \<or> p = main_test n" "ctxErr (shared_of s)"
  shows "(\<forall>es s'. exec_all es s = Some s' \<longrightarrow>
      length (filter goroutine_step es) \<le> 70 + 8 * nat n + 2 * count_list es Snap_Tick \<and>
      (main_code s' = [] \<or> (\<exists>e. goroutine_step e \<and> exec e s' \<noteq> None))) \<and>
    (\<exists>es s'. list_all goroutine_step es \<and> exec_all es s = Some s' \<and> main_code s' = [])"
proof -
  have "6 * length (spawns p) + length p + 2 \<le> 70 + 8 * nat n"
    using assms(2) by (auto simp: main_crawl_rounds main_test_rounds scheduler_Run_def checkpoint_Run_def)
  moreover have "exec_all es s = Some s' \<Longrightarrow>
      length (filter goroutine_step es) \<le> 6 * length (spawns p) + length p + 2 + 2 * count_list es Snap_Tick \<and>
      (main_code s' = [] \<or> (\<exists>e. goroutine_step e \<and> exec e s' \<noteq> None))" for es s'
    using assms crawl.shuts_down test_crawl.shuts_down by blast
  moreover have "\<exists>es s'. list_all goroutine_step es \<and> exec_all es s = Some s' \<and> main_code s' = []"
    using assms crawl.shutdown_completes test_crawl.shutdown_completes by blast
  ultimately show ?thesis by (meson add_le_mono1 le_trans)
qed

text \<open>Two workers of a test in the middle of their turns when the monitor stops the crawl.\<close>

definition sample_stop :: "event list" where
  "sample_stop = replicate 12 (Main_Step 0) @ concat (map (\<lambda>i. replicate 4 (Routine_Step i 0)) [7, 8]) @
     [Routine_Step 4 0, Routine_Step 4 1]"

theorem shutdown_ends_witness:
  "\<exists>s es s'. reachable (main_test 2) s \<and> ctxErr (shared_of s) \<and>
     snd (routines s ! 7) = [WorkTurn, WorkLoop True, CountFinished, DoneWG RootWG] \<and>
     list_all goroutine_step es \<and> exec_all es s = Some s' \<and> main_code s' = []"
proof -
  have "map_option (\<lambda>s. (ctxErr (shared_of s), snd (routines s ! 7))) (exec_all sample_stop (launched (main_test 2))) =
      Some (True, [WorkTurn, WorkLoop True, CountFinished, DoneWG RootWG])"
    by code_simp
  then obtain s where s: "exec_all sample_stop (launched (main_test 2)) = Some s" "ctxErr (shared_of s)"
    "snd (routines s ! 7) = [WorkTurn, WorkLoop True, CountFinished, DoneWG RootWG]" by auto
  then have r: "reachable (main_test 2) s" using exec_all_reachable reachable.start by blast
  then show ?thesis using shutdown_ends [OF r, of 2] s(2,3) by blast
qed

text \<open>C25: When every worker of a crawl has returned, for whatever reason, the supervisor by itself cancels the
  context in at most two steps, so a crawl without workers does not idle on; in particular one
  that was configured without workers.\<close>

theorem stopped_workers_stop_crawl:
  assumes "reachable (main_crawl n) s" "main_code s = [AwaitDone, WaitWG RootWG]" "ended WorkerR s"
  shows "\<exists>i es s'. i < length (routines s) \<and> fst (routines s ! i) = SupervisorR \<and> set es \<subseteq> {Routine_Step i 0} \<and>
    length es \<le> 2 \<and> exec_all es s = Some s' \<and> ctxErr (shared_of s')"
proof -
  have s: "sound (main_crawl n) s" "supervision s" using crawl.reachable_sound [OF assms(1)] by auto
  have "SupervisorR \<in> set (spawns (main_crawl n))" "spawns (main_code s) = []"
    by (simp_all add: main_crawl_rounds assms(2))
  then have "SupervisorR \<in> set (map fst (routines s))" using s(1) by (auto simp: sound_def)
  then obtain i c where i: "i < length (routines s)" "routines s ! i = (SupervisorR, c)"
    by (auto simp: in_set_conv_nth)
  then have m: "(SupervisorR, c) \<in> set (routines s)" by (metis nth_mem)
  have "owed WorkersWG (snd t) = 0" if "t \<in> set (routines s)" for t
    using that assms(3) supervisor_owes sound_point [OF s(1), of "fst t" "snd t"] unfolding ended_def
    by (metis owed_Nil(1) prod.collapse)
  then have "(\<Sum>t\<leftarrow>routines s. owed WorkersWG (snd t)) = 0" by (intro owed_none) simp
  then have w: "workersWG (shared_of s) = 0"
    using sound_counter [OF s(1), of WorkersWG] assms(2) by (simp add: owes_def wg_count_def)
  have ?thesis if "ctxErr (shared_of s)"
    using that i by (intro exI [of _ i] exI [of _ "[]"] exI [of _ s]) simp
  moreover have ?thesis if "c = [StopFn, DoneWG RootWG]"
    using that i by (intro exI [of _ i] exI [of _ "[Routine_Step i 0]"]) simp
  moreover have ?thesis if "c = [WaitWG WorkersWG, StopFn, DoneWG RootWG]"
    using that i w by (intro exI [of _ i] exI [of _ "[Routine_Step i 0, Routine_Step i 0]"]) (simp add: wg_count_def)
  moreover have "c \<in> {[WaitWG WorkersWG, StopFn, DoneWG RootWG], [StopFn, DoneWG RootWG]} \<or> ctxErr (shared_of s)"
    using sound_point [OF s(1) m] s(2) m by (auto simp: points_def supervision_def)
  ultimately show ?thesis by blast
qed

theorem stopped_workers_stop_crawl_witness:
  "\<exists>s i es s'. reachable (main_crawl 0) s \<and> length (routines s) = 9 \<and> \<not> ctxErr (shared_of s) \<and>
     fst (routines s ! i) = SupervisorR \<and> set es \<subseteq> {Routine_Step i 0} \<and> exec_all es s = Some s' \<and> ctxErr (shared_of s')"
proof -
  have "map_option (\<lambda>s. (main_code s, map fst (routines s), ctxErr (shared_of s))) (exec_all (replicate 12 (Main_Step 0)) (launched (main_crawl 0))) =
      Some ([AwaitDone, WaitWG RootWG], [ListingScheduler, Promoter, Reaper, Sweeper, BloomMonitor, Heartbeat, Snapshotter,
        CrawlStateCheckpoint, SupervisorR], False)"
    by code_simp
  then obtain s where s: "exec_all (replicate 12 (Main_Step 0)) (launched (main_crawl 0)) = Some s"
      "main_code s = [AwaitDone, WaitWG RootWG]" "\<not> ctxErr (shared_of s)"
      "map fst (routines s) = [ListingScheduler, Promoter, Reaper, Sweeper, BloomMonitor, Heartbeat, Snapshotter,
        CrawlStateCheckpoint, SupervisorR]"
    by auto
  have r: "reachable (main_crawl 0) s" using exec_all_reachable [OF reachable.start s(1)] .
  have "WorkerR \<notin> set (map fst (routines s))" by (simp add: s(4))
  then have "ended WorkerR s" by (force simp: ended_def)
  moreover have "length (routines s) = 9" using arg_cong [OF s(4), of length] by simp
  ultimately show ?thesis using stopped_workers_stop_crawl [OF r s(2)] r s(3) by blast
qed

section \<open>The loops behind the control points\<close>

text \<open>
  A turn of \<open>workerLoop\<close>, as \<open>Worker\<close> describes it with all its calls, is what the points \<open>WorkLoop\<close> and
  \<open>WorkTurn\<close> allow: the context is cancelled where the turn called \<open>stopFn\<close>, and the goroutine goes on
  or leaves the loop as the turn says. So is a tick of the Bloom monitor, and only that tick may stop.
\<close>

definition moves :: "shared \<times> code \<Rightarrow> shared \<times> code \<Rightarrow> bool" where
  "moves x y \<longleftrightarrow> y \<in> set (succs (fst x) (snd x))"

lemma worker_turn_moves:
  assumes "worker_turn F net ups isLetter cfg videoLimit t (f, w) = (ctl, f', w')"
    and t: "ctx_done t = ctxErr sh" "halted w \<longrightarrow> ctxErr sh"
  shows "moves\<^sup>*\<^sup>* (sh, WorkLoop (videoLimit > 0) # c)
    (sh\<lparr>ctxErr := ctxErr sh \<or> halted w'\<rparr>, if ctl = Continue then WorkLoop (videoLimit > 0) # c else return_from c)"
proof (cases "ctxErr sh")
  case True
  then have "ctl = Return" using assms by (simp add: worker_turn_def)
  then show ?thesis using True by (intro r_into_rtranclp) (simp add: moves_def unless_stopped_def)
next
  case False
  let ?m = "(sh, WorkTurn # WorkLoop (videoLimit > 0) # c)"
  have "moves (sh, WorkLoop (videoLimit > 0) # c) ?m" using False by (simp add: moves_def unless_stopped_def)
  moreover have "moves ?m (sh\<lparr>ctxErr := ctxErr sh \<or> halted w'\<rparr>,
      if ctl = Continue then WorkLoop (videoLimit > 0) # c else return_from c)"
    using False by (cases ctl; cases "halted w'") (auto simp: moves_def return_from_def intro: shared.equality)
  ultimately show ?thesis by (meson converse_rtranclp_into_rtranclp r_into_rtranclp)
qed

lemma bloom_tick_moves:
  "\<not> stopped x \<Longrightarrow> moves (sh, TickBody True # c) (sh\<lparr>ctxErr := ctxErr sh \<or> stopped (bloom_tick e x)\<rparr>, c)"
  by (cases "ctxErr sh"; cases "stopped (bloom_tick e x)") (auto simp: moves_def intro: shared.equality)

end
