(* ===== verification/Boot.thy ===== *)
theory Boot
  imports Startup_Correct Http_Client Video_Store Lifecycle_Correct
begin

text \<open>
  \<open>main\<close> of \<open>src/cmd/crawler/main.go\<close> as a whole, up to the moment its goroutines run: the configuration, the
  storage guards, the log, the connections (\<open>NewRedis\<close>, \<open>NewMongo\<close>), the login, and in production the start of
  \<open>Startup\<close>, \<open>Resume\<close> and the seeds. The test mode continues in \<open>Test_Main\<close>. Flags, the environment and
  what the servers answer are arguments; what the process contacts is recorded in order.
\<close>

section \<open>Connections\<close>

definition prodRedisDB :: int where "prodRedisDB = 0"
definition testRedisDB :: int where "testRedisDB = 1"

text \<open>\<open>NewRedis\<close> pings the server; \<open>NewMongo\<close> ignores the answer to its index creation.\<close>

definition NewRedis :: "go_error option \<Rightarrow> string \<Rightarrow> int \<Rightarrow> go_error + string \<times> int" where
  "NewRedis ping addr db = (case ping of Some err \<Rightarrow> Inl err | None \<Rightarrow> Inr (addr, db))"

definition NewMongo :: "go_error option \<Rightarrow> string \<Rightarrow> string \<Rightarrow> string \<Rightarrow> go_error + string \<times> string \<times> string" where
  "NewMongo connect uri db col = (case connect of Some err \<Rightarrow> Inl err | None \<Rightarrow> Inr (uri, db, col))"

definition New :: "'s \<Rightarrow> 'm \<Rightarrow> ('s, 'm) world" where
  "New s m = \<lparr>server = s, mongo = m, vcount = 0, targets = [], halted = False, ResolveErrors = 0, LeaseErrors = 0\<rparr>"

section \<open>Up to the login\<close>

datatype contact = OpenLog string | DialRedis string int | DialMongo string string string | LoginAt string

record boot_env =
  log_err :: "go_error option"
  ping_err :: "go_error option"
  connect_err :: "go_error option"
  login_srvs :: "nat \<Rightarrow> go_error + reply_http"

record boot =
  boot_cfg :: Config
  boot_redis :: "string \<times> int"
  boot_mongo :: "string \<times> string \<times> string"
  boot_jars :: jars

text \<open>\<open>Inl\<close> is a fatal message. The shared cookie jar has handle 0.\<close>

definition main_boot :: "net_url \<Rightarrow> bool \<Rightarrow> environment \<Rightarrow> boot_env \<Rightarrow> (string + boot) \<times> contact list" where
  "main_boot net testMode env e =
     (let cfg = (if testMode then LoadTest env else Load env) in
      case (if testMode then None else production_guard net cfg) of
        Some msg \<Rightarrow> (Inl msg, [])
      | None \<Rightarrow>
          (let logPath = (if testMode then ''crawler.test.log'' else ''crawler.log'');
               redisDB = (if testMode then testRedisDB else prodRedisDB);
               c1 = [OpenLog logPath];
               c2 = c1 @ [DialRedis (RedisAddr cfg) redisDB];
               c3 = c2 @ [DialMongo (MongoURI cfg) (MongoDB cfg) (MongoCol cfg)];
               c4 = c3 @ [LoginAt (LoginURL cfg)]
           in case log_err e of
                Some err \<Rightarrow> (Inl ''error opening file'', c1)
              | None \<Rightarrow> (case NewRedis (ping_err e) (RedisAddr cfg) redisDB of
                  Inl err \<Rightarrow> (Inl (err_text err), c2)
                | Inr redis \<Rightarrow> (case NewMongo (connect_err e) (MongoURI cfg) (MongoDB cfg) (MongoCol cfg) of
                    Inl err \<Rightarrow> (Inl (err_text err), c3)
                  | Inr mng \<Rightarrow> (case crawler_Login net cfg 0 (login_srvs e) (NewJar 0 (\<lambda>_. None)) of
                      (Some None, _, js) \<Rightarrow> (Inr \<lparr>boot_cfg = cfg, boot_redis = redis, boot_mongo = mng, boot_jars = js\<rparr>, c4)
                    | _ \<Rightarrow> (Inl ''login failed'', c4))))))"

section \<open>Production\<close>

record 's run_env =
  run_start :: startup_env
  fresh :: bool
  seed_file :: "string option"
  seed_calls :: "nat \<Rightarrow> call_env"

text \<open>The frontier of a production process, and the whole of \<open>main\<close> until it waits for its goroutines.\<close>

definition main_frontier :: "'s server \<Rightarrow> Config \<Rightarrow> string option \<Rightarrow> 's frontier_methods" where
  "main_frontier call cfg seeds = NewFrontier call (frontierConfig cfg) (Some (NewURLClassifier cfg (readSeedURLs seeds (BaseUrl cfg))))"

definition main_production :: "'s server \<Rightarrow> 'm driver \<Rightarrow> net_url \<Rightarrow> (rat \<Rightarrow> rat \<Rightarrow> rat) \<Rightarrow> environment \<Rightarrow> boot_env \<Rightarrow> 's run_env \<Rightarrow>
    's \<Rightarrow> 'm \<Rightarrow> string + CrawlStateStore \<times> ('s, 'm) world \<times> crawl" where
  "main_production call D net pow env b e s m = (case fst (main_boot net False env b) of
     Inl msg \<Rightarrow> Inl msg
   | Inr bt \<Rightarrow>
       (let cfg = boot_cfg bt; F = main_frontier call cfg (seed_file e) in
        case production_start call net pow cfg (run_start e) s of
          (Inl msg, s') \<Rightarrow> Inl msg
        | (Inr st, s') \<Rightarrow>
            (let w1 = resume_crawler D (New s' m);
                 w2 = (if fresh e then w1\<lparr>server := snd (Seed F net cfg (seed_calls e) (seed_file e) (server w1))\<rparr> else w1)
             in Inr (st, w2, launched (main_crawl (Workers cfg))))))"

section \<open>The two modes do not share storage\<close>

lemma main_boot_contacts:
  "prefix (snd (main_boot net testMode env e))
     (let cfg = (if testMode then LoadTest env else Load env) in
      [OpenLog (if testMode then ''crawler.test.log'' else ''crawler.log''),
       DialRedis (RedisAddr cfg) (if testMode then testRedisDB else prodRedisDB),
       DialMongo (MongoURI cfg) (MongoDB cfg) (MongoCol cfg), LoginAt (LoginURL cfg)]) \<and>
   (\<not> testMode \<and> production_guard net (Load env) \<noteq> None \<longrightarrow> snd (main_boot net testMode env e) = [])"
  by (simp add: main_boot_def Let_def NewRedis_def NewMongo_def split: option.splits sum.splits prod.splits)

lemma test_endpoints:
  "RedisAddr (LoadTest env) = ''127.0.0.1:16379''" "MongoURI (LoadTest env) = ''mongodb://127.0.0.1:37017''"
  "MongoDB (LoadTest env) = ''gfap_test''" "MongoCol (LoadTest env) = ''videos''"
  "LoginURL (LoadTest env) = ''https://www.vidlii.com/login''"
  by (simp_all add: LoadTest_def Let_def) (simp_all add: Load_def)

text \<open>C23: Test and production use different databases. A test process connects to database 1 of the Redis at
  127.0.0.1:16379 and to the Mongo database gfap_test at 127.0.0.1:37017, whatever the environment says, and to nothing
  else. A production process whose configuration the guards reject contacts nothing at all; otherwise it
  uses database 0 of its Redis and the Mongo database vidlii, so even on one server the two modes do
  not share data. The port of its Redis, and of every host of its Mongo URI, written in digits is not the test port, with any number of
  leading zeros. The guards compare texts and no more than that: an address whose port is the test port with a plus
  sign, which Go's dialer accepts, passes.\<close>

theorem modes_isolated:
  "set (snd (main_boot net True env e)) \<subseteq> {OpenLog ''crawler.test.log'', DialRedis ''127.0.0.1:16379'' 1,
     DialMongo ''mongodb://127.0.0.1:37017'' ''gfap_test'' ''videos'', LoginAt ''https://www.vidlii.com/login''} \<and>
   (production_guard net (Load env) \<noteq> None \<longrightarrow> snd (main_boot net False env e) = []) \<and>
   (DialRedis addr db \<in> set (snd (main_boot net False env e)) \<longrightarrow> db = 0 \<and> digit_port addr \<noteq> Some 16379) \<and>
   (DialMongo uri d col \<in> set (snd (main_boot net False env e)) \<longrightarrow> d = ''vidlii'' \<and>
      (\<exists>u. url_Parse net uri = Some u \<and> (\<forall>host \<in> set (split_on CHR '','' (Host u)). digit_port host \<noteq> Some 37017))) \<and>
   (production_guard net cfg = None \<longrightarrow> production_guard net (cfg\<lparr>RedisAddr := ''127.0.0.1:+16379''\<rparr>) = None)"
proof -
  have t: "set (snd (main_boot net True env e)) \<subseteq> {OpenLog ''crawler.test.log'', DialRedis ''127.0.0.1:16379'' 1,
      DialMongo ''mongodb://127.0.0.1:37017'' ''gfap_test'' ''videos'', LoginAt ''https://www.vidlii.com/login''}"
    using set_mono_prefix [OF conjunct1 [OF main_boot_contacts [of net True env e]]]
    by (simp add: Let_def testRedisDB_def test_endpoints)
  have g: "snd (main_boot net False env e) = []" if "production_guard net (Load env) \<noteq> None"
    using main_boot_contacts [of net False env e] that by simp
  have p: "set (snd (main_boot net False env e)) \<subseteq> {OpenLog ''crawler.log'', DialRedis (RedisAddr (Load env)) 0,
      DialMongo (MongoURI (Load env)) (MongoDB (Load env)) (MongoCol (Load env)), LoginAt (LoginURL (Load env))}"
    using main_boot_contacts [of net False env e] set_mono_prefix by (fastforce simp: Let_def prodRedisDB_def)
  have x: "digit_port (RedisAddr (Load env)) \<noteq> Some 16379 \<and>
      (\<exists>u. url_Parse net (MongoURI (Load env)) = Some u \<and> (\<forall>host \<in> set (split_on CHR '','' (Host u)). digit_port host \<noteq> Some 37017))"
    if "production_guard net (Load env) = None"
    using that production_guard_excludes_test [of net "Load env"] by blast
  have "DialRedis addr db \<in> set (snd (main_boot net False env e)) \<Longrightarrow> addr = RedisAddr (Load env) \<and> db = 0"
    "DialMongo uri d col \<in> set (snd (main_boot net False env e)) \<Longrightarrow> uri = MongoURI (Load env) \<and> d = MongoDB (Load env)"
    using p by auto
  moreover have "MongoDB (Load env) = ''vidlii''" by (simp add: Load_def)
  ultimately show ?thesis
    using t g x production_guard_signed_port by (cases "production_guard net (Load env)") auto
qed

text \<open>A login page that answers 200 and sets a session cookie.\<close>

definition logged_in :: reply_http where
  "logged_in = \<lparr>Status = ''200 OK'', code = 200, location = None, setCookies = [''session''], page = None\<rparr>"

definition healthy_boot :: boot_env where
  "healthy_boot = \<lparr>log_err = None, ping_err = None, connect_err = None, login_srvs = \<lambda>_. Inr logged_in\<rparr>"

theorem modes_isolated_witness:
  "let net = go_url (\<lambda>_. None); env = (\<lambda>k. if k = ''REDIS_ADDR'' then ''127.0.0.1:+16379'' else []) in
   (\<exists>uri. DialMongo uri ''vidlii'' ''videos'' \<in> set (snd (main_boot net False env healthy_boot)) \<and>
      (\<exists>u. url_Parse net uri = Some u \<and> (\<forall>host \<in> set (split_on CHR '','' (Host u)). digit_port host \<noteq> Some 37017))) \<and>
   DialRedis ''127.0.0.1:+16379'' 0 \<in> set (snd (main_boot net False env healthy_boot)) \<and>
   production_guard net (LoadTest env) \<noteq> None"
proof -
  let ?net = "go_url (\<lambda>_. None)" and ?env = "\<lambda>k. if k = ''REDIS_ADDR'' then ''127.0.0.1:+16379'' else []"
  have "DialRedis ''127.0.0.1:+16379'' 0 \<in> set (snd (main_boot ?net False ?env healthy_boot))"
    "DialMongo ''mongodb://localhost:27017'' ''vidlii'' ''videos'' \<in> set (snd (main_boot ?net False ?env healthy_boot))"
    "production_guard ?net (LoadTest ?env) \<noteq> None"
    by code_simp+
  then show ?thesis unfolding Let_def
    using modes_isolated [of ?net ?env healthy_boot "''127.0.0.1:+16379''" 0 "''mongodb://localhost:27017''" "''vidlii''" "''videos''"]
    by blast
qed

section \<open>A running production process\<close>

context frontier_client
begin

lemma seed_lines_via: "seed_lines F net c es ls n s = (r, s') \<Longrightarrow> via trace admission s s'"
proof (induction ls arbitrary: es n s)
  case (Cons line ls)
  then show ?case
    by (auto split: prod.splits sum.splits if_splits dest!: admitURL_via intro: via_trans Cons.IH)
qed (simp add: via_refl)

lemma Seed_via: "via trace admission s (snd (Seed F net c es file s))"
  by (auto simp: Seed_def via_refl seed_lines_via split: option.split prod.split)

end

lemma main_production_cases:
  assumes "main_production call D net pow env b e s m = Inr (st, w, sys)"
  obtains s' where "production_start call net pow (Load env) (run_start e) s = (Inr st, s')"
    "via (server_trace call) admission s' (server w)"
    "w\<lparr>server := s'\<rparr> = resume_crawler D (New s' m)" "sys = launched (main_crawl (Workers (Load env)))"
    "\<exists>past js. crawler_Login net (Load env) 0 (login_srvs b) (NewJar 0 (\<lambda>_. None)) = (Some None, past, js)"
    "\<not> fresh e \<longrightarrow> server w = s'" "production_guard net (Load env) = None"
proof -
  obtain bt where b: "fst (main_boot net False env b) = Inr bt"
    using assms by (auto simp: main_production_def split: sum.splits)
  then have cfg: "boot_cfg bt = Load env" and g: "production_guard net (Load env) = None"
    and l: "\<exists>past js. crawler_Login net (Load env) 0 (login_srvs b) (NewJar 0 (\<lambda>_. None)) = (Some None, past, js)"
    by (auto simp: main_boot_def Let_def split: option.splits sum.splits prod.splits)
  obtain s' where s: "production_start call net pow (Load env) (run_start e) s = (Inr st, s')"
    "w = (let w1 = resume_crawler D (New s' m) in if fresh e
        then w1\<lparr>server := snd (Seed (main_frontier call (Load env) (seed_file e)) net (Load env) (seed_calls e) (seed_file e) (server w1))\<rparr>
        else w1)" "sys = launched (main_crawl (Workers (Load env)))"
    using assms b cfg by (auto simp: main_production_def Let_def split: sum.splits prod.splits)
  have r: "server (resume_crawler D (New s' m)) = s'" "(resume_crawler D (New s' m))\<lparr>server := s'\<rparr> = resume_crawler D (New s' m)"
    by (auto simp: resume_crawler_def Resume_def New_def split: sum.split)
  have "via (server_trace call) admission s' (server w)"
    using new_frontier.Seed_via new_frontier.via_refl r(1) by (auto simp: s(2) Let_def main_frontier_def)
  moreover have "w\<lparr>server := s'\<rparr> = resume_crawler D (New s' m)" using r(2) by (auto simp: s(2) Let_def)
  moreover have "\<not> fresh e \<longrightarrow> server w = s'" using r(1) by (simp add: s(2) Let_def)
  ultimately show thesis using that s(1,3) l g by blast
qed

text \<open>C12: A production process that gets to its main loop is fit to crawl. Its configuration passed the guards, it is
  logged in, checkpoints are allowed, the Bloom filter has the capacity the program expects and holds every video that
  the Mongo cursor listed, so that none is admitted as new again, also not by the seeds; the counters are those of the
  collection if Mongo answered; without -fresh the base page is scheduled and every queue, lease and
  failure counter is as the last run left it; and exactly the goroutines of \<open>main_crawl\<close> are about to start.\<close>

theorem production_runs:
  assumes "redis_server call data" "main_production call D net pow env b e s m = Inr (st, w, sys)"
  shows "production_guard net (Load env) = None \<and> startupComplete st \<and>
    (\<exists>past js. crawler_Login net (Load env) 0 (login_srvs b) (NewJar 0 (\<lambda>_. None)) = (Some None, past, js)) \<and>
    (\<exists>i. bf_info (run_start e) = Inr i \<and> capacity i = bloomCapacity \<and> nfilters i \<le> 1) \<and>
    (\<forall>u. Inr u \<in> set (id_docs (video_ids (run_start e))) \<longrightarrow> u \<in> bloom (data (server w)) \<and>
       (\<forall>tr s''. server_trace call (server w) tr s'' \<longrightarrow> \<not> (\<exists>ev \<in> set tr. admits_new u ev))) \<and>
    (\<forall>n ts. mongo_Count D m = Inr n \<and> FindTargets D m = (ts, None) \<longrightarrow> Count w = n \<and> targets w = ts) \<and>
    (\<not> fresh e \<longrightarrow> same_but_listings (data s) (data (server w)) \<and> listing_next (data (server w)) (BaseUrl (Load env)) \<noteq> None) \<and>
    sys = launched (main_crawl (Workers (Load env)))"
proof (rule main_production_cases [OF assms(2)])
  fix s'
  assume p: "production_start call net pow (Load env) (run_start e) s = (Inr st, s')"
    "via (server_trace call) admission s' (server w)" "w\<lparr>server := s'\<rparr> = resume_crawler D (New s' m)"
    "sys = launched (main_crawl (Workers (Load env)))"
    "\<exists>past js. crawler_Login net (Load env) 0 (login_srvs b) (NewJar 0 (\<lambda>_. None)) = (Some None, past, js)"
    "\<not> fresh e \<longrightarrow> server w = s'" "production_guard net (Load env) = None"
  note st = startup_ready [OF assms(1) p(1)]
  obtain tr where "server_trace call s' tr (server w)" using p(2) by (auto simp: via_def)
  then have bl: "u \<in> bloom (data (server w))" if "Inr u \<in> set (id_docs (video_ids (run_start e)))" for u
    using redis_server.trace_bloom [OF assms(1)] st that by blast
  have c: "Count w = n \<and> targets w = ts" if "mongo_Count D m = Inr n" "FindTargets D m = (ts, None)" for n ts
  proof -
    have "resume_crawler D (New s' m) = (New s' m)\<lparr>targets := ts, vcount := n\<rparr>"
      using that by (simp add: resume_crawler_def Resume_def or_err_def New_def)
    then have "vcount (w\<lparr>server := s'\<rparr>) = n" "targets (w\<lparr>server := s'\<rparr>) = ts" unfolding p(3) by simp_all
    then show ?thesis by (simp add: Count_def)
  qed
  show ?thesis using st bl c p(4-7) redis_server.no_readmission [OF assms(1)] by auto
qed

text \<open>A fresh start on a Redis that lost its Bloom filter, with one stored video.\<close>

definition sample_run :: "rstore run_env" where
  "sample_run = \<lparr>run_start = sample_start, fresh = True, seed_file = Some ''https://www.vidlii.com/videos'',
     seed_calls = \<lambda>_. call_at (100 * second)\<rparr>"

definition sample_process :: "string + CrawlStateStore \<times> (rstore, video_store) world \<times> crawl" where
  "sample_process = main_production store_call store_driver (go_url (\<lambda>_. None)) sample_pow (\<lambda>_. []) healthy_boot sample_run
     (replay [OSeedListing ''https://www.vidlii.com/videos'']) old_store"

lemma sample_guard_ok: "production_guard (go_url (\<lambda>_. None)) (Load (\<lambda>_. [])) = None"
  by code_simp

lemma sample_login: "\<exists>past js. crawler_Login (go_url (\<lambda>_. None)) (Load (\<lambda>_. [])) 0 (\<lambda>_. Inr logged_in) (NewJar 0 (\<lambda>_. None)) = (Some None, past, js)"
proof -
  have "fst (crawler_Login (go_url (\<lambda>_. None)) (Load (\<lambda>_. [])) 0 (\<lambda>_. Inr logged_in) (NewJar 0 (\<lambda>_. None))) = Some None" by code_simp
  then show ?thesis by (metis prod.collapse)
qed

theorem production_runs_witness:
  "\<exists>st w sys. sample_process = Inr (st, w, sys) \<and> startupComplete st \<and> ''https://www.vidlii.com/watch?v=b'' \<in> bloom (store_data (server w)) \<and>
     Count w = 1 \<and> sys = launched (main_crawl 20)"
proof -
  obtain bt where b: "fst (main_boot (go_url (\<lambda>_. None)) False (\<lambda>_. []) healthy_boot) = Inr bt" "boot_cfg bt = Load (\<lambda>_. [])"
    using sample_login by (auto simp: main_boot_def sample_guard_ok healthy_boot_def NewRedis_def NewMongo_def Let_def)
  obtain st s0 where s: "production_start store_call (go_url (\<lambda>_. None)) sample_pow (Load (\<lambda>_. [])) (run_start sample_run)
      (replay [OSeedListing ''https://www.vidlii.com/videos'']) = (Inr st, s0)"
    using started_ok unfolding started_def sample_run_def by (metis isl_def prod.collapse run_env.select_convs(1) sumE)
  obtain w sys where p: "sample_process = Inr (st, w, sys)"
    unfolding sample_process_def main_production_def b(1) sum.case b(2) Let_def s prod.case by blast
  have c: "mongo_Count store_driver old_store = Inr 1" "FindTargets store_driver old_store = ([], None)"
    "Workers (Load (\<lambda>_. [])) = 20" by code_simp+
  have "Inr ''https://www.vidlii.com/watch?v=b'' \<in> set (id_docs (video_ids (run_start sample_run)))"
    by (simp add: sample_run_def sample_start_def)
  with production_runs [OF store.redis_server_axioms p [unfolded sample_process_def]] c p show ?thesis by auto
qed

end
