(* ===== verification/Spec2Isabelle.thy ===== *)
theory Spec2Isabelle
  imports Scheduler Worker_Pages Crawl_Saveable Test_Main Housekeeping Boot
begin

text \<open>
  This library verifies gfap, a crawler of one video site. Workers lease URLs from a frontier kept in
  Redis, fetch and classify pages, store videos in Mongo and admit the links they find; reconcilers requeue what
  was lost, schedule listings and watch the Bloom filter; the listing schedule and the dead list are
  checkpointed to Mongo and restored when Redis is lost.

  \<^bold>\<open>Redis and Mongo.\<close> Neither is code of the repository. \<open>Redis_Interface\<close> takes Redis as a function that
  executes one command (locale \<open>redis_server\<close>: a command that answers has the effect Redis documents, a
  command that fails has none; \<open>redis_reliable\<close>: a command whose preconditions hold does not fail).
  \<open>Redis_Reference\<close> has two executable servers that satisfy these laws, one of them failing on demand; the
  witnesses run on them. The collection of videos is used through the locale \<open>video_collection\<close> of \<open>Video_Store\<close>, with a
  reference collection that loses replies as planned; what a cursor or a bulk write answers is an argument of the
  definitions that use it, and so are what the web servers answer, the clock, and the environment.

  \<^bold>\<open>The frontier\<close> (\<open>src/internal/storage/frontier.go\<close>). \<open>Frontier_Scripts\<close> has the twelve Lua scripts, command by command;
  \<open>Frontier\<close> has the Go types, the configuration and every method, with calls that are retried or whose reply is
  lost. The state is the contents of Redis (record \<open>keyspace\<close>). \<open>Frontier_Invariant\<close> and \<open>Frontier_Run\<close>
  show what every script keeps, also when it is cut off at any command, and lift it to traces of
  script executions (\<open>server_trace\<close>): whatever workers, reconcilers and processes do is such a trace, because Redis runs
  scripts one at a time. \<open>Frontier_Safety\<close> states the safety properties (a job is leased and completed at most once,
  a lost lease is final, no URL is lost, a video is new at most once). \<open>Frontier_Spec\<close> is the abstract
  specification of every operation, and \<open>Frontier_Correct\<close> and \<open>Frontier_Reconcile\<close> show that the methods
  implement it on a reliable server, on every branch. \<open>Frontier_Contract\<close> states what callers rely on
  (locale \<open>frontier_client\<close>) and proves it for the model of \<open>NewFrontier\<close>.

  \<^bold>\<open>Reconcilers\<close> (\<open>src/internal/scheduler/\<close>). \<open>Scheduler\<close> has the tick loop, the bodies of the reconcilers and their metrics,
  and proves that the drain of due listings ends (fuel: one page more than there are scheduled listings suffices);
  \<open>Housekeeping\<close> has the checkpoint reconciler, the snapshotter and the preflight of a test database.

  \<^bold>\<open>Workers\<close> (\<open>src/internal/crawler/worker.go\<close>, \<open>crawler.go\<close>). \<open>Worker\<close> has the classification of pages, the handling of
  each outcome, and the loop, as state passing over the crawler's state (record \<open>world\<close>). \<open>Worker_Correct\<close> shows that a turn of a worker
  keeps every queued URL, closes only the job it leased, and releases its lease; \<open>Worker_Pages\<close> what each response becomes and
  when a worker stops; \<open>Worker_Canonical\<close> that canonical URLs are fixed points on the base site, over the model of
  Go's \<open>net/url\<close> in \<open>Net_URL\<close>. \<open>Video_Model\<close> has the match flags of a video (\<open>src/internal/model/video.go\<close>) with
  \<open>time.Parse\<close> for the layouts used, \<open>Config\<close> the configuration (\<open>src/internal/config/config.go\<close>). \<open>Http_Client\<close> has the HTTP clients
  with their proxies, redirects and cookies and the login (\<open>src/internal/auth/login.go\<close>): a fetch ends after at most ten requests and
  stays on the site (the bound of eleven requests in \<open>exchange\<close> is never used up), and a proxy without a scheme is silently not used. \<open>Video_Store\<close> has the
  operations on stored videos (\<open>src/internal/storage/mongo.go\<close>) and shows how the crawler's counters follow them.

  \<^bold>\<open>Crawl state\<close> (\<open>src/internal/storage/crawl_state.go\<close>, \<open>crawl_state_restore.go\<close>). \<open>Crawl_State\<close> has rows, their documents and the strict
  decoder, \<open>Json_Marker\<close> the restore marker, \<open>Crawl_Restore\<close> and \<open>Crawl_Checkpoint\<close> the two passes. The
  \<open>Crawl_Restore_*\<close> theories show that a restore may be interrupted anywhere, leaves a live frontier alone, and
  completes when nothing fails, with every row written at a second that the clock showed during the run (\<open>written\<close>);
  \<open>Crawl_Checkpoint_Correct\<close> that every row written is one observed state of its URL;
  \<open>Crawl_Roundtrip\<close> that a row survives both encodings; \<open>Crawl_Saveable\<close> which URLs are admitted although no checkpoint can save them. The last
  section below composes them: what a checkpoint saved is in force again after a restore.

  \<^bold>\<open>Goroutines.\<close> \<open>Lifecycle\<close> has what \<open>main\<close> and \<open>RunTest\<close> start (\<open>scheduler.Run\<close>, \<open>RunCrawlStateCheckpoint\<close>, \<open>Crawler.Run\<close>), the shared
  context, the wait groups and the supervisor, as an executable step function with reachability as an inductive predicate; every
  goroutine is the list of statements ahead of it. \<open>Lifecycle_Correct\<close> proves through the locale \<open>program\<close> that counters stay
  non-negative, that all goroutines on the wait groups are joined, that a cancelled crawl ends within a bounded number of steps and never
  deadlocks, and that a crawl without workers stops itself; a turn of \<open>Worker\<close> is one of the steps. The metrics server and the
  signal handler, which \<open>main\<close> starts but never joins, appear as the event \<open>Stop_Requested\<close> they can cause.

  \<^bold>\<open>Start, test run, stop.\<close> \<open>Startup\<close> has the storage guards of \<open>src/cmd/crawler/main.go\<close>, the administration of the Bloom filter
  (\<open>redis.go\<close>), the stream of stored URLs (\<open>mongo.go\<close>, used through the locale \<open>url_consumer\<close>) and the order of the production start;
  \<open>Startup_Correct\<close> shows which addresses the guards refuse and that a started crawler admits no stored video again. \<open>Test_Mode\<close>
  has the bounded test crawl, with the observations of concurrent workers as an arbitrary interleaving;
  \<open>Test_Mode_Correct\<close> shows what a passed run proves, and \<open>Test_Main\<close> what the exit code of the whole test mode does. \<open>Stop_Endpoint\<close> has the handler that ends a crawl (\<open>src/internal/metrics/metrics.go\<close>).
  \<open>Boot\<close> has \<open>main\<close> as a whole: the connections and the login, the isolation of the two modes (by database; the guards on
  the ports compare texts and let a port with a plus sign pass), and what holds when a production process reaches its main loop.

  \<^bold>\<open>Numbers.\<close> Go integers are \<open>int\<close> with \<open>wrap64\<close> where a product may leave 64 bits; Redis counters are checked against the 64-bit
  range. Identifiers are exact below \<open>id_limit\<close> (Lua prints numbers with fourteen digits), and properties that mint
  identifiers ask for that much room (\<open>healthy\<close>). The TTL of a listing, which Lua computes in doubles, is an integer with the
  case that is not a number as an error of the script (\<open>listing_ttl\<close>); its specification \<open>revisit_interval\<close> is about positive base TTLs. The implied false positive rate and the fill ratio are exact
  rationals in place of floats, with \<open>math.Pow\<close> a parameter.

  \<^bold>\<open>Not modelled.\<close> The HTML parser, the Prometheus collectors (declarations of a library), log output, the JSON text that \<open>SaveTest\<close> writes, and the
  methods of \<open>Redis\<close> that only forward one call (\<open>BloomReset\<close>, \<open>Snapshot\<close>, \<open>FlushDB\<close>, \<open>Close\<close>). The calls of concurrent goroutines appear as
  interleavings of atomic steps: script executions for the frontier (its one pipeline, \<open>Stats\<close>, is read from one state), observations for the test run, control points in
  \<open>Lifecycle\<close>, which abstracts from what a tick or a turn does to the stores. Time passes only through the clock readings of calls and
  the ticks that a run may take. A fatal error of the metrics server, which ends the process at once, is not an event of \<open>Lifecycle\<close>.
\<close>

section \<open>Crawl state survives the loss of Redis\<close>

text \<open>The rows a checkpoint pass leaves are valid: the old ones by assumption, the new ones as they were read.\<close>

lemma rows_valid:
  assumes "progress I net us whole col c" "\<forall>u row. col u = Some row \<longrightarrow> validate net row = None" "row \<in> ran c"
  shows "validate net row = None"
proof -
  obtain u where u: "c u = Some row" using assms(3) by (auto simp: ran_def)
  from assms(1) have "c u = col u \<or> saved I net c u" by (auto simp: progress_def)
  with u assms(2) show ?thesis by (auto simp: saved_def dest: row_of_next)
qed

lemma decoded_encoded:
  "\<forall>row \<in> set rows. validate net row = None \<Longrightarrow> decoded net (map (\<lambda>row. Some (encode_row row)) rows) = rows"
  by (induction rows) (simp_all add: decoded_def decode_encode)

text \<open>How a URL is treated in one state compared with an earlier one: blocked alike, counted alike, scheduled alike up to
  what a restore adjusts.\<close>

definition carried_over :: "int \<Rightarrow> url \<Rightarrow> keyspace \<Rightarrow> keyspace \<Rightarrow> bool" where
  "carried_over now u d d' \<longleftrightarrow>
     (\<forall>t \<ge> now. blocked d' u t \<longleftrightarrow> blocked d u t) \<and> tally (barren d' u) = tally (barren d u) \<and>
     listing_next d' u =
       (if quarantine d u = Some 0 then None
        else map_option (\<lambda>n. max (if n = PendingScore then 0 else n)
               (case quarantine d u of None \<Rightarrow> 0 | Some q \<Rightarrow> if now < q then q else 0)) (listing_next d u))"

lemma carried_over_row:
  assumes "values_inv d" "row_of net u d = Inr row" "installed now row d'"
  shows "carried_over now u d d'"
  using restored_row_like [OF assms] unfolding carried_over_def by blast

text \<open>C11: Crawl state survives the loss of Redis. Let a checkpoint pass over one Redis succeed, and let the crawler
  then start on another one that is empty (or has an unfinished restore), with the collection of the pass as its
  checkpoint and without failures. The restore completes, allows checkpoints, and every URL of
  the pass is treated as it was in a state of the old Redis during the pass: from the second in which the restore
  wrote it, read from the clock in a step of this restore, it is blocked at the same times, has the same count of
  barren visits, and is at its place in the schedule. A quarantine that has not run out by then is in force.\<close>

theorem crawl_state_survives:
  assumes "redis_server call data" "Checkpoint call net E st a b c col x = Some (None, p)"
    "I (data (srv x))" "\<And>d. I d \<Longrightarrow> values_inv d"
    "\<forall>page \<in> set (a @ b @ c). \<forall>i s. I (data s) \<longrightarrow> I (data (meanwhile (bulks page i) s))"
    "\<forall>u row. col u = Some row \<longrightarrow> validate net row = None"
    "redis_reliable call' data'" "calm E' st'" "plain (mongoSource st')"
    "saved_marker st' (marker_reply (data' (srv x'))) = Inr m" "startup_choice (startup_of m (data' (srv x'))) = Fill resuming"
    "cur = \<lparr>find_err = None, docs = map (\<lambda>row. Some (encode_row row)) rows, cursor_err = None, close_err = None\<rparr>"
    "set rows = ran (coll p)" "distinct (map rowURL rows)" "scanned a \<union> scanned b \<union> scanned c \<noteq> {}"
  shows "\<exists>stats y. Restore call' net E' cur st' x' = (None, stats, st'\<lparr>startupComplete := True\<rparr>, y) \<and>
    (\<forall>u \<in> scanned a \<union> scanned b \<union> scanned c. \<exists>d n. I d \<and> step x' \<le> n \<and> n < step y \<and>
       carried_over (unix (clock (wire (E' n)))) u d (data' (srv y)))"
proof -
  have "\<forall>page \<in> set (a @ b @ c). undisturbed data I (bulks page)" using assms(5) by (simp add: undisturbed_def)
  from redis_server.Checkpoint_progress [where I = I, OF assms(1,2,3) this]
  have prog: "progress I net (scanned a \<union> scanned b \<union> scanned c) True col (coll p)" by simp
  then have saved: "saved I net (coll p) u" if "u \<in> scanned a \<union> scanned b \<union> scanned c" for u
    using that by (auto simp: progress_def)
  have valid: "\<forall>row \<in> set rows. validate net row = None"
    using rows_valid [OF prog assms(6)] assms(13) by blast
  have "rows \<noteq> []" using saved assms(13,15) by (force simp: saved_def ran_def)
  then obtain y where y: "Restore call' net E' cur st' x' =
      (None, \<lparr>Mode = ''restored'', Rows = int (length (docs cur))\<rparr>, st'\<lparr>startupComplete := True\<rparr>, y)"
    "\<forall>row \<in> set rows. written E' (step x') (step y) row (data' (srv y))"
    using Restore_fills [OF assms(7-11), of cur net] assms(12,14) valid
    by (auto simp: decoded_encoded decode_encode)
  have "\<exists>d n. I d \<and> step x' \<le> n \<and> n < step y \<and> carried_over (unix (clock (wire (E' n)))) u d (data' (srv y))"
    if u: "u \<in> scanned a \<union> scanned b \<union> scanned c" for u
  proof -
    obtain d row where d: "I d" "row_of net u d = Inr row" "coll p u = Some row" using saved [OF u] by (auto simp: saved_def)
    then obtain n where "step x' \<le> n" "n < step y" "installed (unix (clock (wire (E' n)))) row (data' (srv y))"
      using y(2) assms(13) by (auto simp: ran_def written_def)
    with carried_over_row [OF assms(4) [OF d(1)] d(2)] d(1) show ?thesis by blast
  qed
  with y(1) show ?thesis by blast
qed

text \<open>A listing in quarantine until 9000, saved by a pass and restored at second 100.\<close>

definition quarantined_listing :: rstore where
  "quarantined_listing = put_z keyListingNext [(resting_url, 5000)] (put_h keyListingBarren [(resting_url, ''2'')]
     (put_h keyDead [(resting_url, ''server_error|9000'')] empty_store))"

definition quarantine_pass :: "(go_error option \<times> rstore session pass_state) option" where
  "quarantine_pass = Checkpoint store_call (go_url (\<lambda>_. None)) quiet (sample_store\<lparr>startupComplete := True\<rparr>)
     [calm_page [resting_url, ''5000'']] [calm_page []] [calm_page []] Map.empty
     \<lparr>srv = quarantined_listing, step = 0\<rparr>"

lemma quarantined_listing_data: "store_data quarantined_listing = resting"
  by (simp add: quarantined_listing_def resting_def store_data_def empty_store_def put_z_def put_h_def fun_eq_iff)

lemma empty_store_startup:
  "saved_marker sample_store (marker_reply (store_data empty_store)) = Inr None"
  "startup_choice (startup_of None (store_data empty_store)) = Fill False"
  by (simp_all add: marker_reply_def saved_marker_def startup_of_def startup_choice_def in_phase_def work_count_def
      store_data_def empty_store_def)

definition lost_and_found :: "mongoCrawlRecord list \<Rightarrow> go_error option \<times> RestoreStats \<times> CrawlStateStore \<times> rstore session" where
  "lost_and_found rows = Restore store_call (go_url (\<lambda>_. None)) quiet
     \<lparr>find_err = None, docs = map (\<lambda>row. Some (encode_row row)) rows, cursor_err = None, close_err = None\<rparr>
     sample_store \<lparr>srv = empty_store, step = 0\<rparr>"

theorem crawl_state_survives_witness:
  "\<exists>p row stats y. quarantine_pass = Some (None, p) \<and> coll p resting_url = Some row \<and>
     lost_and_found [row] = (None, stats, sample_store\<lparr>startupComplete := True\<rparr>, y) \<and>
     carried_over 100 resting_url (store_data quarantined_listing) (store_data (srv y)) \<and>
     blocked (store_data (srv y)) resting_url 8999 \<and> \<not> blocked (store_data (srv y)) resting_url 9000"
proof -
  let ?I = "\<lambda>d. d = store_data quarantined_listing"
  let ?a = "[calm_page [resting_url, ''5000'']]" and ?c = "[calm_page []]"
  have "case quarantine_pass of None \<Rightarrow> False | Some (err, p) \<Rightarrow> err = None" by code_simp
  then obtain p where p: "quarantine_pass = Some (None, p)" by (auto split: option.splits)
  note pass = p [unfolded quarantine_pass_def]
  have pages: "\<forall>page \<in> set (?a @ [calm_page []] @ ?c). undisturbed store_data ?I (bulks page)"
    by (simp add: undisturbed_def calm_page_def)
  have scans: "scanned ?a \<union> scanned [calm_page []] \<union> scanned ?c = {resting_url}" by code_simp
  have prog: "progress ?I (go_url (\<lambda>_. None)) {resting_url} True Map.empty (coll p)"
    using redis_server.Checkpoint_progress [where I = ?I, OF store.redis_server_axioms pass _ pages] scans by simp
  then obtain row where row: "coll p resting_url = Some row" by (auto simp: progress_def saved_def)
  have ran: "set [row] = ran (coll p)"
    using prog row by (auto simp: progress_def ran_def) (metis option.distinct(1) option.inject)
  have "\<exists>stats y. lost_and_found [row] = (None, stats, sample_store\<lparr>startupComplete := True\<rparr>, y) \<and>
      (\<forall>u \<in> {resting_url}. \<exists>d n. ?I d \<and> step \<lparr>srv = empty_store, step = 0\<rparr> \<le> n \<and> n < step y \<and>
         carried_over (unix (clock (wire (quiet n)))) u d (store_data (srv y)))"
    unfolding lost_and_found_def scans [symmetric]
    by (rule crawl_state_survives [where I = ?I, OF store.redis_server_axioms pass _ _ _ _ store.redis_reliable_axioms
          quiet_calm sample_store_plain _ _ refl ran, of _ None False])
      (simp_all add: quarantined_listing_data resting_values empty_store_startup calm_page_def scans [simplified calm_page_def])
  moreover have "unix (clock (wire (quiet n))) = 100" for n by (simp add: quiet_def) code_simp
  ultimately obtain stats y where y: "lost_and_found [row] = (None, stats, sample_store\<lparr>startupComplete := True\<rparr>, y)"
    "carried_over 100 resting_url (store_data quarantined_listing) (store_data (srv y))" by auto
  have "blocked (store_data quarantined_listing) resting_url 8999" "\<not> blocked (store_data quarantined_listing) resting_url 9000"
    by code_simp+
  with p row y show ?thesis unfolding carried_over_def by fastforce
qed

end
